(* ===== verification/Agent_Prelude.thy ===== *)
theory Agent_Prelude
  imports Main "HOL-Library.Word" "HOL-Library.Sublist"
begin

text \<open>
  Shared base of the development: the machine integer types of the C++ code, the result type
  used for code that may throw, and the generic lemmas on lists, words and results that the
  component theories rely on.

  \<^item> \<open>int\<close>, \<open>int64_t\<close> and \<open>uint64_t\<close> are words of 32 and 64 bits; \<open>sint\<close> reads the signed
    ones and \<open>uint\<close>/\<open>unat\<close> the unsigned ones.
  \<^item> A function that may throw returns \<open>exn + 'a\<close> with the exception on the left.
  \<^item> An object that C++ leaves uninitialised is an explicit argument called \<open>junk\<close>: what is
    proved for every \<open>junk\<close> does not depend on it.
\<close>

section \<open>Types\<close>

type_synonym i32 = "32 word"
type_synonym u32 = "32 word"
type_synonym i64 = "64 word"
type_synonym u64 = "64 word"

text \<open>The exceptions the modelled code can raise or let through.\<close>

datatype exn =
    InvalidArgument
  | OutOfRange
  | RuntimeError string
  | FilesystemError string
  | YamlException string
  | ZmqError string
  | SystemError string

definition res_bind :: "exn + 'a \<Rightarrow> ('a \<Rightarrow> exn + 'b) \<Rightarrow> exn + 'b" where
  "res_bind m f = (case m of Inl e \<Rightarrow> Inl e | Inr x \<Rightarrow> f x)"

definition to_option :: "exn + 'a \<Rightarrow> 'a option" where
  "to_option m = (case m of Inl _ \<Rightarrow> None | Inr x \<Rightarrow> Some x)"

named_theorems scan_simps "evaluation of scanners and string operations"
named_theorems frame_simps "fields an operation leaves alone"

section \<open>Results\<close>

lemma res_bind_simps [simp]:
  "res_bind (Inl e) f = Inl e"
  "res_bind (Inr x) f = f x"
  by (simp_all add: res_bind_def)

lemma res_bind_eq_Inr [simp]:
  "res_bind m f = Inr y \<longleftrightarrow> (\<exists>x. m = Inr x \<and> f x = Inr y)"
  by (cases m) auto

lemma res_bind_eq_Inl:
  "res_bind m f = Inl e \<longleftrightarrow> m = Inl e \<or> (\<exists>x. m = Inr x \<and> f x = Inl e)"
  by (cases m) auto

lemma to_option_simps [simp]:
  "to_option (Inl e) = None"
  "to_option (Inr x) = Some x"
  by (simp_all add: to_option_def)

lemma to_option_eq_Some [simp]: "to_option m = Some x \<longleftrightarrow> m = Inr x"
  by (cases m) auto

section \<open>Lists\<close>

lemma takeWhile_dropWhile_split:
  assumes "\<forall>c \<in> set xs. P c" and "ys = [] \<or> \<not> P (hd ys)"
  shows "takeWhile P (xs @ ys) = xs" and "dropWhile P (xs @ ys) = ys"
proof -
  have "takeWhile P ys = [] \<and> dropWhile P ys = ys" using assms(2) by (cases ys) auto
  with assms(1) show "takeWhile P (xs @ ys) = xs" and "dropWhile P (xs @ ys) = ys"
    by (simp_all add: takeWhile_append2 dropWhile_append2)
qed

lemma dropWhile_suffix: "suffix (dropWhile P xs) xs"
  by (metis suffix_dropWhile)

lemma suffix_drop_leI: "suffix ys xs \<Longrightarrow> length ys \<le> length xs"
  by (rule suffix_length_le)

section \<open>Words\<close>

lemma sint_word_of_int_64:
  assumes "- (2 ^ 63) \<le> i" and "i < 2 ^ 63"
  shows "sint (word_of_int i :: i64) = i"
  using assms by (simp add: sint_sbintrunc' signed_take_bit_int_eq_self)

lemma sint_word_of_int_32:
  assumes "- (2 ^ 31) \<le> i" and "i < 2 ^ 31"
  shows "sint (word_of_int i :: i32) = i"
  using assms by (simp add: sint_sbintrunc' signed_take_bit_int_eq_self)

lemma sint_range_64:
  fixes w :: i64
  shows "- (2 ^ 63) \<le> sint w" and "sint w < 2 ^ 63"
  using sint_greater_eq [of w] sint_less [of w] by simp_all

lemma sint_range_32:
  fixes w :: i32
  shows "- (2 ^ 31) \<le> sint w" and "sint w < 2 ^ 31"
  using sint_greater_eq [of w] sint_less [of w] by simp_all

lemma unat_range_64:
  fixes w :: u64
  shows "unat w < 2 ^ 64"
  using unsigned_less [of w] by simp

end
