(* ===== verification/CString_Lib.thy ===== *)
theory CString_Lib
  imports Agent_Prelude
begin

text \<open>
  The part of the C and C++ string library that the agent's parsers call, on \<open>string\<close> (a list
  of bytes): character classes of the C locale, \<open>std::to_string\<close>, \<open>strtol\<close>/\<open>std::stoi\<close>,
  \<open>std::from_chars\<close>, \<open>std::string::find\<close>/\<open>rfind\<close>, \<open>std::getline\<close> and \<open>operator>>\<close>.
  The lemmas give the round trips between printing and reading numbers and the fact that a
  scanner leaves a suffix of its input.
\<close>

section \<open>Characters\<close>

abbreviation newline_char :: char where "newline_char \<equiv> CHR 0x0A"

definition is_space :: "char \<Rightarrow> bool" where
  "is_space c \<longleftrightarrow> c \<in> {CHR 0x20, CHR 0x09, CHR 0x0A, CHR 0x0B, CHR 0x0C, CHR 0x0D}"

definition is_digit :: "char \<Rightarrow> bool" where
  "is_digit c \<longleftrightarrow> 48 \<le> (of_char c :: nat) \<and> (of_char c :: nat) \<le> 57"

definition digit_val :: "char \<Rightarrow> nat" where
  "digit_val c = of_char c - 48"

definition digit_char :: "nat \<Rightarrow> char" where
  "digit_char d = char_of (48 + d)"

text \<open>\<open>c_str()\<close>: what a C function sees of a \<open>std::string\<close>, up to the first NUL.\<close>

definition c_str :: "string \<Rightarrow> string" where
  "c_str s = takeWhile (\<lambda>c. c \<noteq> CHR 0x00) s"

lemma of_char_digit_char [simp]: "d < 10 \<Longrightarrow> of_char (digit_char d) = (48 + d :: nat)"
  by (simp add: digit_char_def)

lemma digit_char_digit [simp]: "d < 10 \<Longrightarrow> is_digit (digit_char d)"
  by (simp add: is_digit_def)

lemma digit_val_char [simp]: "d < 10 \<Longrightarrow> digit_val (digit_char d) = d"
  by (simp add: digit_val_def)

lemma digit_not_space [simp]: "is_digit c \<Longrightarrow> \<not> is_space c"
  by (auto simp: is_digit_def is_space_def)

lemma digit_not_nul [simp]: "is_digit c \<Longrightarrow> c \<noteq> CHR 0x00"
  by (auto simp: is_digit_def)

lemma sign_not_space [simp]: "\<not> is_space (CHR ''-'')" "\<not> is_space (CHR ''+'')"
  by (simp_all add: is_space_def)

lemma digit_val_less: "is_digit c \<Longrightarrow> digit_val c < 10"
  by (auto simp: is_digit_def digit_val_def)

section \<open>Decimal numbers\<close>

fun nat_digits :: "nat \<Rightarrow> string" where
  "nat_digits n = (if n < 10 then [digit_char n] else nat_digits (n div 10) @ [digit_char (n mod 10)])"

declare nat_digits.simps [simp del]

definition show_int :: "int \<Rightarrow> string" where
  "show_int i = (if i < 0 then CHR ''-'' # nat_digits (nat (- i)) else nat_digits (nat i))"

definition digits_val :: "string \<Rightarrow> nat" where
  "digits_val ds = foldl (\<lambda>a c. 10 * a + digit_val c) 0 ds"

lemma digits_val_snoc [simp]: "digits_val (ds @ [c]) = 10 * digits_val ds + digit_val c"
  by (simp add: digits_val_def)

lemma digits_val_Nil [simp]: "digits_val [] = 0"
  by (simp add: digits_val_def)

lemma nat_digits_nonempty [simp]: "nat_digits n \<noteq> []"
  by (subst nat_digits.simps) simp

lemma nat_digits_digits: "\<forall>c \<in> set (nat_digits n). is_digit c"
proof (induction n rule: nat_digits.induct)
  case (1 n)
  show ?case
  proof (cases "n < 10")
    case True
    then show ?thesis by (subst nat_digits.simps) simp
  next
    case False
    with 1 have "\<forall>c \<in> set (nat_digits (n div 10)). is_digit c" by simp
    with False show ?thesis by (subst nat_digits.simps) auto
  qed
qed

lemma digits_val_nat_digits [simp]: "digits_val (nat_digits n) = n"
proof (induction n rule: nat_digits.induct)
  case (1 n)
  show ?case
  proof (cases "n < 10")
    case True
    then show ?thesis by (subst nat_digits.simps) (simp add: digits_val_def)
  next
    case False
    with 1 have "digits_val (nat_digits (n div 10)) = n div 10" by simp
    with False show ?thesis by (subst nat_digits.simps) simp
  qed
qed

lemma nat_digits_hd_digit [simp]: "is_digit (hd (nat_digits n))"
  using nat_digits_digits [of n] hd_in_set [OF nat_digits_nonempty] by blast

lemma nat_digits_split:
  assumes "r = [] \<or> \<not> is_digit (hd r)"
  shows "takeWhile is_digit (nat_digits n @ r) = nat_digits n"
    and "dropWhile is_digit (nat_digits n @ r) = r"
  using takeWhile_dropWhile_split [OF nat_digits_digits assms] by auto

section \<open>strtol and std::stoi\<close>

definition split_sign :: "string \<Rightarrow> bool \<times> string" where
  "split_sign s = (case s of [] \<Rightarrow> (False, [])
     | c # cs \<Rightarrow> if c = CHR ''-'' then (True, cs) else if c = CHR ''+'' then (False, cs) else (False, s))"

definition apply_sign :: "bool \<Rightarrow> nat \<Rightarrow> int" where
  "apply_sign neg n = (if neg then - int n else int n)"

text \<open>
  \<open>strtol(s, &end, 10)\<close> before the result is forced into the target type: the value read and
  the unread rest, or \<open>None\<close> when no digit was found.
\<close>

definition strtol10 :: "string \<Rightarrow> (int \<times> string) option" where
  "strtol10 s =
     (let (neg, s1) = split_sign (dropWhile is_space s); ds = takeWhile is_digit s1
      in if ds = [] then None else Some (apply_sign neg (digits_val ds), dropWhile is_digit s1))"

text \<open>\<open>std::stoi\<close>: no digits is \<open>invalid_argument\<close>, a value outside \<open>int\<close> is \<open>out_of_range\<close>;
  characters after the number are ignored.\<close>

definition stoi :: "string \<Rightarrow> exn + i32" where
  "stoi s = (case strtol10 s of None \<Rightarrow> Inl InvalidArgument
     | Some (v, _) \<Rightarrow> if - (2 ^ 31) \<le> v \<and> v < 2 ^ 31 then Inr (word_of_int v) else Inl OutOfRange)"

text \<open>\<open>long\<close> saturates at its limits in \<open>strtol\<close>.\<close>

definition sat_i64 :: "int \<Rightarrow> i64" where
  "sat_i64 v = word_of_int (max (- (2 ^ 63)) (min (2 ^ 63 - 1) v))"

lemma sat_i64_in_range: "- (2 ^ 63) \<le> v \<Longrightarrow> v < 2 ^ 63 \<Longrightarrow> sat_i64 v = word_of_int v"
  by (simp add: sat_i64_def)

lemma sat_i64_sint [simp]: "sat_i64 (sint w) = w"
  using sint_range_64 [of w] by (simp add: sat_i64_in_range)

lemma split_sign_digit [simp]:
  assumes "s \<noteq> []" and "is_digit (hd s)"
  shows "split_sign s = (False, s)"
proof (cases s)
  case (Cons c cs)
  with assms have "c \<noteq> CHR ''-''" "c \<noteq> CHR ''+''" by (auto simp: is_digit_def)
  with Cons show ?thesis by (simp add: split_sign_def)
qed (use assms in simp)

lemma show_int_hd_not_space [simp]: "\<not> is_space (hd (show_int i))"
  by (simp add: show_int_def is_space_def [of "CHR ''-''"])

lemma show_int_nonempty [simp]: "show_int i \<noteq> []"
  by (simp add: show_int_def)

lemma dropWhile_space_nat_digits [simp]:
  "dropWhile is_space (nat_digits n @ r) = nat_digits n @ r"
  by (metis append_is_Nil_conv digit_not_space dropWhile_eq_self_iff hd_append2 nat_digits_hd_digit
      nat_digits_nonempty)

lemma dropWhile_space_show_int [simp]: "dropWhile is_space (show_int i @ r) = show_int i @ r"
  by (simp add: show_int_def)

lemma split_sign_minus [simp]: "split_sign (CHR ''-'' # cs) = (True, cs)"
  by (simp add: split_sign_def)

lemma split_sign_plus [simp]: "split_sign (CHR ''+'' # cs) = (False, cs)"
  by (simp add: split_sign_def)

text \<open>Reading back a printed number yields the number and the text after it.\<close>

lemma strtol10_show_int [scan_simps]:
  assumes "r = [] \<or> \<not> is_digit (hd r)"
  shows "strtol10 (show_int i @ r) = Some (i, r)"
  by (simp add: strtol10_def show_int_def nat_digits_split [OF assms] apply_sign_def)

lemma strtol10_plus [scan_simps]:
  assumes "r = [] \<or> \<not> is_digit (hd r)"
  shows "strtol10 (CHR ''+'' # nat_digits n @ r) = Some (int n, r)"
  by (simp add: strtol10_def nat_digits_split [OF assms] apply_sign_def)

lemma strtol10_spaces [scan_simps]:
  "\<forall>c \<in> set ws. is_space c \<Longrightarrow> strtol10 (ws @ s) = strtol10 s"
  by (simp add: strtol10_def)

lemma split_sign_suffix: "split_sign s = (neg, r) \<Longrightarrow> suffix r s"
  by (auto simp: split_sign_def suffix_def split: list.splits if_splits)

lemma strtol10_suffix: "strtol10 s = Some (v, r) \<Longrightarrow> suffix r s"
  by (auto simp: strtol10_def Let_def split: prod.splits if_splits
      dest!: split_sign_suffix intro: suffix_order.trans [OF suffix_dropWhile] suffix_dropWhile
        suffix_order.trans)

lemma stoi_show_int: "- (2 ^ 31) \<le> i \<Longrightarrow> i < 2 ^ 31 \<Longrightarrow> stoi (show_int i) = Inr (word_of_int i)"
  using strtol10_show_int [of "[]" i] by (simp add: stoi_def)

lemma stoi_sint [simp]: "stoi (show_int (sint (w :: i32))) = Inr w"
  using sint_range_32 [of w] by (simp add: stoi_show_int)

section \<open>std::from_chars\<close>

datatype errc = FcInvalid | FcRange

definition from_chars_u64 :: "string \<Rightarrow> errc + (u64 \<times> string)" where
  "from_chars_u64 s =
     (let ds = takeWhile is_digit s
      in if ds = [] then Inl FcInvalid
         else if digits_val ds < 2 ^ 64 then Inr (word_of_nat (digits_val ds), dropWhile is_digit s)
         else Inl FcRange)"

text \<open>For a signed target a leading minus is accepted, a leading plus or blank is not.\<close>

definition from_chars_i32 :: "string \<Rightarrow> errc + (i32 \<times> string)" where
  "from_chars_i32 s =
     (let neg = (s \<noteq> [] \<and> hd s = CHR ''-''); s1 = (if neg then tl s else s);
          ds = takeWhile is_digit s1; v = apply_sign neg (digits_val ds)
      in if ds = [] then Inl FcInvalid
         else if - (2 ^ 31) \<le> v \<and> v < 2 ^ 31 then Inr (word_of_int v, dropWhile is_digit s1)
         else Inl FcRange)"

lemma from_chars_u64_digits [scan_simps]:
  assumes "r = [] \<or> \<not> is_digit (hd r)"
  shows "from_chars_u64 (nat_digits n @ r) =
    (if n < 2 ^ 64 then Inr (word_of_nat n, r) else Inl FcRange)"
  by (simp add: from_chars_u64_def nat_digits_split [OF assms])

lemma from_chars_u64_no_digit:
  "s = [] \<or> \<not> is_digit (hd s) \<Longrightarrow> from_chars_u64 s = Inl FcInvalid"
  by (cases s) (auto simp: from_chars_u64_def)

lemma from_chars_i32_show_int [scan_simps]:
  assumes "r = [] \<or> \<not> is_digit (hd r)"
  shows "from_chars_i32 (show_int (sint w) @ r) = Inr (w, r)"
proof (cases "sint w < 0")
  case True
  then show ?thesis using sint_range_32 [of w]
    by (simp add: from_chars_i32_def show_int_def nat_digits_split [OF assms] apply_sign_def Let_def)
next
  case False
  have "hd (nat_digits (nat (sint w)) @ r) \<noteq> CHR ''-''"
    using nat_digits_hd_digit [of "nat (sint w)"] by (auto simp: is_digit_def)
  with False show ?thesis using sint_range_32 [of w]
    by (simp add: from_chars_i32_def show_int_def nat_digits_split [OF assms] apply_sign_def Let_def)
qed

section \<open>std::string searches\<close>

text \<open>\<open>s.find(needle)\<close>: position of the first occurrence, \<open>None\<close> for \<open>npos\<close>.\<close>

fun find_pos :: "string \<Rightarrow> string \<Rightarrow> nat option" where
  "find_pos needle [] = (if needle = [] then Some 0 else None)"
| "find_pos needle (c # cs) =
     (if prefix needle (c # cs) then Some 0 else map_option Suc (find_pos needle cs))"

definition contains :: "string \<Rightarrow> string \<Rightarrow> bool" where
  "contains s needle \<longleftrightarrow> find_pos needle s \<noteq> None"

lemma contains_iff: "contains s needle \<longleftrightarrow> (\<exists>a b. s = a @ needle @ b)"
proof (induction s)
  case Nil
  show ?case by (simp add: contains_def)
next
  case (Cons c cs)
  have "contains (c # cs) needle \<longleftrightarrow> prefix needle (c # cs) \<or> contains cs needle"
    by (simp add: contains_def)
  also have "\<dots> \<longleftrightarrow> (\<exists>b. c # cs = needle @ b) \<or> (\<exists>a b. cs = a @ needle @ b)"
    by (simp only: Cons.IH prefix_def)
  also have "\<dots> \<longleftrightarrow> (\<exists>a b. c # cs = a @ needle @ b)"
    by (metis Cons_eq_append_conv append_Cons append_Nil)
  finally show ?case .
qed

lemma contains_appendI: "contains b needle \<Longrightarrow> contains (a @ b) needle"
  by (metis append_assoc contains_iff)

lemma contains_prefixI: "contains (needle @ b) needle"
  by (metis append_Nil contains_iff)

text \<open>\<open>s.rfind(c)\<close> for a single character.\<close>

fun rfind_char :: "char \<Rightarrow> string \<Rightarrow> nat option" where
  "rfind_char c [] = None"
| "rfind_char c (x # xs) = (case rfind_char c xs of Some i \<Rightarrow> Some (Suc i)
     | None \<Rightarrow> if x = c then Some 0 else None)"

lemma rfind_char_None [simp]: "rfind_char c s = None \<longleftrightarrow> c \<notin> set s"
  by (induction s) (auto split: option.splits)

lemma rfind_char_last: "c \<notin> set b \<Longrightarrow> rfind_char c (a @ c # b) = Some (length a)"
proof (induction a)
  case Nil
  then have "rfind_char c b = None" by simp
  then show ?case by (simp del: rfind_char_None)
qed simp

lemma rfind_char_Some_length: "rfind_char c s = Some i \<Longrightarrow> i < length s"
  by (induction s arbitrary: i) (auto split: option.splits if_splits)

section \<open>Streams: std::getline and operator>>\<close>

text \<open>The lines a loop of \<open>std::getline\<close> reads: the text is cut at newlines and a newline
  at the end does not start another line.\<close>

function lines_of :: "string \<Rightarrow> string list" where
  "lines_of s = (if s = [] then [] else
     takeWhile (\<lambda>c. c \<noteq> newline_char) s #
     (case dropWhile (\<lambda>c. c \<noteq> newline_char) s of [] \<Rightarrow> [] | _ # r \<Rightarrow> lines_of r))"
  by pat_completeness auto
termination
proof (relation "measure length", goal_cases)
  case (2 s c r)
  then have "length (c # r) \<le> length s" by (metis length_dropWhile_le)
  then show ?case by simp
qed simp

declare lines_of.simps [simp del]

text \<open>\<open>stream >> token\<close>: skip blanks, then take the word; an empty word is a failed read.\<close>

definition stream_token :: "string \<Rightarrow> string \<times> string" where
  "stream_token s = (let t = dropWhile is_space s
     in (takeWhile (\<lambda>c. \<not> is_space c) t, dropWhile (\<lambda>c. \<not> is_space c) t))"

lemma lines_of_Nil [simp]: "lines_of [] = []"
  by (simp add: lines_of.simps)

lemma lines_of_Cons [simp]:
  assumes "newline_char \<notin> set l"
  shows "lines_of (l @ newline_char # r) = l # lines_of r"
proof -
  have "\<forall>c \<in> set l. c \<noteq> newline_char" using assms by auto
  then show ?thesis by (subst lines_of.simps) simp
qed

lemma lines_of_last:
  assumes "newline_char \<notin> set l" and "l \<noteq> []"
  shows "lines_of l = [l]"
proof -
  have "\<forall>c \<in> set l. c \<noteq> newline_char" using assms by auto
  then have "takeWhile (\<lambda>c. c \<noteq> newline_char) l = l"
    and d: "dropWhile (\<lambda>c. c \<noteq> newline_char) l = []" by simp_all
  with assms show ?thesis by (subst lines_of.simps) (simp only: d if_False list.case)
qed

text \<open>Writing lines with a newline after each and reading them back gives the lines.\<close>

definition unlines :: "string list \<Rightarrow> string" where
  "unlines ls = concat (map (\<lambda>l. l @ [newline_char]) ls)"

lemma unlines_simps [simp]:
  "unlines [] = []"
  "unlines (l # ls) = l @ newline_char # unlines ls"
  by (simp_all add: unlines_def)

lemma lines_of_unlines: "\<forall>l \<in> set ls. newline_char \<notin> set l \<Longrightarrow> lines_of (unlines ls) = ls"
  by (induction ls) simp_all

lemma lines_of_no_newline: "l \<in> set (lines_of s) \<Longrightarrow> newline_char \<notin> set l"
proof (induction s rule: lines_of.induct)
  case (1 s)
  show ?case
  proof (cases "s = []")
    case False
    have "newline_char \<notin> set (takeWhile (\<lambda>c. c \<noteq> newline_char) s)"
      using set_takeWhileD by fastforce
    then show ?thesis
      using "1.IH" [OF False] "1.prems" False
      by (cases "dropWhile (\<lambda>c. c \<noteq> newline_char) s") (auto simp: lines_of.simps [of s])
  qed (use 1 in simp)
qed

lemma stream_token_word:
  assumes "\<forall>c \<in> set w. \<not> is_space c" and "w \<noteq> []" and "r = [] \<or> is_space (hd r)"
  shows "stream_token (w @ r) = (w, r)"
proof -
  have "dropWhile is_space (w @ r) = w @ r"
    using assms(1,2) by (cases w) auto
  then show ?thesis
    using takeWhile_dropWhile_split [of w "\<lambda>c. \<not> is_space c" r] assms(1,3)
    by (simp add: stream_token_def)
qed

lemma stream_token_spaces [simp]:
  "\<forall>c \<in> set ws. is_space c \<Longrightarrow> stream_token (ws @ s) = stream_token s"
  by (simp add: stream_token_def)

end
