(* ===== verification/Scanf.thy ===== *)
theory Scanf
  imports CString_Lib
begin

text \<open>
  An executable model of \<open>sscanf\<close> (glibc, LP64: \<open>SCNd64\<close> is \<open>"ld"\<close>) for the conversions the
  agent uses: \<open>%lf\<close>, \<open>%d\<close>, \<open>%ld\<close>, \<open>%x\<close>, \<open>%s\<close>, \<open>%[^c]\<close>, with assignment suppression and
  a maximal width, literal characters and blanks. Format strings are kept as the source
  writes them and are compiled by \<open>parse_format\<close>. A call yields the list of the values it
  stores, in order; its return value is the length of that list (the source compares it with
  positive numbers only, so \<open>EOF\<close> and 0 need not be told apart).

  Where ISO C leaves an out of range number undefined, the model has what glibc does: a
  \<open>long\<close> saturates and an \<open>int\<close> takes the low half of the saturated \<open>long\<close>.
\<close>

section \<open>Formats\<close>

datatype directive =
    DSpace
  | DLit char
  | DInt bool bool              \<comment> \<open>suppressed, \<open>long\<close>\<close>
  | DHex bool
  | DFloat bool
  | DStr bool "nat option"      \<comment> \<open>suppressed, maximal width\<close>
  | DNotIn bool "nat option" char
  | DBad

text \<open>What follows \<open>%\<close>: an optional \<open>*\<close>, an optional width, the conversion.\<close>

definition parse_letter :: "bool \<Rightarrow> nat option \<Rightarrow> string \<Rightarrow> directive \<times> string" where
  "parse_letter noasg w s = (case s of [] \<Rightarrow> (DBad, [])
     | c # t \<Rightarrow>
         if c = CHR ''d'' then (DInt noasg False, t)
         else if c = CHR ''x'' then (DHex noasg, t)
         else if c = CHR ''s'' then (DStr noasg w, t)
         else if c = CHR ''l'' \<and> t \<noteq> [] \<and> hd t = CHR ''d'' then (DInt noasg True, tl t)
         else if c = CHR ''l'' \<and> t \<noteq> [] \<and> hd t = CHR ''f'' then (DFloat noasg, tl t)
         else if c = CHR ''['' \<and> 3 \<le> length t \<and> hd t = CHR ''^'' \<and> t ! 2 = CHR '']''
           then (DNotIn noasg w (t ! 1), drop 3 t)
         else (DBad, []))"

definition parse_width :: "string \<Rightarrow> nat option \<times> string" where
  "parse_width s = (let ds = takeWhile is_digit s
     in (if ds = [] then None else Some (digits_val ds), dropWhile is_digit s))"

definition parse_conv :: "string \<Rightarrow> directive \<times> string" where
  "parse_conv s =
     (let noasg = (s \<noteq> [] \<and> hd s = CHR ''*''); (w, t) = parse_width (if noasg then tl s else s)
      in parse_letter noasg w t)"

lemma parse_letter_length: "length (snd (parse_letter noasg w s)) \<le> length s"
  by (cases s) (simp_all add: parse_letter_def le_SucI)

lemma parse_width_length: "length (snd (parse_width s)) \<le> length s"
  by (simp add: parse_width_def Let_def length_dropWhile_le)

lemma parse_conv_length: "length (snd (parse_conv s)) \<le> length s"
proof -
  define u where "u = (if s \<noteq> [] \<and> hd s = CHR ''*'' then tl s else s)"
  have "length u \<le> length s" by (simp add: u_def)
  moreover have "length (snd (parse_conv s)) \<le> length (snd (parse_width u))"
    by (simp add: parse_conv_def u_def Let_def parse_letter_length split: prod.split)
  ultimately show ?thesis using parse_width_length [of u] by simp
qed

function parse_format :: "string \<Rightarrow> directive list" where
  "parse_format [] = []"
| "parse_format (c # cs) =
     (if c = CHR ''%'' then (let (d, r) = parse_conv cs in d # parse_format r)
      else if is_space c then DSpace # parse_format cs
      else DLit c # parse_format cs)"
  by pat_completeness auto
termination
proof (relation "measure length", goal_cases)
  case (2 c cs x d r)
  then show ?case using parse_conv_length [of cs] by (metis in_measure le_imp_less_Suc length_Cons snd_conv)
qed auto

section \<open>Conversions\<close>

datatype sval = VI64 i64 | VI32 i32 | VU32 u32 | VFloat string | VStr string

definition is_xdigit :: "char \<Rightarrow> bool" where
  "is_xdigit c \<longleftrightarrow> is_digit c \<or> (let n = (of_char c :: nat) in 65 \<le> n \<and> n \<le> 70 \<or> 97 \<le> n \<and> n \<le> 102)"

definition xdigit_val :: "char \<Rightarrow> nat" where
  "xdigit_val c = (let n = (of_char c :: nat) in
     if n \<le> 57 then n - 48 else if n \<le> 70 then n - 55 else n - 87)"

definition to_lower :: "char \<Rightarrow> char" where
  "to_lower c = (let n = (of_char c :: nat) in if 65 \<le> n \<and> n \<le> 90 then char_of (n + 32) else c)"

text \<open>Longest run of characters with \<open>P\<close>, at most \<open>w\<close> of them.\<close>

definition scan_run :: "(char \<Rightarrow> bool) \<Rightarrow> nat option \<Rightarrow> string \<Rightarrow> string \<times> string" where
  "scan_run P w s =
     (let n = length (takeWhile P s); k = (case w of None \<Rightarrow> n | Some m \<Rightarrow> min m n)
      in (take k s, drop k s))"

definition scan_word :: "nat option \<Rightarrow> string \<Rightarrow> (string \<times> string) option" where
  "scan_word w s = (let t = dropWhile is_space s
     in if t = [] then None else Some (scan_run (\<lambda>c. \<not> is_space c) w t))"

definition scan_not_in :: "char \<Rightarrow> nat option \<Rightarrow> string \<Rightarrow> (string \<times> string) option" where
  "scan_not_in x w s = (if s = [] \<or> hd s = x then None else Some (scan_run (\<lambda>c. c \<noteq> x) w s))"

text \<open>
  \<open>%x\<close>: optional sign, optional \<open>0x\<close>, hexadecimal digits; \<open>strtoul\<close> saturates and the target
  takes the low 32 bits.
\<close>

definition hex_val :: "string \<Rightarrow> nat" where
  "hex_val ds = foldl (\<lambda>a c. 16 * a + xdigit_val c) 0 ds"

definition hex_prefix :: "string \<Rightarrow> bool" where
  "hex_prefix u \<longleftrightarrow> 2 \<le> length u \<and> hd u = CHR ''0'' \<and> to_lower (u ! 1) = CHR ''x''"

definition scan_hex :: "string \<Rightarrow> (u32 \<times> string) option" where
  "scan_hex s =
     (let (neg, s1) = split_sign (dropWhile is_space s);
          s2 = (if hex_prefix s1 then drop 2 s1 else s1);
          ds = takeWhile is_xdigit s2; v = hex_val ds;
          n = (if v < 2 ^ 64 then apply_sign neg v else 2 ^ 64 - 1)
      in if ds = [] \<and> \<not> hex_prefix s1 then None
         else Some (word_of_int n, dropWhile is_xdigit s2))"

text \<open>
  \<open>%lf\<close>: only the text it accepts matters, the agent never looks at the value. The loop keeps
  whether a digit, a point and an exponent were seen and whether the last character was the
  exponent letter (then a sign may follow).
\<close>

fun float_body :: "bool \<Rightarrow> bool \<Rightarrow> bool \<Rightarrow> bool \<Rightarrow> bool \<Rightarrow> string \<Rightarrow> string \<times> string" where
  "float_body hex digit dot ex pe [] = ([], [])"
| "float_body hex digit dot ex pe (c # cs) =
     (if is_digit c \<or> (\<not> ex \<and> hex \<and> is_xdigit c)
        then apfst (Cons c) (float_body hex True dot ex False cs)
      else if ex \<and> pe \<and> (c = CHR ''-'' \<or> c = CHR ''+'')
        then apfst (Cons c) (float_body hex digit dot ex False cs)
      else if digit \<and> \<not> ex \<and> to_lower c = (if hex then CHR ''p'' else CHR ''e'')
        then apfst (Cons c) (float_body hex digit True True True cs)
      else if c = CHR ''.'' \<and> \<not> dot
        then apfst (Cons c) (float_body hex digit True ex False cs)
      else ([], c # cs))"

definition match_ci :: "string \<Rightarrow> string \<Rightarrow> string option" where
  "match_ci w s = (if length w \<le> length s \<and> map to_lower (take (length w) s) = w
     then Some (drop (length w) s) else None)"

definition float_infinity :: "string \<Rightarrow> string option" where
  "float_infinity u = Option.bind (match_ci ''inf'' u)
     (\<lambda>r. if r \<noteq> [] \<and> to_lower (hd r) = CHR ''i'' then match_ci ''inity'' r else Some r)"

definition float_number :: "string \<Rightarrow> string option" where
  "float_number u =
     (let (b, r) = float_body (hex_prefix u) False False False False
                     (if hex_prefix u then drop 2 u else u)
      in if (if hex_prefix u then b \<noteq> [] else \<exists>c \<in> set b. is_digit c) then Some r else None)"

text \<open>The text after the number, for a text that starts (after the sign) with \<open>u\<close>.\<close>

definition float_end :: "string \<Rightarrow> string option" where
  "float_end u =
     (if u = [] then None
      else if to_lower (hd u) = CHR ''n'' then match_ci ''nan'' u
      else if to_lower (hd u) = CHR ''i'' then float_infinity u
      else float_number u)"

definition scan_float :: "string \<Rightarrow> (string \<times> string) option" where
  "scan_float s = (let t = dropWhile is_space s in
     map_option (\<lambda>r. (take (length t - length r) t, r)) (float_end (snd (split_sign t))))"

section \<open>The scanner\<close>

text \<open>
  One directive: \<open>None\<close> stops the scan, otherwise the value stored (if any) and the rest of
  the input.
\<close>

definition keep :: "bool \<Rightarrow> 'v \<Rightarrow> 'v option" where
  "keep noasg v = (if noasg then None else Some v)"

fun scan_dir :: "directive \<Rightarrow> string \<Rightarrow> (sval option \<times> string) option" where
  "scan_dir DSpace s = Some (None, dropWhile is_space s)"
| "scan_dir (DLit c) s = (case s of [] \<Rightarrow> None | x # xs \<Rightarrow> if x = c then Some (None, xs) else None)"
| "scan_dir (DInt noasg lng) s =
     map_option (\<lambda>(v, r). (keep noasg (if lng then VI64 (sat_i64 v) else VI32 (ucast (sat_i64 v))), r))
       (strtol10 s)"
| "scan_dir (DHex noasg) s = map_option (\<lambda>(v, r). (keep noasg (VU32 v), r)) (scan_hex s)"
| "scan_dir (DFloat noasg) s = map_option (\<lambda>(v, r). (keep noasg (VFloat v), r)) (scan_float s)"
| "scan_dir (DStr noasg w) s = map_option (\<lambda>(v, r). (keep noasg (VStr v), r)) (scan_word w s)"
| "scan_dir (DNotIn noasg w x) s = map_option (\<lambda>(v, r). (keep noasg (VStr v), r)) (scan_not_in x w s)"
| "scan_dir DBad s = None"

fun sscanf_run :: "directive list \<Rightarrow> string \<Rightarrow> sval list" where
  "sscanf_run [] s = []"
| "sscanf_run (d # ds) s = (case scan_dir d s of None \<Rightarrow> []
     | Some (None, r) \<Rightarrow> sscanf_run ds r
     | Some (Some v, r) \<Rightarrow> v # sscanf_run ds r)"

definition sscanf :: "string \<Rightarrow> string \<Rightarrow> sval list" where
  "sscanf msg fmt = sscanf_run (parse_format fmt) (c_str msg)"

lemma keep_simps [simp]: "keep True v = None" "keep False v = Some v"
  by (simp_all add: keep_def)

text \<open>
  The targets of a call, in the order of the conversions: each stored value is written to its
  target; values that were never read leave their target alone.
\<close>

fun store_args :: "(sval \<Rightarrow> 's \<Rightarrow> 's) list \<Rightarrow> sval list \<Rightarrow> 's \<Rightarrow> 's" where
  "store_args (f # fs) (v # vs) s = store_args fs vs (f v s)"
| "store_args _ _ s = s"

fun as_i64 :: "sval \<Rightarrow> i64" where
  "as_i64 (VI64 w) = w" | "as_i64 _ = 0"

fun as_i32 :: "sval \<Rightarrow> i32" where
  "as_i32 (VI32 w) = w" | "as_i32 _ = 0"

fun as_u32 :: "sval \<Rightarrow> u32" where
  "as_u32 (VU32 w) = w" | "as_u32 _ = 0"

fun as_str :: "sval \<Rightarrow> string" where
  "as_str (VStr x) = x" | "as_str _ = []"

text \<open>A target whose value the program never reads.\<close>

definition unread :: "sval \<Rightarrow> 's \<Rightarrow> 's" where
  "unread _ s = s"

section \<open>The contract of a scanner\<close>

text \<open>
  Every conversion reads from the front of the text: what it leaves is a suffix. A conversion
  that stores text stores a piece of the input that ends where the rest begins.
\<close>

locale text_scanner =
  fixes scan :: "string \<Rightarrow> ('a \<times> string) option"
  assumes rest_suffix: "scan s = Some (v, r) \<Longrightarrow> suffix r s"
begin

lemma rest_length: "scan s = Some (v, r) \<Longrightarrow> length r \<le> length s"
  by (rule suffix_length_le) (rule rest_suffix)

lemma rest_chars: "scan s = Some (v, r) \<Longrightarrow> set r \<subseteq> set s"
  using rest_suffix by (blast dest: set_mono_suffix)

end

locale word_scanner = text_scanner scan
  for scan :: "string \<Rightarrow> (string \<times> string) option" +
  assumes item_in_place: "scan s = Some (v, r) \<Longrightarrow> \<exists>p. s = p @ v @ r"
begin

lemma item_sublist: "scan s = Some (v, r) \<Longrightarrow> sublist v s"
  using item_in_place by (blast intro: sublist_appendI)

lemma item_chars: "scan s = Some (v, r) \<Longrightarrow> set v \<subseteq> set s"
  using item_in_place by fastforce

end

lemma scan_run_append: "scan_run P w s = (v, r) \<Longrightarrow> s = v @ r"
  by (auto simp: scan_run_def Let_def)

lemma scan_run_width: "scan_run P (Some n) s = (v, r) \<Longrightarrow> length v \<le> n"
  by (auto simp: scan_run_def Let_def)

lemma dropWhile_append_ex: "\<exists>p. s = p @ dropWhile P s"
  by (metis takeWhile_dropWhile_id)

interpretation int_scan: text_scanner strtol10
  by unfold_locales (rule strtol10_suffix)

interpretation word_scan: word_scanner "scan_word w" for w
proof unfold_locales
  fix s v r
  assume "scan_word w s = Some (v, r)"
  then have "dropWhile is_space s = v @ r"
    by (auto simp: scan_word_def Let_def dest: scan_run_append split: if_splits)
  then show "\<exists>p. s = p @ v @ r" using dropWhile_append_ex [of s is_space] by metis
  then show "suffix r s" by (auto simp: suffix_def)
qed

interpretation not_in_scan: word_scanner "scan_not_in x w" for x w
proof unfold_locales
  fix s v r
  assume "scan_not_in x w s = Some (v, r)"
  then have s: "s = v @ r"
    by (auto simp: scan_not_in_def dest: scan_run_append split: if_splits)
  show "\<exists>p. s = p @ v @ r" by (rule exI [of _ "[]"]) (simp add: s)
  show "suffix r s" by (simp add: s suffix_def)
qed

lemma float_body_append: "float_body hex digit dot ex pe s = (b, r) \<Longrightarrow> suffix r s"
proof (induction hex digit dot ex pe s arbitrary: b r rule: float_body.induct)
  case (2 hex digit dot ex pe c cs)
  then show ?case
    by (auto simp: apfst_def map_prod_def suffix_Cons split: if_splits prod.splits)
qed simp

lemma match_ci_suffix: "match_ci w s = Some r \<Longrightarrow> suffix r s"
  by (auto simp: match_ci_def suffix_drop split: if_splits)

lemma float_infinity_suffix: "float_infinity u = Some r \<Longrightarrow> suffix r u"
  unfolding float_infinity_def bind_eq_Some_conv
  by (metis match_ci_suffix option.inject suffix_order.trans)

lemma float_number_suffix:
  assumes "float_number u = Some r"
  shows "suffix r u"
proof -
  have "\<exists>b. float_body (hex_prefix u) False False False False (if hex_prefix u then drop 2 u else u)
      = (b, r)"
    using assms by (auto simp: float_number_def split: prod.splits if_split_asm)
  then have "suffix r (if hex_prefix u then drop 2 u else u)" by (blast dest: float_body_append)
  moreover have "suffix (if hex_prefix u then drop 2 u else u) u" by (simp add: suffix_drop)
  ultimately show ?thesis by (rule suffix_order.trans)
qed

lemma float_end_suffix: "float_end u = Some r \<Longrightarrow> suffix r u"
  by (simp only: float_end_def split: if_split_asm)
    (auto dest: match_ci_suffix float_infinity_suffix float_number_suffix)

lemma split_sign_rest_suffix: "suffix (snd (split_sign t)) t"
  by (rule split_sign_suffix [of t "fst (split_sign t)"]) simp

interpretation float_scan: text_scanner scan_float
proof unfold_locales
  fix s v r
  assume "scan_float s = Some (v, r)"
  then have "suffix r (snd (split_sign (dropWhile is_space s)))"
    by (auto simp: scan_float_def Let_def dest: float_end_suffix)
  then show "suffix r s"
    using split_sign_rest_suffix suffix_dropWhile suffix_order.trans by metis
qed

interpretation hex_scan: text_scanner scan_hex
proof unfold_locales
  fix s v r
  assume a: "scan_hex s = Some (v, r)"
  define u where "u = snd (split_sign (dropWhile is_space s))"
  define t where "t = (if hex_prefix u then drop 2 u else u)"
  have "r = dropWhile is_xdigit t"
    using a by (auto simp: scan_hex_def Let_def t_def u_def split: prod.splits if_split_asm)
  then have "suffix r t" by (simp add: suffix_dropWhile)
  moreover have "suffix t u" by (simp add: t_def suffix_drop)
  moreover have "suffix u s" unfolding u_def
    using split_sign_rest_suffix suffix_dropWhile by (rule suffix_order.trans)
  ultimately show "suffix r s" by (meson suffix_order.trans)
qed

lemma scan_dir_suffix: "scan_dir d s = Some (v, r) \<Longrightarrow> suffix r s"
  by (cases d)
    (auto simp: suffix_dropWhile suffix_Cons split: list.splits if_splits
      dest: int_scan.rest_suffix hex_scan.rest_suffix float_scan.rest_suffix word_scan.rest_suffix
        not_in_scan.rest_suffix)

section \<open>What a call can store\<close>

text \<open>\<open>val_fits d v\<close>: \<open>v\<close> has the type of \<open>d\<close>'s target and, for text, respects the width.\<close>

fun assigning :: "directive \<Rightarrow> bool" where
  "assigning (DInt noasg lng) = (\<not> noasg)"
| "assigning (DHex noasg) = (\<not> noasg)"
| "assigning (DFloat noasg) = (\<not> noasg)"
| "assigning (DStr noasg w) = (\<not> noasg)"
| "assigning (DNotIn noasg w x) = (\<not> noasg)"
| "assigning _ = False"

fun within :: "nat option \<Rightarrow> string \<Rightarrow> bool" where
  "within None x = True"
| "within (Some n) x = (length x \<le> n)"

fun val_fits :: "directive \<Rightarrow> sval \<Rightarrow> bool" where
  "val_fits (DInt _ True) (VI64 _) = True"
| "val_fits (DInt _ False) (VI32 _) = True"
| "val_fits (DHex _) (VU32 _) = True"
| "val_fits (DFloat _) (VFloat _) = True"
| "val_fits (DStr _ w) (VStr x) = within w x"
| "val_fits (DNotIn _ w _) (VStr x) = within w x"
| "val_fits _ _ = False"

lemma val_fits_iff:
  "val_fits (DInt a True) v \<longleftrightarrow> (\<exists>x. v = VI64 x)"
  "val_fits (DInt a False) v \<longleftrightarrow> (\<exists>x. v = VI32 x)"
  "val_fits (DHex a) v \<longleftrightarrow> (\<exists>x. v = VU32 x)"
  "val_fits (DFloat a) v \<longleftrightarrow> (\<exists>x. v = VFloat x)"
  "val_fits (DStr a w) v \<longleftrightarrow> (\<exists>x. v = VStr x \<and> within w x)"
  "val_fits (DNotIn a w c) v \<longleftrightarrow> (\<exists>x. v = VStr x \<and> within w x)"
  by (cases v; simp)+

lemma scan_word_within: "scan_word w s = Some (v, r) \<Longrightarrow> within w v"
  by (cases w) (auto simp: scan_word_def Let_def dest: scan_run_width split: if_splits)

lemma scan_not_in_within: "scan_not_in x w s = Some (v, r) \<Longrightarrow> within w v"
  by (cases w) (auto simp: scan_not_in_def dest: scan_run_width split: if_splits)

lemma scan_dir_fits: "scan_dir d s = Some (Some v, r) \<Longrightarrow> assigning d \<and> val_fits d v"
  by (cases d)
    (auto simp: keep_def dest: scan_word_within scan_not_in_within split: list.splits if_splits)

lemma scan_dir_no_value: "scan_dir d s = Some (None, r) \<Longrightarrow> \<not> assigning d"
  by (cases d) (auto simp: keep_def split: list.splits if_splits)

lemma sscanf_run_fits:
  "list_all2 val_fits (take (length (sscanf_run ds s)) (filter assigning ds)) (sscanf_run ds s)"
proof (induction ds arbitrary: s)
  case (Cons d ds)
  then show ?case
    by (auto split: option.splits dest: scan_dir_fits scan_dir_no_value)
qed simp

lemma sscanf_run_count: "length (sscanf_run ds s) \<le> length (filter assigning ds)"
proof (induction ds arbitrary: s)
  case (Cons d ds)
  have "length (sscanf_run ds r) \<le> Suc (length (filter assigning ds))" for r
    using Cons.IH [of r] by simp
  with Cons.IH show ?case
    by (auto split: option.splits dest: scan_dir_fits)
qed simp

text \<open>A call that returns the number of its conversions has stored one well-typed value for
  each of them.\<close>

lemma sscanf_full:
  assumes "parse_format fmt = ds" and "length (sscanf msg fmt) = length (filter assigning ds)"
  shows "list_all2 val_fits (filter assigning ds) (sscanf msg fmt)"
  using sscanf_run_fits [of ds "c_str msg"] assms by (simp add: sscanf_def)

lemma c_str_no_nul: "CHR 0x00 \<notin> set (c_str s)"
  by (auto simp: c_str_def dest: set_takeWhileD)

lemma scan_dir_text:
  "scan_dir d s = Some (Some (VStr x), r) \<Longrightarrow> sublist x s"
  by (cases d) (auto simp: keep_def split: list.splits if_splits
      dest: word_scan.item_sublist not_in_scan.item_sublist)

lemma sscanf_run_text: "VStr x \<in> set (sscanf_run ds s) \<Longrightarrow> sublist x s"
proof (induction ds arbitrary: s)
  case (Cons d ds)
  show ?case
  proof (cases "scan_dir d s")
    case (Some vr)
    obtain v r where vr: "vr = (v, r)" by fastforce
    have "v = Some (VStr x) \<or> VStr x \<in> set (sscanf_run ds r)"
      using Cons.prems Some vr by (cases v) auto
    moreover have "sublist r s"
      using scan_dir_suffix Some vr suffix_imp_sublist by blast
    ultimately show ?thesis
      using Cons.IH [of r] scan_dir_text [of d s x r] Some vr sublist_order.order_trans by blast
  qed (use Cons.prems in simp)
qed simp

text \<open>Stored text is a piece of the message without NUL: making a \<open>std::string\<close> from the
  character buffer keeps all of it.\<close>

lemma sscanf_text:
  assumes "VStr x \<in> set (sscanf msg fmt)"
  shows "sublist x (c_str msg)" and "c_str x = x"
proof -
  show s: "sublist x (c_str msg)" using assms sscanf_run_text by (simp add: sscanf_def)
  then have "CHR 0x00 \<notin> set x" using c_str_no_nul set_mono_sublist by blast
  then have "\<forall>c \<in> set x. c \<noteq> CHR 0x00" by auto
  then show "c_str x = x" by (simp add: c_str_def)
qed

end
