(* ===== verification/Log_Lines.thy ===== *)
theory Log_Lines
  imports Scanf
begin

text \<open>
  Printing side of the log lines: blanks, decimal numbers with and without a forced sign, the
  time stamp in brackets, words and bracketed names, and for each of them the lemma that the
  matching conversion of \<open>sscanf\<close> reads it back. The collection \<open>scan_simps\<close> lets the
  simplifier run a whole format over a line with symbolic fields.
\<close>

section \<open>Fields of a line\<close>

definition blanks :: "nat \<Rightarrow> string" where
  "blanks n = replicate n (CHR 0x20)"

text \<open>\<open>printf("%+d")\<close>\<close>

definition show_signed :: "int \<Rightarrow> string" where
  "show_signed i = (if i < 0 then show_int i else CHR ''+'' # show_int i)"

text \<open>The time stamp linuxptp prints, seconds and a fraction.\<close>

definition stamp :: "nat \<Rightarrow> nat \<Rightarrow> string" where
  "stamp sec frac = nat_digits sec @ CHR ''.'' # nat_digits frac"

definition is_word :: "string \<Rightarrow> bool" where
  "is_word w \<longleftrightarrow> w \<noteq> [] \<and> (\<forall>c \<in> set w. \<not> is_space c \<and> c \<noteq> CHR 0x00)"

text \<open>A name that may hold blanks but not the delimiter.\<close>

definition is_name :: "char \<Rightarrow> string \<Rightarrow> bool" where
  "is_name x w \<longleftrightarrow> w \<noteq> [] \<and> (\<forall>c \<in> set w. c \<noteq> x \<and> c \<noteq> CHR 0x00)"

section \<open>Character classes of literals\<close>

lemma is_digit_Char [simp]:
  "is_digit (Char b0 b1 b2 b3 b4 b5 b6 b7) \<longleftrightarrow>
     \<not> b7 \<and> \<not> b6 \<and> b5 \<and> b4 \<and> (\<not> b3 \<or> \<not> b2 \<and> \<not> b1)"
  by (cases b0; cases b1; cases b2; cases b3; cases b4; cases b5; cases b6; cases b7)
    (simp_all add: is_digit_def)

lemma is_space_Char [simp]:
  "is_space (Char b0 b1 b2 b3 b4 b5 b6 b7) \<longleftrightarrow>
     \<not> b7 \<and> \<not> b6 \<and> (b5 \<and> \<not> b4 \<and> \<not> b3 \<and> \<not> b2 \<and> \<not> b1 \<and> \<not> b0
       \<or> \<not> b5 \<and> \<not> b4 \<and> b3 \<and> (b2 \<and> (\<not> b1) \<or> \<not> b2 \<and> (b1 \<or> b0)))"
  by (cases b0; cases b1; cases b2; cases b3; cases b4; cases b5; cases b6; cases b7)
    (simp_all add: is_space_def)

section \<open>What a C function sees of a line\<close>

lemma c_str_append: "\<forall>c \<in> set a. c \<noteq> CHR 0x00 \<Longrightarrow> c_str (a @ b) = a @ c_str b"
  by (simp add: c_str_def)

lemma nat_digits_no_nul: "c \<in> set (nat_digits n) \<Longrightarrow> c \<noteq> CHR 0x00"
  using nat_digits_digits [of n] by auto

lemma show_int_no_nul: "c \<in> set (show_int i) \<Longrightarrow> c \<noteq> CHR 0x00"
  by (auto simp: show_int_def dest: nat_digits_no_nul split: if_splits)

lemma c_str_simps [scan_simps]:
  "c_str [] = []"
  "c \<noteq> CHR 0x00 \<Longrightarrow> c_str (c # s) = c # c_str s"
  "c_str (blanks n @ s) = blanks n @ c_str s"
  "c_str (nat_digits k @ s) = nat_digits k @ c_str s"
  "c_str (show_int i @ s) = show_int i @ c_str s"
  "c_str (show_signed i @ s) = show_signed i @ c_str s"
  "c_str (stamp a b @ s) = stamp a b @ c_str s"
  "is_word w \<Longrightarrow> c_str (w @ s) = w @ c_str s"
  "is_name x p \<Longrightarrow> c_str (p @ s) = p @ c_str s"
  by (simp_all add: c_str_append blanks_def nat_digits_no_nul show_int_no_nul show_signed_def
      is_word_def is_name_def)
    (simp_all add: c_str_def stamp_def nat_digits_no_nul)

lemma c_str_simps_end [scan_simps]:
  "c_str (nat_digits k) = nat_digits k"
  "c_str (show_int i) = show_int i"
  "is_word w \<Longrightarrow> c_str w = w"
  "is_name x p \<Longrightarrow> c_str p = p"
  using c_str_simps(4,5,8,9) [where s = "[]"] by (simp_all add: c_str_simps(1))

section \<open>Reading the fields back\<close>

lemma blanks_spaces [simp]: "\<forall>c \<in> set (blanks n). is_space c"
  by (simp add: blanks_def)

lemma dropWhile_blanks [scan_simps]: "dropWhile is_space (blanks n @ s) = dropWhile is_space s"
  using blanks_spaces [of n] by simp

lemma strtol10_blanks [scan_simps]: "strtol10 (blanks n @ s) = strtol10 s"
  by (rule strtol10_spaces) simp

lemma show_signed_hd: "show_signed i \<noteq> []" "\<not> is_space (hd (show_signed i))"
  by (simp_all add: show_signed_def)

lemma dropWhile_show_signed [scan_simps]:
  "dropWhile is_space (show_signed i @ r) = show_signed i @ r"
  by (simp add: show_signed_def)

lemma strtol10_show_signed [scan_simps]:
  assumes "r = [] \<or> \<not> is_digit (hd r)"
  shows "strtol10 (show_signed i @ r) = Some (i, r)"
proof (cases "i < 0")
  case True
  then show ?thesis using strtol10_show_int [OF assms, of i] by (simp add: show_signed_def)
next
  case False
  then show ?thesis using strtol10_plus [OF assms, of "nat i"]
    by (simp add: show_signed_def show_int_def)
qed

lemma dropWhile_word [scan_simps]: "is_word w \<Longrightarrow> dropWhile is_space (w @ r) = w @ r"
  by (cases w) (simp_all add: is_word_def)

lemma scan_run_all:
  assumes "\<forall>c \<in> set w. P c" and "r = [] \<or> \<not> P (hd r)" and "within k w"
  shows "scan_run P k (w @ r) = (w, r)"
  using takeWhile_dropWhile_split(1) [OF assms(1,2)] assms(3)
  by (cases k) (simp_all add: scan_run_def Let_def)

lemma scan_word_read [scan_simps]:
  assumes "is_word w" and "r = [] \<or> is_space (hd r)" and "within k w"
  shows "scan_word k (w @ r) = Some (w, r)"
proof -
  have "scan_run (\<lambda>c. \<not> is_space c) k (w @ r) = (w, r)"
    using assms by (intro scan_run_all) (auto simp: is_word_def)
  moreover have "w \<noteq> []" using assms(1) by (simp add: is_word_def)
  ultimately show ?thesis using assms(1) by (simp add: scan_word_def dropWhile_word)
qed

lemma scan_word_read_end [scan_simps]:
  "is_word w \<Longrightarrow> within k w \<Longrightarrow> scan_word k w = Some (w, [])"
  using scan_word_read [of w "[]" k] by simp

text \<open>A word longer than the buffer allows is cut.\<close>

lemma scan_word_cut:
  assumes "is_word w" and "n < length w"
  shows "scan_word (Some n) (w @ r) = Some (take n w, drop n w @ r)"
proof -
  have "takeWhile (\<lambda>c. \<not> is_space c) (w @ r) = w @ takeWhile (\<lambda>c. \<not> is_space c) r"
    using assms(1) by (simp add: is_word_def)
  then have "n \<le> length (takeWhile (\<lambda>c. \<not> is_space c) (w @ r))"
    using assms(2) by simp
  then have "scan_run (\<lambda>c. \<not> is_space c) (Some n) (w @ r) = (take n w, drop n w @ r)"
    using assms(2) by (simp add: scan_run_def Let_def)
  moreover have "w \<noteq> []" using assms(1) by (simp add: is_word_def)
  ultimately show ?thesis using assms(1) by (simp add: scan_word_def dropWhile_word)
qed

lemma scan_not_in_read [scan_simps]:
  assumes "is_name x p" and "r = [] \<or> hd r = x" and "within k p"
  shows "scan_not_in x k (p @ r) = Some (p, r)"
proof -
  have "scan_run (\<lambda>c. c \<noteq> x) k (p @ r) = (p, r)"
    using assms by (intro scan_run_all) (auto simp: is_name_def)
  moreover have "p \<noteq> []" and "hd p \<noteq> x" using assms(1) by (auto simp: is_name_def)
  ultimately show ?thesis by (simp add: scan_not_in_def)
qed

lemma scan_not_in_read_end [scan_simps]:
  "is_name x p \<Longrightarrow> within k p \<Longrightarrow> scan_not_in x k p = Some (p, [])"
  using scan_not_in_read [of x p "[]" k] by simp

lemma float_body_digits:
  assumes "\<forall>c \<in> set ds. is_digit c" and "ds \<noteq> []"
  shows "float_body False d dot ex pe (ds @ s) = apfst ((@) ds) (float_body False True dot ex False s)"
  using assms
proof (induction ds arbitrary: d pe)
  case (Cons c cs)
  then show ?case
    by (cases "cs = []") (simp_all add: prod.expand apfst_def map_prod_def split: prod.split)
qed simp

lemma hex_prefix_digits:
  assumes "\<not> is_digit x" and "to_lower x \<noteq> CHR ''x''"
  shows "\<not> hex_prefix (nat_digits n @ x # r)"
proof (cases "nat_digits n")
  case (Cons c cs)
  show ?thesis
  proof (cases cs)
    case Nil
    with Cons assms show ?thesis by (simp add: hex_prefix_def)
  next
    case (Cons d ds)
    have "is_digit d" using nat_digits_digits [of n] \<open>nat_digits n = c # cs\<close> Cons by simp
    then have "to_lower d \<noteq> CHR ''x''" by (auto simp: is_digit_def to_lower_def Let_def)
    with Cons \<open>nat_digits n = c # cs\<close> show ?thesis by (simp add: hex_prefix_def)
  qed
qed simp

lemma scan_float_stamp [scan_simps]:
  "scan_float (stamp a b @ CHR '']'' # r) = Some (stamp a b, CHR '']'' # r)"
proof -
  let ?s = "stamp a b @ CHR '']'' # r"
  have s: "?s = nat_digits a @ CHR ''.'' # nat_digits b @ CHR '']'' # r" by (simp add: stamp_def)
  have drop: "dropWhile is_space ?s = ?s" unfolding s by (rule dropWhile_space_nat_digits)
  have sign: "split_sign ?s = (False, ?s)" unfolding s by (rule split_sign_digit) simp_all
  have hd: "is_digit (hd ?s)" unfolding s by simp
  have lower: "to_lower (hd ?s) \<noteq> CHR ''n''" "to_lower (hd ?s) \<noteq> CHR ''i''"
    using hd by (auto simp: is_digit_def to_lower_def Let_def)
  have "\<not> hex_prefix ?s" unfolding s by (rule hex_prefix_digits) (simp_all add: to_lower_def)
  moreover have "float_body False False False False False ?s = (stamp a b, CHR '']'' # r)"
    unfolding s stamp_def by (simp add: float_body_digits nat_digits_digits to_lower_def)
  moreover have "\<exists>c \<in> set (stamp a b). is_digit c"
    using nat_digits_hd_digit [of a] hd_in_set [OF nat_digits_nonempty [of a]]
    unfolding stamp_def set_append by blast
  ultimately have "float_end ?s = Some (CHR '']'' # r)"
    using lower by (simp add: float_end_def float_number_def s)
  then show ?thesis by (simp add: scan_float_def drop sign)
qed

lemma dropWhile_ends [scan_simps]:
  "dropWhile is_space (show_int i) = show_int i"
  "is_word w \<Longrightarrow> dropWhile is_space w = w"
  using dropWhile_space_show_int [of i "[]"] dropWhile_word [of w "[]"] by simp_all

text \<open>A name that starts with a visible character is not touched by a blank in the format.\<close>

lemma dropWhile_name [scan_simps]:
  assumes "is_name x p" and "\<not> is_space (hd p)"
  shows "dropWhile is_space (p @ r) = p @ r" and "dropWhile is_space p = p"
  using assms by (cases p; simp add: is_name_def)+

lemma strtol10_show_int_end [scan_simps]: "strtol10 (show_int i) = Some (i, [])"
  using strtol10_show_int [of "[]" i] by simp

lemma scan_word_None_Cons [scan_simps]:
  "\<not> is_space c \<Longrightarrow> scan_word None (c # s) =
     Some (c # takeWhile (\<lambda>c. \<not> is_space c) s, dropWhile (\<lambda>c. \<not> is_space c) s)"
  by (simp add: scan_word_def scan_run_def Let_def dropWhile_eq_drop flip: takeWhile_eq_take)

text \<open>A literal of the format against a word: only the first character counts.\<close>

lemma literal_word [scan_simps]:
  "is_word w \<Longrightarrow>
    (case w @ r of [] \<Rightarrow> None | x # xs \<Rightarrow> if x = c then Some (None, xs) else None) =
    (if hd w = c then Some (None, tl w @ r) else None)"
  by (cases w) (simp_all add: is_word_def)

lemma literal_int [scan_simps]:
  assumes "\<not> is_digit c" and "c \<noteq> CHR ''-''"
  shows "(case show_int i @ r of [] \<Rightarrow> None | x # xs \<Rightarrow> if x = c then Some (None, xs) else None) = None"
proof (cases "show_int i")
  case (Cons d ds)
  then have "d = CHR ''-'' \<or> is_digit d"
    using nat_digits_digits [of "nat i"] by (auto simp: show_int_def split: if_splits)
  with assms Cons show ?thesis by auto
qed simp

text \<open>The value a \<open>%d\<close> stores when the number fits an \<open>int\<close>.\<close>

lemma scast_sat_32 [scan_simps]: "ucast (sat_i64 (sint (w :: i32))) = w"
proof -
  have "sat_i64 (sint w) = word_of_int (sint w)"
    using sint_range_32 [of w] by (intro sat_i64_in_range) simp_all
  moreover have "ucast (word_of_int (sint w) :: i64) = w"
    by (rule bit_word_eqI) (simp add: bit_simps)
  ultimately show ?thesis by simp
qed

end
