(* ===== verification/Collector_Parsers.thy ===== *)
theory Collector_Parsers
  imports Log_Lines
begin

text \<open>
  The log line parsers of \<open>src/collector.cpp\<close> (\<open>Ptp4lParser\<close>, \<open>Phc2SysParser\<close>, \<open>PPSParser\<close>)
  and the records they fill (\<open>include/system_metrics.h\<close>, \<open>include/collector.h\<close>). Each parser is
  the sequence of \<open>sscanf\<close> calls of the source with the source's format strings; the record a
  failed call has already written to is passed on to the next call, as in the code.
\<close>

section \<open>Records\<close>

record Ptp4lStats =
  ptp_unit :: string
  ptp_timestamp_us :: u64
  ptp_offset :: i64
  ptp_freq :: i64
  ptp_path_delay :: i64
  ptp_state :: i32

record Phc2SysStats =
  phc_unit :: string
  phc_timestamp_us :: u64
  phc_offset :: i64
  phc_freq :: i64
  phc_path_delay :: i64
  phc_state :: i32

record PPSStats =
  pps_unit :: string
  pps_timestamp_us :: u64
  pps_offset :: i64

record PortEvent =
  pe_unit :: string
  pe_timestamp_us :: u64
  pe_portNumber :: i32
  pe_portName :: string
  pe_adapterName :: string
  pe_fromState :: string
  pe_toState :: string
  pe_trigger :: string

record ForeignMasterEvent =
  fm_unit :: string
  fm_timestamp_us :: u64
  fm_portNumber :: i32
  fm_portName :: string
  fm_masterClockIdentity :: string
  fm_masterPortNumber :: i32

record BestMasterEvent =
  bm_unit :: string
  bm_timestamp_us :: u64
  bm_masterClockIdentity :: string

definition Ptp4lStats_init :: Ptp4lStats where
  "Ptp4lStats_init = \<lparr>ptp_unit = [], ptp_timestamp_us = 0, ptp_offset = 0, ptp_freq = 0,
     ptp_path_delay = 0, ptp_state = 0\<rparr>"

definition Phc2SysStats_init :: Phc2SysStats where
  "Phc2SysStats_init = \<lparr>phc_unit = [], phc_timestamp_us = 0, phc_offset = 0, phc_freq = 0,
     phc_path_delay = 0, phc_state = 0\<rparr>"

text \<open>\<open>PPSStats res;\<close> leaves the time stamp uninitialised: its value is the argument.\<close>

definition PPSStats_init :: "u64 \<Rightarrow> PPSStats" where
  "PPSStats_init junk = \<lparr>pps_unit = [], pps_timestamp_us = junk, pps_offset = 0\<rparr>"

definition PortEvent_init :: PortEvent where
  "PortEvent_init = \<lparr>pe_unit = [], pe_timestamp_us = 0, pe_portNumber = 0, pe_portName = [],
     pe_adapterName = [], pe_fromState = [], pe_toState = [], pe_trigger = []\<rparr>"

definition ForeignMasterEvent_init :: ForeignMasterEvent where
  "ForeignMasterEvent_init = \<lparr>fm_unit = [], fm_timestamp_us = 0, fm_portNumber = 0,
     fm_portName = [], fm_masterClockIdentity = [], fm_masterPortNumber = 0\<rparr>"

definition BestMasterEvent_init :: BestMasterEvent where
  "BestMasterEvent_init = \<lparr>bm_unit = [], bm_timestamp_us = 0, bm_masterClockIdentity = []\<rparr>"

section \<open>Ptp4lParser\<close>

definition fmt_ptp4l_rms :: string where
  "fmt_ptp4l_rms = ''[%lf] rms %*ld max %ld freq %ld +/- %*ld delay %ld +/- %*ld''"

definition fmt_ptp4l_offset :: string where
  "fmt_ptp4l_offset = ''[%lf] %*s offset %ld s%d freq %ld path delay %ld''"

definition put_ptp_offset :: "sval \<Rightarrow> Ptp4lStats \<Rightarrow> Ptp4lStats" where
  "put_ptp_offset v r = r\<lparr>ptp_offset := as_i64 v\<rparr>"

definition put_ptp_freq :: "sval \<Rightarrow> Ptp4lStats \<Rightarrow> Ptp4lStats" where
  "put_ptp_freq v r = r\<lparr>ptp_freq := as_i64 v\<rparr>"

definition put_ptp_path_delay :: "sval \<Rightarrow> Ptp4lStats \<Rightarrow> Ptp4lStats" where
  "put_ptp_path_delay v r = r\<lparr>ptp_path_delay := as_i64 v\<rparr>"

definition put_ptp_state :: "sval \<Rightarrow> Ptp4lStats \<Rightarrow> Ptp4lStats" where
  "put_ptp_state v r = r\<lparr>ptp_state := as_i32 v\<rparr>"

definition Ptp4l_parseMetrics :: "string \<Rightarrow> Ptp4lStats option" where
  "Ptp4l_parseMetrics msg =
     (let vs = sscanf msg fmt_ptp4l_rms;
          res = store_args [unread, put_ptp_offset, put_ptp_freq, put_ptp_path_delay] vs
                  Ptp4lStats_init
      in if length vs = 4 then Some res
      else let ws = sscanf msg fmt_ptp4l_offset;
               res' = store_args [unread, put_ptp_offset, put_ptp_state, put_ptp_freq,
                        put_ptp_path_delay] ws res
      in if length ws = 5 then Some res' else None)"

definition fmt_port_event :: string where
  "fmt_port_event = ''[%lf] port %d (%127[^)]): %63s to %63s on %127[^'' @ [newline_char] @ '']''"

definition Ptp4l_parsePortEvent :: "string \<Rightarrow> PortEvent option" where
  "Ptp4l_parsePortEvent msg =
     (if \<not> contains msg ''port '' \<or> \<not> contains msg '' to '' then None
      else let vs = sscanf msg fmt_port_event
      in if length vs = 6
         then Some (PortEvent_init\<lparr>pe_portNumber := as_i32 (vs ! 1), pe_portName := as_str (vs ! 2),
           pe_fromState := as_str (vs ! 3), pe_toState := as_str (vs ! 4),
           pe_trigger := as_str (vs ! 5)\<rparr>)
         else None)"

definition fmt_foreign_master :: string where
  "fmt_foreign_master = ''[%lf] port %d (%127[^)]): new foreign master %63[^-]-%d''"

definition Ptp4l_parseForeignMasterEvent :: "string \<Rightarrow> ForeignMasterEvent option" where
  "Ptp4l_parseForeignMasterEvent msg =
     (if \<not> contains msg ''new foreign master'' then None
      else let vs = sscanf msg fmt_foreign_master
      in if length vs = 5
         then Some (ForeignMasterEvent_init\<lparr>fm_portNumber := as_i32 (vs ! 1),
           fm_portName := as_str (vs ! 2), fm_masterClockIdentity := as_str (vs ! 3),
           fm_masterPortNumber := as_i32 (vs ! 4)\<rparr>)
         else None)"

definition fmt_best_master :: string where
  "fmt_best_master = ''[%lf] selected best master clock %63s''"

definition fmt_local_master :: string where
  "fmt_local_master = ''[%lf] selected local clock %63s as best master''"

definition Ptp4l_parseBestMasterEvent :: "string \<Rightarrow> BestMasterEvent option" where
  "Ptp4l_parseBestMasterEvent msg =
     (if \<not> contains msg ''selected'' then None
      else let vs = sscanf msg fmt_best_master
      in if length vs = 2
         then Some (BestMasterEvent_init\<lparr>bm_masterClockIdentity := as_str (vs ! 1)\<rparr>)
      else let ws = sscanf msg fmt_local_master
      in if length ws = 2
         then Some (BestMasterEvent_init\<lparr>bm_masterClockIdentity := as_str (ws ! 1)\<rparr>)
         else None)"

section \<open>Phc2SysParser and PPSParser\<close>

definition fmt_phc2sys_rms :: string where
  "fmt_phc2sys_rms = ''[%lf] %*s rms %*ld max %ld freq %ld +/- %*ld delay %ld +/- %*ld''"

definition fmt_phc2sys_offset :: string where
  "fmt_phc2sys_offset = ''[%lf] %*s %*s offset %ld s%d freq %ld delay %ld''"

definition put_phc_offset :: "sval \<Rightarrow> Phc2SysStats \<Rightarrow> Phc2SysStats" where
  "put_phc_offset v r = r\<lparr>phc_offset := as_i64 v\<rparr>"

definition put_phc_freq :: "sval \<Rightarrow> Phc2SysStats \<Rightarrow> Phc2SysStats" where
  "put_phc_freq v r = r\<lparr>phc_freq := as_i64 v\<rparr>"

definition put_phc_path_delay :: "sval \<Rightarrow> Phc2SysStats \<Rightarrow> Phc2SysStats" where
  "put_phc_path_delay v r = r\<lparr>phc_path_delay := as_i64 v\<rparr>"

definition put_phc_state :: "sval \<Rightarrow> Phc2SysStats \<Rightarrow> Phc2SysStats" where
  "put_phc_state v r = r\<lparr>phc_state := as_i32 v\<rparr>"

definition Phc2Sys_parseMetrics :: "string \<Rightarrow> Phc2SysStats option" where
  "Phc2Sys_parseMetrics msg =
     (let vs = sscanf msg fmt_phc2sys_rms;
          res = store_args [unread, put_phc_offset, put_phc_freq, put_phc_path_delay] vs
                  Phc2SysStats_init
      in if length vs = 4 then Some res
      else let ws = sscanf msg fmt_phc2sys_offset;
               res' = store_args [unread, put_phc_offset, put_phc_state, put_phc_freq,
                        put_phc_path_delay] ws res
      in if length ws = 5 then Some res' else None)"

definition Phc2Sys_isWaiting :: "string \<Rightarrow> bool" where
  "Phc2Sys_isWaiting msg \<longleftrightarrow> contains msg ''Waiting for ptp4l''"

definition fmt_pps :: string where
  "fmt_pps = ''timestamp: %ld, sequence: %ld, offset: %ld''"

definition put_pps_offset :: "sval \<Rightarrow> PPSStats \<Rightarrow> PPSStats" where
  "put_pps_offset v r = r\<lparr>pps_offset := as_i64 v\<rparr>"

definition PPS_parseMetrics :: "u64 \<Rightarrow> string \<Rightarrow> PPSStats option" where
  "PPS_parseMetrics junk msg =
     (let vs = sscanf msg fmt_pps; res = store_args [unread, unread, put_pps_offset] vs (PPSStats_init junk)
      in if length vs = 3 then Some res else None)"

lemmas put_defs =
  put_ptp_offset_def put_ptp_freq_def put_ptp_path_delay_def put_ptp_state_def
  put_phc_offset_def put_phc_freq_def put_phc_path_delay_def put_phc_state_def
  put_pps_offset_def unread_def

section \<open>Compiled formats\<close>

lemmas format_eval = parse_conv_def parse_letter_def parse_width_def is_digit_def is_space_def
  digits_val_def digit_val_def Let_def

lemma parse_ptp4l_rms: "parse_format fmt_ptp4l_rms =
   [DLit CHR ''['', DFloat False, DLit CHR '']'', DSpace, DLit CHR ''r'', DLit CHR ''m'', DLit
    CHR ''s'', DSpace, DInt True True, DSpace, DLit CHR ''m'', DLit CHR ''a'', DLit CHR ''x'',
    DSpace, DInt False True, DSpace, DLit CHR ''f'', DLit CHR ''r'', DLit CHR ''e'', DLit CHR
    ''q'', DSpace, DInt False True, DSpace, DLit CHR ''+'', DLit CHR ''/'', DLit CHR ''-'',
    DSpace, DInt True True, DSpace, DLit CHR ''d'', DLit CHR ''e'', DLit CHR ''l'', DLit CHR
    ''a'', DLit CHR ''y'', DSpace, DInt False True, DSpace, DLit CHR ''+'', DLit CHR ''/'', DLit
    CHR ''-'', DSpace, DInt True True]"
  by (simp add: fmt_ptp4l_rms_def format_eval)

lemma parse_ptp4l_offset: "parse_format fmt_ptp4l_offset =
   [DLit CHR ''['', DFloat False, DLit CHR '']'', DSpace, DStr True None, DSpace, DLit CHR
    ''o'', DLit CHR ''f'', DLit CHR ''f'', DLit CHR ''s'', DLit CHR ''e'', DLit CHR ''t'',
    DSpace, DInt False True, DSpace, DLit CHR ''s'', DInt False False, DSpace, DLit CHR ''f'',
    DLit CHR ''r'', DLit CHR ''e'', DLit CHR ''q'', DSpace, DInt False True, DSpace, DLit CHR
    ''p'', DLit CHR ''a'', DLit CHR ''t'', DLit CHR ''h'', DSpace, DLit CHR ''d'', DLit CHR
    ''e'', DLit CHR ''l'', DLit CHR ''a'', DLit CHR ''y'', DSpace, DInt False True]"
  by (simp add: fmt_ptp4l_offset_def format_eval)

lemma parse_port_event: "parse_format fmt_port_event =
   [DLit CHR ''['', DFloat False, DLit CHR '']'', DSpace, DLit CHR ''p'', DLit CHR ''o'', DLit
    CHR ''r'', DLit CHR ''t'', DSpace, DInt False False, DSpace, DLit CHR ''('', DNotIn False
    (Some 127) (CHR '')''), DLit CHR '')'', DLit CHR '':'', DSpace, DStr False (Some 63),
    DSpace, DLit CHR ''t'', DLit CHR ''o'', DSpace, DStr False (Some 63), DSpace, DLit CHR
    ''o'', DLit CHR ''n'', DSpace, DNotIn False (Some 127) newline_char]"
  by (simp add: fmt_port_event_def format_eval)

lemma parse_foreign_master: "parse_format fmt_foreign_master =
   [DLit CHR ''['', DFloat False, DLit CHR '']'', DSpace, DLit CHR ''p'', DLit CHR ''o'', DLit
    CHR ''r'', DLit CHR ''t'', DSpace, DInt False False, DSpace, DLit CHR ''('', DNotIn False
    (Some 127) (CHR '')''), DLit CHR '')'', DLit CHR '':'', DSpace, DLit CHR ''n'', DLit CHR
    ''e'', DLit CHR ''w'', DSpace, DLit CHR ''f'', DLit CHR ''o'', DLit CHR ''r'', DLit CHR
    ''e'', DLit CHR ''i'', DLit CHR ''g'', DLit CHR ''n'', DSpace, DLit CHR ''m'', DLit CHR
    ''a'', DLit CHR ''s'', DLit CHR ''t'', DLit CHR ''e'', DLit CHR ''r'', DSpace, DNotIn False
    (Some 63) (CHR ''-''), DLit CHR ''-'', DInt False False]"
  by (simp add: fmt_foreign_master_def format_eval)

lemma parse_best_master: "parse_format fmt_best_master =
   [DLit CHR ''['', DFloat False, DLit CHR '']'', DSpace, DLit CHR ''s'', DLit CHR ''e'', DLit
    CHR ''l'', DLit CHR ''e'', DLit CHR ''c'', DLit CHR ''t'', DLit CHR ''e'', DLit CHR ''d'',
    DSpace, DLit CHR ''b'', DLit CHR ''e'', DLit CHR ''s'', DLit CHR ''t'', DSpace, DLit CHR
    ''m'', DLit CHR ''a'', DLit CHR ''s'', DLit CHR ''t'', DLit CHR ''e'', DLit CHR ''r'',
    DSpace, DLit CHR ''c'', DLit CHR ''l'', DLit CHR ''o'', DLit CHR ''c'', DLit CHR ''k'',
    DSpace, DStr False (Some 63)]"
  by (simp add: fmt_best_master_def format_eval)

lemma parse_local_master: "parse_format fmt_local_master =
   [DLit CHR ''['', DFloat False, DLit CHR '']'', DSpace, DLit CHR ''s'', DLit CHR ''e'', DLit
    CHR ''l'', DLit CHR ''e'', DLit CHR ''c'', DLit CHR ''t'', DLit CHR ''e'', DLit CHR ''d'',
    DSpace, DLit CHR ''l'', DLit CHR ''o'', DLit CHR ''c'', DLit CHR ''a'', DLit CHR ''l'',
    DSpace, DLit CHR ''c'', DLit CHR ''l'', DLit CHR ''o'', DLit CHR ''c'', DLit CHR ''k'',
    DSpace, DStr False (Some 63), DSpace, DLit CHR ''a'', DLit CHR ''s'', DSpace, DLit CHR
    ''b'', DLit CHR ''e'', DLit CHR ''s'', DLit CHR ''t'', DSpace, DLit CHR ''m'', DLit CHR
    ''a'', DLit CHR ''s'', DLit CHR ''t'', DLit CHR ''e'', DLit CHR ''r'']"
  by (simp add: fmt_local_master_def format_eval)

lemma parse_phc2sys_rms: "parse_format fmt_phc2sys_rms =
   [DLit CHR ''['', DFloat False, DLit CHR '']'', DSpace, DStr True None, DSpace, DLit CHR
    ''r'', DLit CHR ''m'', DLit CHR ''s'', DSpace, DInt True True, DSpace, DLit CHR ''m'', DLit
    CHR ''a'', DLit CHR ''x'', DSpace, DInt False True, DSpace, DLit CHR ''f'', DLit CHR ''r'',
    DLit CHR ''e'', DLit CHR ''q'', DSpace, DInt False True, DSpace, DLit CHR ''+'', DLit CHR
    ''/'', DLit CHR ''-'', DSpace, DInt True True, DSpace, DLit CHR ''d'', DLit CHR ''e'', DLit
    CHR ''l'', DLit CHR ''a'', DLit CHR ''y'', DSpace, DInt False True, DSpace, DLit CHR ''+'',
    DLit CHR ''/'', DLit CHR ''-'', DSpace, DInt True True]"
  by (simp add: fmt_phc2sys_rms_def format_eval)

lemma parse_phc2sys_offset: "parse_format fmt_phc2sys_offset =
   [DLit CHR ''['', DFloat False, DLit CHR '']'', DSpace, DStr True None, DSpace, DStr True
    None, DSpace, DLit CHR ''o'', DLit CHR ''f'', DLit CHR ''f'', DLit CHR ''s'', DLit CHR
    ''e'', DLit CHR ''t'', DSpace, DInt False True, DSpace, DLit CHR ''s'', DInt False False,
    DSpace, DLit CHR ''f'', DLit CHR ''r'', DLit CHR ''e'', DLit CHR ''q'', DSpace, DInt False
    True, DSpace, DLit CHR ''d'', DLit CHR ''e'', DLit CHR ''l'', DLit CHR ''a'', DLit CHR
    ''y'', DSpace, DInt False True]"
  by (simp add: fmt_phc2sys_offset_def format_eval)

lemma parse_pps: "parse_format fmt_pps =
   [DLit CHR ''t'', DLit CHR ''i'', DLit CHR ''m'', DLit CHR ''e'', DLit CHR ''s'', DLit CHR
    ''t'', DLit CHR ''a'', DLit CHR ''m'', DLit CHR ''p'', DLit CHR '':'', DSpace, DInt False
    True, DLit CHR '','', DSpace, DLit CHR ''s'', DLit CHR ''e'', DLit CHR ''q'', DLit CHR
    ''u'', DLit CHR ''e'', DLit CHR ''n'', DLit CHR ''c'', DLit CHR ''e'', DLit CHR '':'',
    DSpace, DInt False True, DLit CHR '','', DSpace, DLit CHR ''o'', DLit CHR ''f'', DLit CHR
    ''f'', DLit CHR ''s'', DLit CHR ''e'', DLit CHR ''t'', DLit CHR '':'', DSpace, DInt False
    True]"
  by (simp add: fmt_pps_def format_eval)


lemmas parse_formats [scan_simps] = parse_ptp4l_rms parse_ptp4l_offset parse_port_event
  parse_foreign_master parse_best_master parse_local_master parse_phc2sys_rms
  parse_phc2sys_offset parse_pps

end
