(* ===== verification/Parser_Theorems.thy ===== *)
theory Parser_Theorems
  imports Collector_Parsers
begin

text \<open>
  Correctness of the log line parsers: each parser reads back exactly the fields of the lines
  \<open>ptp4l\<close>, \<open>phc2sys\<close> and \<open>ppswatch\<close> print (for every value of every field), stored text never
  exceeds the character buffers of the source, and a half matched first format leaves no trace
  in the result.
\<close>

section \<open>The lines the programs print\<close>

definition ptp4l_offset_line ::
  "string \<Rightarrow> string \<Rightarrow> nat \<Rightarrow> i64 \<Rightarrow> i32 \<Rightarrow> nat \<Rightarrow> i64 \<Rightarrow> nat \<Rightarrow> i64 \<Rightarrow> string" where
  "ptp4l_offset_line ts src p1 off st p2 freq p3 delay =
     ''['' @ ts @ ''] '' @ src @ '' offset '' @ blanks p1 @ show_int (sint off) @ '' s'' @
     show_int (sint st) @ '' freq '' @ blanks p2 @ show_signed (sint freq) @
     '' path delay '' @ blanks p3 @ show_int (sint delay)"

definition ptp4l_rms_line ::
  "string \<Rightarrow> nat \<Rightarrow> i64 \<Rightarrow> nat \<Rightarrow> i64 \<Rightarrow> nat \<Rightarrow> i64 \<Rightarrow> i64 \<Rightarrow> nat \<Rightarrow> i64 \<Rightarrow> i64 \<Rightarrow> string" where
  "ptp4l_rms_line ts p1 rms p2 mx p3 freq fdev p4 delay ddev =
     ''['' @ ts @ ''] rms '' @ blanks p1 @ show_int (sint rms) @ '' max '' @ blanks p2 @
     show_int (sint mx) @ '' freq '' @ blanks p3 @ show_signed (sint freq) @ '' +/- '' @
     show_int (sint fdev) @ '' delay '' @ blanks p4 @ show_int (sint delay) @ '' +/- '' @
     show_int (sint ddev)"

definition phc2sys_offset_line ::
  "string \<Rightarrow> string \<Rightarrow> string \<Rightarrow> nat \<Rightarrow> i64 \<Rightarrow> i32 \<Rightarrow> nat \<Rightarrow> i64 \<Rightarrow> nat \<Rightarrow> i64 \<Rightarrow> string" where
  "phc2sys_offset_line ts clock src p1 off st p2 freq p3 delay =
     ''['' @ ts @ ''] '' @ clock @ '' '' @ src @ '' offset '' @ blanks p1 @ show_int (sint off) @
     '' s'' @ show_int (sint st) @ '' freq '' @ blanks p2 @ show_signed (sint freq) @
     '' delay '' @ blanks p3 @ show_int (sint delay)"

definition phc2sys_rms_line ::
  "string \<Rightarrow> string \<Rightarrow> nat \<Rightarrow> i64 \<Rightarrow> nat \<Rightarrow> i64 \<Rightarrow> nat \<Rightarrow> i64 \<Rightarrow> i64 \<Rightarrow> nat \<Rightarrow> i64 \<Rightarrow> i64 \<Rightarrow> string" where
  "phc2sys_rms_line ts clock p1 rms p2 mx p3 freq fdev p4 delay ddev =
     ''['' @ ts @ ''] '' @ clock @ '' rms '' @ blanks p1 @ show_int (sint rms) @ '' max '' @
     blanks p2 @ show_int (sint mx) @ '' freq '' @ blanks p3 @ show_signed (sint freq) @
     '' +/- '' @ show_int (sint fdev) @ '' delay '' @ blanks p4 @ show_int (sint delay) @
     '' +/- '' @ show_int (sint ddev)"

definition pps_line :: "i64 \<Rightarrow> i64 \<Rightarrow> i64 \<Rightarrow> string" where
  "pps_line ts sequence off =
     ''timestamp: '' @ show_int (sint ts) @ '', sequence: '' @ show_int (sint sequence) @
     '', offset: '' @ show_int (sint off)"

definition port_event_line :: "string \<Rightarrow> i32 \<Rightarrow> string \<Rightarrow> string \<Rightarrow> string \<Rightarrow> string \<Rightarrow> string" where
  "port_event_line ts n name from_st to_st trigger =
     ''['' @ ts @ ''] port '' @ show_int (sint n) @ '' ('' @ name @ ''): '' @ from_st @ '' to '' @
     to_st @ '' on '' @ trigger"

definition foreign_master_line :: "string \<Rightarrow> i32 \<Rightarrow> string \<Rightarrow> string \<Rightarrow> i32 \<Rightarrow> string" where
  "foreign_master_line ts n name clock port =
     ''['' @ ts @ ''] port '' @ show_int (sint n) @ '' ('' @ name @ ''): new foreign master '' @
     clock @ ''-'' @ show_int (sint port)"

definition best_master_line :: "string \<Rightarrow> string \<Rightarrow> string" where
  "best_master_line ts clock = ''['' @ ts @ ''] selected best master clock '' @ clock"

definition local_master_line :: "string \<Rightarrow> string \<Rightarrow> string" where
  "local_master_line ts clock = ''['' @ ts @ ''] selected local clock '' @ clock @ '' as best master''"

lemmas line_defs = ptp4l_offset_line_def ptp4l_rms_line_def phc2sys_offset_line_def
  phc2sys_rms_line_def pps_line_def port_event_line_def foreign_master_line_def
  best_master_line_def local_master_line_def

section \<open>Running the formats over the lines\<close>

section \<open>Running the formats over the lines\<close>

lemma scan_ptp4l_offset_line [scan_simps]:
  assumes "is_word src" and "hd src \<noteq> CHR ''r''"
  shows "sscanf (ptp4l_offset_line (stamp a b) src p1 off st p2 freq p3 delay) fmt_ptp4l_rms
      = [VFloat (stamp a b)]"
    and "sscanf (ptp4l_offset_line (stamp a b) src p1 off st p2 freq p3 delay) fmt_ptp4l_offset
      = [VFloat (stamp a b), VI64 off, VI32 st, VI64 freq, VI64 delay]"
  using assms by (simp_all add: sscanf_def ptp4l_offset_line_def scan_simps)

lemma scan_ptp4l_rms_line [scan_simps]:
  "sscanf (ptp4l_rms_line (stamp a b) p1 rms p2 mx p3 freq fdev p4 delay ddev) fmt_ptp4l_rms
     = [VFloat (stamp a b), VI64 mx, VI64 freq, VI64 delay]"
  by (simp add: sscanf_def ptp4l_rms_line_def scan_simps)

lemma scan_phc2sys_offset_line [scan_simps]:
  assumes "is_word clock" and "is_word src" and "hd src \<noteq> CHR ''r''"
  shows "sscanf (phc2sys_offset_line (stamp a b) clock src p1 off st p2 freq p3 delay) fmt_phc2sys_rms
      = [VFloat (stamp a b)]"
    and "sscanf (phc2sys_offset_line (stamp a b) clock src p1 off st p2 freq p3 delay)
        fmt_phc2sys_offset = [VFloat (stamp a b), VI64 off, VI32 st, VI64 freq, VI64 delay]"
  using assms by (simp_all add: sscanf_def phc2sys_offset_line_def scan_simps)

lemma scan_phc2sys_rms_line [scan_simps]:
  assumes "is_word clock"
  shows "sscanf (phc2sys_rms_line (stamp a b) clock p1 rms p2 mx p3 freq fdev p4 delay ddev)
      fmt_phc2sys_rms = [VFloat (stamp a b), VI64 mx, VI64 freq, VI64 delay]"
  using assms by (simp add: sscanf_def phc2sys_rms_line_def scan_simps)

lemma scan_pps_line [scan_simps]: "sscanf (pps_line ts sq off) fmt_pps = [VI64 ts, VI64 sq, VI64 off]"
  by (simp add: sscanf_def pps_line_def scan_simps)

text \<open>The fields of an event line that fit the buffers of \<open>parsePortEvent\<close>.\<close>

definition port_fields_ok :: "string \<Rightarrow> string \<Rightarrow> string \<Rightarrow> string \<Rightarrow> bool" where
  "port_fields_ok name from_st to_st trigger \<longleftrightarrow>
     is_name (CHR '')'') name \<and> length name \<le> 127 \<and> is_word from_st \<and> length from_st \<le> 63 \<and>
     is_word to_st \<and> length to_st \<le> 63 \<and> is_name newline_char trigger \<and> length trigger \<le> 127 \<and>
     \<not> is_space (hd trigger)"

lemma port_fieldsD:
  assumes "port_fields_ok name from_st to_st trigger"
  shows "is_name (CHR '')'') name" "length name \<le> 127" "is_word from_st" "length from_st \<le> 63"
    "is_word to_st" "length to_st \<le> 63" "is_name newline_char trigger" "length trigger \<le> 127"
    "\<not> is_space (hd trigger)"
  using assms by (simp_all add: port_fields_ok_def)

lemma scan_port_event_line [scan_simps]:
  assumes "port_fields_ok name from_st to_st trigger"
  shows "sscanf (port_event_line (stamp a b) n name from_st to_st trigger) fmt_port_event
      = [VFloat (stamp a b), VI32 n, VStr name, VStr from_st, VStr to_st, VStr trigger]"
  using port_fieldsD [OF assms] by (simp add: sscanf_def port_event_line_def scan_simps)

definition foreign_fields_ok :: "string \<Rightarrow> string \<Rightarrow> bool" where
  "foreign_fields_ok name clock \<longleftrightarrow>
     is_name (CHR '')'') name \<and> length name \<le> 127 \<and> is_name (CHR ''-'') clock \<and>
     length clock \<le> 63 \<and> \<not> is_space (hd clock)"

lemma foreign_fieldsD:
  assumes "foreign_fields_ok name clock"
  shows "is_name (CHR '')'') name" "length name \<le> 127" "is_name (CHR ''-'') clock"
    "length clock \<le> 63" "\<not> is_space (hd clock)"
  using assms by (simp_all add: foreign_fields_ok_def)

lemma scan_foreign_master_line [scan_simps]:
  assumes "foreign_fields_ok name clock"
  shows "sscanf (foreign_master_line (stamp a b) n name clock q) fmt_foreign_master
      = [VFloat (stamp a b), VI32 n, VStr name, VStr clock, VI32 q]"
  using foreign_fieldsD [OF assms] by (simp add: sscanf_def foreign_master_line_def scan_simps)

lemma scan_word_63 [scan_simps]:
  assumes "is_word w" and "r = [] \<or> is_space (hd r)"
  shows "scan_word (Some 63) (w @ r) = Some (take 63 w, drop 63 w @ r)"
proof (cases "length w \<le> 63")
  case True
  then show ?thesis using scan_word_read [OF assms, of "Some 63"] by simp
next
  case False
  then show ?thesis using scan_word_cut [OF assms(1), of 63] by simp
qed

lemma scan_word_63_end [scan_simps]:
  "is_word w \<Longrightarrow> scan_word (Some 63) w = Some (take 63 w, drop 63 w)"
  using scan_word_63 [of w "[]"] by simp

text \<open>The identity is stored up to the width of the conversion; what follows it is not read.\<close>

lemma sscanf_run_append_no_target:
  "filter assigning es = [] \<Longrightarrow> sscanf_run (ds @ es) s = sscanf_run ds s"
proof (induction ds arbitrary: s)
  case Nil
  then show ?case using sscanf_run_count [of es s] by simp
qed (auto split: option.split)

lemma sscanf_run_take:
  "filter assigning (drop n ds) = [] \<Longrightarrow> sscanf_run ds s = sscanf_run (take n ds) s"
  using sscanf_run_append_no_target [of "drop n ds" "take n ds" s] by simp

lemma scan_best_master_line [scan_simps]:
  assumes "is_word clock"
  shows "sscanf (best_master_line (stamp a b) clock) fmt_best_master
      = [VFloat (stamp a b), VStr (take 63 clock)]"
  using assms by (simp add: sscanf_def best_master_line_def scan_simps del: scan_word_read_end)

lemma sscanf_local_master:
  "sscanf msg fmt_local_master = sscanf_run (take 26 (parse_format fmt_local_master)) (c_str msg)"
  unfolding sscanf_def by (rule sscanf_run_take) (simp add: parse_local_master)

lemma scan_local_master_line [scan_simps]:
  assumes "is_word clock"
  shows "sscanf (local_master_line (stamp a b) clock) fmt_best_master = [VFloat (stamp a b)]"
    and "sscanf (local_master_line (stamp a b) clock) fmt_local_master
      = [VFloat (stamp a b), VStr (take 63 clock)]"
  unfolding sscanf_local_master using assms
  by (simp_all add: sscanf_def local_master_line_def scan_simps)

text \<open>None of the event lines is accepted by a format for another kind of line.\<close>

lemma scan_port_event_line_no_metrics:
  assumes "port_fields_ok name from_st to_st trigger"
  shows "sscanf (port_event_line (stamp a b) n name from_st to_st trigger) fmt_ptp4l_rms
      = [VFloat (stamp a b)]"
    and "sscanf (port_event_line (stamp a b) n name from_st to_st trigger) fmt_ptp4l_offset
      = [VFloat (stamp a b)]"
  using port_fieldsD [OF assms] by (simp_all add: sscanf_def port_event_line_def scan_simps)

lemma scan_word_new:
  "scan_word (Some 63) (CHR ''n'' # CHR ''e'' # CHR ''w'' # CHR '' '' # r) = Some (''new'', CHR '' '' # r)"
  using scan_word_63 [of "''new''" "CHR '' '' # r"] by (simp add: is_word_def)

lemma scan_foreign_master_line_others:
  assumes "foreign_fields_ok name clock"
  shows "sscanf (foreign_master_line (stamp a b) n name clock q) fmt_ptp4l_rms = [VFloat (stamp a b)]"
    and "sscanf (foreign_master_line (stamp a b) n name clock q) fmt_ptp4l_offset = [VFloat (stamp a b)]"
    and "sscanf (foreign_master_line (stamp a b) n name clock q) fmt_port_event
      = [VFloat (stamp a b), VI32 n, VStr name, VStr ''new'']"
  using foreign_fieldsD [OF assms]
  by (simp_all add: sscanf_def foreign_master_line_def scan_simps scan_word_new)

lemma scan_best_master_line_others:
  assumes "is_word clock"
  shows "sscanf (best_master_line (stamp a b) clock) fmt_ptp4l_rms = [VFloat (stamp a b)]"
    and "sscanf (best_master_line (stamp a b) clock) fmt_ptp4l_offset = [VFloat (stamp a b)]"
    and "sscanf (best_master_line (stamp a b) clock) fmt_port_event = [VFloat (stamp a b)]"
    and "sscanf (best_master_line (stamp a b) clock) fmt_foreign_master = [VFloat (stamp a b)]"
  using assms by (simp_all add: sscanf_def best_master_line_def scan_simps)

lemma scan_local_master_line_others:
  assumes "is_word clock"
  shows "sscanf (local_master_line (stamp a b) clock) fmt_ptp4l_rms = [VFloat (stamp a b)]"
    and "sscanf (local_master_line (stamp a b) clock) fmt_ptp4l_offset = [VFloat (stamp a b)]"
    and "sscanf (local_master_line (stamp a b) clock) fmt_port_event = [VFloat (stamp a b)]"
    and "sscanf (local_master_line (stamp a b) clock) fmt_foreign_master = [VFloat (stamp a b)]"
  using assms by (simp_all add: sscanf_def local_master_line_def scan_simps)

section \<open>What the parsers return\<close>

lemma containsI: "s = a @ needle @ b \<Longrightarrow> contains s needle"
  by (auto simp: contains_iff)

lemma port_event_line_contains:
  "contains (port_event_line ts n name f t g) ''port ''"
  "contains (port_event_line ts n name f t g) '' to ''"
proof -
  show "contains (port_event_line ts n name f t g) ''port ''"
    by (rule containsI [where a = "''['' @ ts @ ''] ''"]) (simp add: port_event_line_def)
  show "contains (port_event_line ts n name f t g) '' to ''"
    by (rule containsI [where a = "''['' @ ts @ ''] port '' @ show_int (sint n) @ '' ('' @ name @ ''): '' @ f"])
      (simp add: port_event_line_def)
qed

lemma foreign_master_line_contains:
  "contains (foreign_master_line ts n name clock q) ''new foreign master''"
  by (rule containsI [where a = "''['' @ ts @ ''] port '' @ show_int (sint n) @ '' ('' @ name @ ''): ''"])
    (simp add: foreign_master_line_def)

lemma best_master_line_contains:
  "contains (best_master_line ts clock) ''selected''"
  "contains (local_master_line ts clock) ''selected''"
  by (rule containsI [where a = "''['' @ ts @ ''] ''"]; simp add: best_master_line_def local_master_line_def)+

text \<open>\<open>Ptp4lParser::parseMetrics\<close> reads every line \<open>[ts] master offset O sS freq F path delay D\<close> back to
  exactly the values printed, for all 64-bit offsets, frequencies and delays, all \<open>int\<close> states and
  any amount of padding.\<close>

lemma parse_ptp4l_offset_line:
  assumes "is_word src" and "hd src \<noteq> CHR ''r''"
  shows "Ptp4l_parseMetrics (ptp4l_offset_line (stamp a b) src p1 off st p2 freq p3 delay) =
    Some (Ptp4lStats_init\<lparr>ptp_offset := off, ptp_freq := freq, ptp_path_delay := delay,
      ptp_state := st\<rparr>)"
  using assms by (simp add: Ptp4l_parseMetrics_def scan_simps put_defs Ptp4lStats_init_def)

text \<open>
  \<open>Ptp4lParser::parseMetrics\<close> reads every \<open>rms\<close> summary line: the offset reported is the
  \<open>max\<close> field, the deviations are dropped and the state stays 0.
\<close>

lemma ptp4l_rms_line_parsed:
  "Ptp4l_parseMetrics (ptp4l_rms_line (stamp a b) p1 rms p2 mx p3 freq fdev p4 delay ddev) =
    Some (Ptp4lStats_init\<lparr>ptp_offset := mx, ptp_freq := freq, ptp_path_delay := delay\<rparr>)"
  by (simp add: Ptp4l_parseMetrics_def scan_simps put_defs Ptp4lStats_init_def)

text \<open>
  C35. \<open>Phc2SysParser::parseMetrics\<close> reads both kinds of \<open>phc2sys\<close> lines back to the values
  printed, for every clock name.
\<close>

theorem phc2sys_lines_parsed:
  assumes "is_word clock" and "is_word src" and "hd src \<noteq> CHR ''r''"
  shows "Phc2Sys_parseMetrics (phc2sys_offset_line (stamp a b) clock src p1 off st p2 freq p3 delay) =
      Some (Phc2SysStats_init\<lparr>phc_offset := off, phc_freq := freq, phc_path_delay := delay,
        phc_state := st\<rparr>) \<and>
    Phc2Sys_parseMetrics (phc2sys_rms_line (stamp a b) clock p1 rms p2 mx p3 freq fdev p4 delay ddev) =
      Some (Phc2SysStats_init\<lparr>phc_offset := mx, phc_freq := freq, phc_path_delay := delay\<rparr>)"
  using assms by (simp add: Phc2Sys_parseMetrics_def scan_simps put_defs Phc2SysStats_init_def)

theorem phc2sys_lines_parsed_witness:
  "Phc2Sys_parseMetrics (phc2sys_offset_line (stamp 192898 77) ''CLOCK_REALTIME'' ''phc'' 6 (- 42) 2 3 1257 3 1450)
    = Some (Phc2SysStats_init\<lparr>phc_offset := - 42, phc_freq := 1257, phc_path_delay := 1450, phc_state := 2\<rparr>)"
proof -
  have "is_word ''CLOCK_REALTIME''" and "is_word ''phc''" by (simp_all add: is_word_def)
  then show ?thesis using phc2sys_lines_parsed [of "''CLOCK_REALTIME''" "''phc''"] by simp
qed

text \<open>
  \<open>PPSParser::parseMetrics\<close> keeps the offset of every \<open>ppswatch\<close> line; the time stamp of
  the result is whatever the uninitialised field held.
\<close>

lemma pps_line_parsed:
  "PPS_parseMetrics junk (pps_line ts sequence off) = Some (PPSStats_init junk\<lparr>pps_offset := off\<rparr>)"
  by (simp add: PPS_parseMetrics_def scan_simps put_defs)

text \<open>A port transition line whose fields fit the buffers is read back, and never taken for a metrics line.\<close>

lemma parse_port_event_line:
  assumes "port_fields_ok name from_st to_st trigger"
  shows "Ptp4l_parseMetrics (port_event_line (stamp a b) n name from_st to_st trigger) = None \<and>
    Ptp4l_parsePortEvent (port_event_line (stamp a b) n name from_st to_st trigger) =
      Some (PortEvent_init\<lparr>pe_portNumber := n, pe_portName := name, pe_fromState := from_st,
        pe_toState := to_st, pe_trigger := trigger\<rparr>)"
  using assms scan_port_event_line_no_metrics [OF assms]
  by (simp add: Ptp4l_parseMetrics_def Ptp4l_parsePortEvent_def port_event_line_contains scan_simps)

lemma port_event_line_example:
  "Ptp4l_parsePortEvent (port_event_line (stamp 1878447 505) 1 ''eth1'' ''UNCALIBRATED'' ''SLAVE''
      ''MASTER_CLOCK_SELECTED'') =
    Some (PortEvent_init\<lparr>pe_portNumber := 1, pe_portName := ''eth1'', pe_fromState := ''UNCALIBRATED'',
      pe_toState := ''SLAVE'', pe_trigger := ''MASTER_CLOCK_SELECTED''\<rparr>)"
proof -
  have "port_fields_ok ''eth1'' ''UNCALIBRATED'' ''SLAVE'' ''MASTER_CLOCK_SELECTED''"
    by (simp add: port_fields_ok_def is_word_def is_name_def)
  then show ?thesis using parse_port_event_line by simp
qed

text \<open>A new foreign master line and a best master line of either kind are recognised as nothing else; the
  clock identity of the latter is cut to the 63 characters its buffer holds.\<close>

lemma parse_master_lines:
  assumes "foreign_fields_ok name clock" and "is_word best"
  shows "Ptp4l_parseMetrics (foreign_master_line (stamp a b) n name clock q) = None \<and>
    Ptp4l_parsePortEvent (foreign_master_line (stamp a b) n name clock q) = None \<and>
    Ptp4l_parseForeignMasterEvent (foreign_master_line (stamp a b) n name clock q) =
      Some (ForeignMasterEvent_init\<lparr>fm_portNumber := n, fm_portName := name,
        fm_masterClockIdentity := clock, fm_masterPortNumber := q\<rparr>) \<and>
    (\<forall>line \<in> {best_master_line (stamp a b) best, local_master_line (stamp a b) best}.
      Ptp4l_parseMetrics line = None \<and> Ptp4l_parsePortEvent line = None \<and>
      Ptp4l_parseForeignMasterEvent line = None \<and>
      Ptp4l_parseBestMasterEvent line =
        Some (BestMasterEvent_init\<lparr>bm_masterClockIdentity := take 63 best\<rparr>))"
  using assms
  by (simp add: Ptp4l_parseMetrics_def Ptp4l_parsePortEvent_def Ptp4l_parseForeignMasterEvent_def
      Ptp4l_parseBestMasterEvent_def foreign_master_line_contains best_master_line_contains
      scan_foreign_master_line_others scan_best_master_line_others scan_local_master_line_others
      scan_foreign_master_line scan_best_master_line scan_local_master_line)

lemma master_lines_example:
  "Ptp4l_parseForeignMasterEvent (foreign_master_line (stamp 1878439 505) 1 ''eth1'' ''e0d4e8.fffe.f3965e'' 1) =
     Some (ForeignMasterEvent_init\<lparr>fm_portNumber := 1, fm_portName := ''eth1'',
       fm_masterClockIdentity := ''e0d4e8.fffe.f3965e'', fm_masterPortNumber := 1\<rparr>)"
proof -
  have "foreign_fields_ok ''eth1'' ''e0d4e8.fffe.f3965e''" and "is_word ''c4''"
    by (simp_all add: foreign_fields_ok_def is_word_def is_name_def)
  then show ?thesis using parse_master_lines [of "''eth1''" "''e0d4e8.fffe.f3965e''" "''c4''"] by blast
qed

section \<open>Bounds and independence\<close>

lemma length6_nth:
  "length vs = 6 \<Longrightarrow> vs = [vs ! 0, vs ! 1, vs ! 2, vs ! 3, vs ! 4, vs ! 5]"
  by (rule nth_equalityI) (auto simp: less_Suc_eq numeral_eq_Suc)

text \<open>Every stored text fits the array it is stored in, its terminating NUL included.\<close>

lemma port_event_values:
  assumes "length (sscanf msg fmt_port_event) = 6"
  shows "\<exists>ts n name f t g. sscanf msg fmt_port_event =
      [VFloat ts, VI32 n, VStr name, VStr f, VStr t, VStr g] \<and>
    length name \<le> 127 \<and> length f \<le> 63 \<and> length t \<le> 63 \<and> length g \<le> 127"
  using sscanf_full [OF parse_port_event, of msg] assms
  by (simp add: list_all2_Cons1 val_fits_iff) blast

lemma foreign_master_values:
  assumes "length (sscanf msg fmt_foreign_master) = 5"
  shows "\<exists>ts n name c q. sscanf msg fmt_foreign_master =
      [VFloat ts, VI32 n, VStr name, VStr c, VI32 q] \<and> length name \<le> 127 \<and> length c \<le> 63"
  using sscanf_full [OF parse_foreign_master, of msg] assms
  by (simp add: list_all2_Cons1 val_fits_iff) blast

lemma best_master_values:
  assumes "length (sscanf msg fmt_best_master) = 2"
  shows "\<exists>ts c. sscanf msg fmt_best_master = [VFloat ts, VStr c] \<and> length c \<le> 63"
  using sscanf_full [OF parse_best_master, of msg] assms
  by (simp add: list_all2_Cons1 val_fits_iff) blast

lemma local_master_values:
  assumes "length (sscanf msg fmt_local_master) = 2"
  shows "\<exists>ts c. sscanf msg fmt_local_master = [VFloat ts, VStr c] \<and> length c \<le> 63"
  using sscanf_full [OF parse_local_master, of msg] assms
  by (simp add: list_all2_Cons1 val_fits_iff) blast

text \<open>
  C34. Memory safety of the event parsers, for every message: the texts they store are shorter
  than the arrays \<open>portName[128]\<close>, \<open>fromState[64]\<close>, \<open>toState[64]\<close>, \<open>trigger[128]\<close> and
  \<open>masterClockIdentity[64]\<close> (so the terminating NUL fits), and they are pieces of the message.
\<close>

theorem event_texts_fit_buffers:
  "(case Ptp4l_parsePortEvent msg of None \<Rightarrow> True
     | Some e \<Rightarrow> length (pe_portName e) < 128 \<and> length (pe_fromState e) < 64 \<and>
         length (pe_toState e) < 64 \<and> length (pe_trigger e) < 128 \<and>
         sublist (pe_portName e) msg \<and> sublist (pe_trigger e) msg) \<and>
   (case Ptp4l_parseForeignMasterEvent msg of None \<Rightarrow> True
     | Some e \<Rightarrow> length (fm_portName e) < 128 \<and> length (fm_masterClockIdentity e) < 64) \<and>
   (case Ptp4l_parseBestMasterEvent msg of None \<Rightarrow> True
     | Some e \<Rightarrow> length (bm_masterClockIdentity e) < 64 \<and> sublist (bm_masterClockIdentity e) msg)"
proof (intro conjI)
  have c_sub: "sublist (c_str msg) msg" by (simp add: c_str_def sublist_takeWhile)
  have piece: "VStr x \<in> set (sscanf msg fmt) \<Longrightarrow> sublist x msg" for x fmt
    using sscanf_text(1) c_sub by (blast intro: sublist_order.order_trans)
  show "case Ptp4l_parsePortEvent msg of None \<Rightarrow> True
     | Some e \<Rightarrow> length (pe_portName e) < 128 \<and> length (pe_fromState e) < 64 \<and>
         length (pe_toState e) < 64 \<and> length (pe_trigger e) < 128 \<and>
         sublist (pe_portName e) msg \<and> sublist (pe_trigger e) msg"
    using port_event_values [of msg] piece [of _ fmt_port_event]
    by (auto simp: Ptp4l_parsePortEvent_def Let_def)
  show "case Ptp4l_parseForeignMasterEvent msg of None \<Rightarrow> True
     | Some e \<Rightarrow> length (fm_portName e) < 128 \<and> length (fm_masterClockIdentity e) < 64"
    using foreign_master_values [of msg]
    by (auto simp: Ptp4l_parseForeignMasterEvent_def Let_def)
  show "case Ptp4l_parseBestMasterEvent msg of None \<Rightarrow> True
     | Some e \<Rightarrow> length (bm_masterClockIdentity e) < 64 \<and> sublist (bm_masterClockIdentity e) msg"
    using best_master_values [of msg] local_master_values [of msg]
      piece [of _ fmt_best_master] piece [of _ fmt_local_master]
    by (auto simp: Ptp4l_parseBestMasterEvent_def Let_def)
qed

lemma length5_nth: "length vs = 5 \<Longrightarrow> vs = [vs ! 0, vs ! 1, vs ! 2, vs ! 3, vs ! 4]"
  by (rule nth_equalityI) (auto simp: less_Suc_eq numeral_eq_Suc)

lemma store_args_prefix_ptp:
  "ptp_unit (store_args [unread, put_ptp_offset, put_ptp_freq, put_ptp_path_delay] vs r) = ptp_unit r"
  "ptp_timestamp_us (store_args [unread, put_ptp_offset, put_ptp_freq, put_ptp_path_delay] vs r) = ptp_timestamp_us r"
  by (cases vs; cases "tl vs"; cases "tl (tl vs)"; cases "tl (tl (tl vs))"; simp add: put_defs)+

lemma store_args_prefix_phc:
  "phc_unit (store_args [unread, put_phc_offset, put_phc_freq, put_phc_path_delay] vs r) = phc_unit r"
  "phc_timestamp_us (store_args [unread, put_phc_offset, put_phc_freq, put_phc_path_delay] vs r) = phc_timestamp_us r"
  by (cases vs; cases "tl vs"; cases "tl (tl vs)"; cases "tl (tl (tl vs))"; simp add: put_defs)+

text \<open>
  A line that the summary format matches only in part leaves no trace: what
  \<open>parseMetrics\<close> of \<open>ptp4l\<close> and of \<open>phc2sys\<close> then return is what the offset format alone stores
  into a fresh record, whatever the first \<open>sscanf\<close> has already written.
\<close>

lemma half_matched_summary_leaves_no_trace:
  assumes "length (sscanf msg fmt_ptp4l_rms) \<noteq> 4" and "length (sscanf msg fmt_phc2sys_rms) \<noteq> 4"
  shows "Ptp4l_parseMetrics msg =
      (let ws = sscanf msg fmt_ptp4l_offset in if length ws = 5
       then Some (Ptp4lStats_init\<lparr>ptp_offset := as_i64 (ws ! 1), ptp_state := as_i32 (ws ! 2),
         ptp_freq := as_i64 (ws ! 3), ptp_path_delay := as_i64 (ws ! 4)\<rparr>) else None) \<and>
    Phc2Sys_parseMetrics msg =
      (let ws = sscanf msg fmt_phc2sys_offset in if length ws = 5
       then Some (Phc2SysStats_init\<lparr>phc_offset := as_i64 (ws ! 1), phc_state := as_i32 (ws ! 2),
         phc_freq := as_i64 (ws ! 3), phc_path_delay := as_i64 (ws ! 4)\<rparr>) else None)"
proof -
  have ptp: "store_args [unread, put_ptp_offset, put_ptp_state, put_ptp_freq, put_ptp_path_delay] ws
      (store_args [unread, put_ptp_offset, put_ptp_freq, put_ptp_path_delay] vs Ptp4lStats_init) =
    Ptp4lStats_init\<lparr>ptp_offset := as_i64 (ws ! 1), ptp_state := as_i32 (ws ! 2),
      ptp_freq := as_i64 (ws ! 3), ptp_path_delay := as_i64 (ws ! 4)\<rparr>"
    if "length ws = 5" for ws vs
    by (subst length5_nth [OF that])
      (simp add: put_defs Ptp4lStats_init_def store_args_prefix_ptp Ptp4lStats.equality)
  have phc: "store_args [unread, put_phc_offset, put_phc_state, put_phc_freq, put_phc_path_delay] ws
      (store_args [unread, put_phc_offset, put_phc_freq, put_phc_path_delay] vs Phc2SysStats_init) =
    Phc2SysStats_init\<lparr>phc_offset := as_i64 (ws ! 1), phc_state := as_i32 (ws ! 2),
      phc_freq := as_i64 (ws ! 3), phc_path_delay := as_i64 (ws ! 4)\<rparr>"
    if "length ws = 5" for ws vs
    by (subst length5_nth [OF that])
      (simp add: put_defs Phc2SysStats_init_def store_args_prefix_phc Phc2SysStats.equality)
  show ?thesis using assms
    by (simp add: Ptp4l_parseMetrics_def Phc2Sys_parseMetrics_def Let_def ptp phc)
qed

lemma half_matched_line:
  "length (sscanf ''[12.5] rms 3 max 9 freq oops'' fmt_ptp4l_rms) \<noteq> 4"
  "length (sscanf ''[12.5] rms 3 max 9 freq oops'' fmt_phc2sys_rms) \<noteq> 4"
  "length (sscanf ''[12.5] rms 3 max 9 freq oops'' fmt_ptp4l_offset) \<noteq> 5"
  by code_simp+

lemma half_matched_summary_example:
  "sscanf ''[12.5] rms 3 max 9 freq oops'' fmt_ptp4l_rms \<noteq> [] \<and>
   Ptp4l_parseMetrics ''[12.5] rms 3 max 9 freq oops'' = None"
proof
  show "sscanf ''[12.5] rms 3 max 9 freq oops'' fmt_ptp4l_rms \<noteq> []" by code_simp
  show "Ptp4l_parseMetrics ''[12.5] rms 3 max 9 freq oops'' = None"
    using half_matched_summary_leaves_no_trace [OF half_matched_line(1,2)] half_matched_line(3)
    by (simp add: Let_def)
qed

end
