(* ===== verification/Posix_Files.thy ===== *)
theory Posix_Files
  imports Agent_Prelude
begin

text \<open>
  The operating system as the metric collectors see it: the files they read (\<open>os_files\<close>: the
  content of a path that can be opened and read), the directories they list (\<open>os_dirs\<close>: entry
  names with the answer of \<open>is_directory()\<close>, in the order of the iteration), the paths that
  exist (\<open>os_present\<close>, for \<open>fs::exists\<close>: a file may exist and not be readable) and the
  descriptor table of the process. \<open>open\<close> takes the lowest free descriptor and fails with -1
  exactly on a path that cannot be opened; \<open>close\<close> frees a descriptor; \<open>pread\<close> at offset 0
  returns the first bytes of the file behind a descriptor. The contract the collectors rely on
  is the locale \<open>fd_table\<close>, interpreted here by the model.
\<close>

section \<open>Files and descriptors\<close>

record os =
  os_files :: "string \<Rightarrow> string option"
  os_dirs :: "string \<Rightarrow> (string \<times> bool) list option"
  os_present :: "string \<Rightarrow> bool"
  os_fds :: "string option list"

fun lowest_free :: "'a option list \<Rightarrow> nat" where
  "lowest_free [] = 0"
| "lowest_free (None # xs) = 0"
| "lowest_free (Some _ # xs) = Suc (lowest_free xs)"

definition os_readable :: "os \<Rightarrow> string \<Rightarrow> bool" where
  "os_readable w p \<longleftrightarrow> os_files w p \<noteq> None"

definition os_path :: "os \<Rightarrow> int \<Rightarrow> string option" where
  "os_path w fd = (if 0 \<le> fd \<and> nat fd < length (os_fds w) then os_fds w ! nat fd else None)"

definition os_open :: "string \<Rightarrow> os \<Rightarrow> int \<times> os" where
  "os_open p w =
     (if os_readable w p
      then let i = lowest_free (os_fds w) in
        (int i, w\<lparr>os_fds := (if i < length (os_fds w) then (os_fds w)[i := Some p]
                             else os_fds w @ [Some p])\<rparr>)
      else (- 1, w))"

definition os_close :: "int \<Rightarrow> os \<Rightarrow> os" where
  "os_close fd w = (if 0 \<le> fd \<and> nat fd < length (os_fds w)
     then w\<lparr>os_fds := (os_fds w)[nat fd := None]\<rparr> else w)"

text \<open>\<open>pread(fd, buf, n, 0)\<close>: \<open>None\<close> is an error (-1), otherwise the bytes read.\<close>

definition os_pread :: "int \<Rightarrow> nat \<Rightarrow> os \<Rightarrow> string option" where
  "os_pread fd n w = (case os_path w fd of None \<Rightarrow> None
     | Some p \<Rightarrow> map_option (take n) (os_files w p))"

section \<open>The contract of a descriptor table\<close>

text \<open>Opening several files one after the other, as a constructor or a loop does.\<close>

fun open_each :: "(string \<Rightarrow> 'w \<Rightarrow> int \<times> 'w) \<Rightarrow> string list \<Rightarrow> 'w \<Rightarrow> int list \<times> 'w" where
  "open_each f [] w = ([], w)"
| "open_each f (p # ps) w =
     (let (fd, w1) = f p w; (fds, w2) = open_each f ps w1 in (fd # fds, w2))"

text \<open>Closing descriptors, skipping the ones that were never opened.\<close>

fun close_each :: "(int \<Rightarrow> 'w \<Rightarrow> 'w) \<Rightarrow> int list \<Rightarrow> 'w \<Rightarrow> 'w" where
  "close_each f [] w = w"
| "close_each f (fd # fds) w = close_each f fds (if fd \<noteq> - 1 then f fd w else w)"

locale fd_table =
  fixes openf :: "string \<Rightarrow> 'w \<Rightarrow> int \<times> 'w"
    and closef :: "int \<Rightarrow> 'w \<Rightarrow> 'w"
    and path_of :: "'w \<Rightarrow> int \<Rightarrow> string option"
    and readable :: "'w \<Rightarrow> string \<Rightarrow> bool"
  assumes open_ok: "readable w p \<Longrightarrow> openf p w = (fd, w') \<Longrightarrow>
      0 \<le> fd \<and> path_of w fd = None \<and> path_of w' = (path_of w)(fd := Some p)"
    and open_fail: "\<not> readable w p \<Longrightarrow> openf p w = (- 1, w)"
    and open_readable: "readable (snd (openf p w)) = readable w"
    and close_path: "path_of (closef fd w) = (path_of w)(fd := None)"
    and close_readable: "readable (closef fd w) = readable w"
    and no_negative: "path_of w (- 1) = None"
begin

lemma open_each_readable: "readable (snd (open_each openf ps w)) = readable w"
proof (induction ps arbitrary: w)
  case (Cons p ps)
  then show ?case using open_readable [of p w] by (simp add: split_beta Let_def)
qed simp

lemma open_each_length: "length (fst (open_each openf ps w)) = length ps"
  by (induction ps arbitrary: w) (simp_all add: split_beta Let_def)

text \<open>
  Opening a list of paths: a descriptor is -1 exactly for an unreadable path, the others are
  new and different, and the table afterwards is the old one with these entries added.
\<close>

lemma open_each_spec:
  assumes "open_each openf ps w = (fds, w')"
  shows "length fds = length ps \<and>
    (\<forall>i < length ps. (fds ! i = - 1 \<longleftrightarrow> \<not> readable w (ps ! i)) \<and>
       (readable w (ps ! i) \<longrightarrow> path_of w (fds ! i) = None \<and> path_of w' (fds ! i) = Some (ps ! i))) \<and>
    (\<forall>fd. fd \<notin> set fds \<longrightarrow> path_of w' fd = path_of w fd) \<and>
    distinct (filter (\<lambda>fd. fd \<noteq> - 1) fds)"
  using assms
proof (induction ps arbitrary: w fds w')
  case Nil
  then show ?case by simp
next
  case (Cons p ps)
  obtain fd w1 where f: "openf p w = (fd, w1)" by fastforce
  obtain fds' where r: "open_each openf ps w1 = (fds', w')" and fds: "fds = fd # fds'"
    using Cons.prems f by (auto split: prod.splits)
  note IH = Cons.IH [OF r]
  have rd: "readable w1 = readable w" using open_readable [of p w] f by simp
  show ?case
  proof (cases "readable w p")
    case True
    then have fd: "0 \<le> fd" "path_of w fd = None" "path_of w1 = (path_of w)(fd := Some p)"
      using open_ok [OF True f] by simp_all
    have new: "fd \<notin> set fds'"
    proof
      assume "fd \<in> set fds'"
      then obtain i where i: "i < length ps" "fds' ! i = fd"
        using IH by (auto simp: in_set_conv_nth)
      moreover have "fd \<noteq> - 1" using fd by simp
      ultimately have "path_of w1 fd = None" using IH rd by metis
      then show False using fd by simp
    qed
    have old: "path_of w (fds' ! i) = None" if "i < length ps" "readable w (ps ! i)" for i
    proof -
      have "fds' ! i \<noteq> fd" using new that(1) IH by auto
      then show ?thesis using IH that rd fd(3) by auto
    qed
    show ?thesis
      unfolding fds using IH rd fd new old True by (auto simp: nth_Cons split: nat.split)
  next
    case False
    then have "fd = - 1" and "w1 = w" using open_fail [OF False] f by simp_all
    then show ?thesis
      unfolding fds using IH False by (auto simp: nth_Cons no_negative split: nat.split)
  qed
qed

lemma close_each_spec:
  "path_of (close_each closef fds w) = (\<lambda>fd. if fd \<in> set fds then None else path_of w fd)"
proof (induction fds arbitrary: w)
  case (Cons fd fds)
  show ?case
  proof (cases "fd = - 1")
    case True
    then show ?thesis using Cons [of w] by (auto simp: fun_eq_iff no_negative)
  next
    case False
    then show ?thesis using Cons [of "closef fd w"] by (auto simp: fun_eq_iff close_path)
  qed
qed simp

lemma close_each_readable: "readable (close_each closef fds w) = readable w"
  by (induction fds arbitrary: w) (simp_all add: close_readable)

end

section \<open>The model provides it\<close>

lemma lowest_free_spec:
  "lowest_free xs \<le> length xs" "lowest_free xs < length xs \<Longrightarrow> xs ! lowest_free xs = None"
  by (induction xs rule: lowest_free.induct) auto

interpretation os: fd_table os_open os_close os_path os_readable
proof unfold_locales
  fix w p fd w'
  assume r: "os_readable w p" and o: "os_open p w = (fd, w')"
  define i where "i = lowest_free (os_fds w)"
  have i: "i \<le> length (os_fds w)" "i < length (os_fds w) \<Longrightarrow> os_fds w ! i = None"
    by (simp_all add: i_def lowest_free_spec)
  have fd: "fd = int i" and w': "os_fds w' = (if i < length (os_fds w) then (os_fds w)[i := Some p]
      else os_fds w @ [Some p])"
    using r o by (auto simp: os_open_def Let_def i_def)
  show "0 \<le> fd \<and> os_path w fd = None \<and> os_path w' = (os_path w)(fd := Some p)"
    using i unfolding fd
    by (auto simp: os_path_def w' fun_eq_iff nth_append nth_list_update)
qed (auto simp: os_open_def os_close_def os_path_def os_readable_def Let_def fun_eq_iff
    nth_list_update)

lemma os_files_frame [frame_simps]:
  "os_files (snd (os_open p w)) = os_files w"
  "os_dirs (snd (os_open p w)) = os_dirs w"
  "os_present (snd (os_open p w)) = os_present w"
  "os_files (os_close fd w) = os_files w"
  "os_dirs (os_close fd w) = os_dirs w"
  "os_present (os_close fd w) = os_present w"
  by (simp_all add: os_open_def os_close_def Let_def)

lemma open_each_append:
  "open_each f (ps @ qs) w =
     (let (xs, w1) = open_each f ps w; (ys, w2) = open_each f qs w1 in (xs @ ys, w2))"
  by (induction ps arbitrary: w) (simp_all add: split_beta Let_def)

lemma os_open_failed: "os_open p w = (- 1, w') \<Longrightarrow> w' = w"
  by (auto simp: os_open_def Let_def split: if_splits)

lemma os_files_open_each [frame_simps]: "os_files (snd (open_each os_open ps w)) = os_files w"
proof (induction ps arbitrary: w)
  case (Cons p ps)
  then show ?case using os_files_frame(1) [of p w] by (simp add: split_beta Let_def)
qed simp

lemma os_files_close_each [frame_simps]: "os_files (close_each os_close fds w) = os_files w"
  by (induction fds arbitrary: w) (simp_all add: frame_simps)

lemma os_pread_path: "os_path w fd = Some p \<Longrightarrow> os_pread fd n w = map_option (take n) (os_files w p)"
  by (simp add: os_pread_def)

end
