(* ===== verification/Binary64.thy ===== *)
theory Binary64
  imports CString_Lib "HOL-Library.Log_Nat"
begin

text \<open>
  The \<open>double\<close> arithmetic of the agent: values are rationals and every operation rounds its
  exact result to 53 significant bits, ties to even, as IEEE 754 binary64 does. The exponent
  range needs no care in the CPU usage formula (all results are 0 or between $2^{-64}$ and
  $2^{72}$ in size, and the quotient is guarded against 0); for \<open>std::stod\<close> the range is checked
  by \<open>to_double\<close>. The lemmas of this theory say that rounding is monotone and exact on small
  integers.
\<close>

section \<open>Rounding\<close>

text \<open>The exponent of the leading bit of a positive rational.\<close>

definition ilog2 :: "rat \<Rightarrow> int" where
  "ilog2 x = (let (p, q) = quotient_of x; k = bitlen p - bitlen q
     in if 2 powi k \<le> x then k else k - 1)"

definition round_even :: "rat \<Rightarrow> int" where
  "round_even x = (let f = \<lfloor>x\<rfloor>; d = x - of_int f
     in if d < 1 / 2 then f else if 1 / 2 < d then f + 1 else if even f then f else f + 1)"

definition rd_pos :: "rat \<Rightarrow> rat" where
  "rd_pos x = (let e = ilog2 x - 52 in of_int (round_even (x / 2 powi e)) * 2 powi e)"

definition rd :: "rat \<Rightarrow> rat" where
  "rd x = (if x = 0 then 0 else if 0 < x then rd_pos x else - rd_pos (- x))"

text \<open>Conversion from \<open>uint64_t\<close> and the operations the code uses.\<close>

definition d_of_u64 :: "u64 \<Rightarrow> rat" where
  "d_of_u64 w = rd (of_nat (unat w))"

definition d_sub :: "rat \<Rightarrow> rat \<Rightarrow> rat" where "d_sub a b = rd (a - b)"
definition d_mul :: "rat \<Rightarrow> rat \<Rightarrow> rat" where "d_mul a b = rd (a * b)"
definition d_div :: "rat \<Rightarrow> rat \<Rightarrow> rat" where "d_div a b = rd (a / b)"

section \<open>The leading exponent\<close>

lemma bitlen_powi:
  assumes "0 < (p :: int)"
  shows "2 powi (bitlen p - 1) \<le> (of_int p :: rat)" and "of_int p < (2 powi bitlen p :: rat)"
proof -
  have b: "0 < bitlen p" using bitlen_nonneg [of p] bitlen_eq_zero_iff [of p] assms by linarith
  have "2 ^ nat (bitlen p - 1) \<le> p \<and> p < 2 ^ nat (bitlen p)"
    using bitlen_bounds [OF assms] by simp
  then have "(2 :: rat) ^ nat (bitlen p - 1) \<le> of_int p" and "of_int p < (2 :: rat) ^ nat (bitlen p)"
    by (metis of_int_le_iff of_int_numeral of_int_power, metis of_int_less_iff of_int_numeral of_int_power)
  with b show "2 powi (bitlen p - 1) \<le> (of_int p :: rat)" and "of_int p < (2 powi bitlen p :: rat)"
    by (simp_all add: power_int_def)
qed

lemma ilog2_bounds:
  assumes "0 < x"
  shows "2 powi (ilog2 x) \<le> x" and "x < 2 powi (ilog2 x + 1)"
proof -
  obtain p q where pq: "quotient_of x = (p, q)" by fastforce
  then have q: "0 < q" and x: "x = of_int p / of_int q"
    by (simp_all add: quotient_of_denom_pos quotient_of_div)
  have p: "0 < p" using assms q unfolding x by (simp add: zero_less_divide_iff)
  define k where "k = bitlen p - bitlen q"
  have "x < 2 powi bitlen p / 2 powi (bitlen q - 1)"
    unfolding x using bitlen_powi [OF p] bitlen_powi [OF q] q p
    by (intro frac_less) simp_all
  then have up: "x < 2 powi (k + 1)"
    by (simp add: k_def power_int_diff [symmetric] algebra_simps)
  have "2 powi (bitlen p - 1) / 2 powi bitlen q < x"
    unfolding x using bitlen_powi [OF p] bitlen_powi [OF q] q p
    by (intro frac_less2) simp_all
  then have low: "2 powi (k - 1) < x"
    by (simp add: k_def power_int_diff [symmetric] algebra_simps)
  have "ilog2 x = (if 2 powi k \<le> x then k else k - 1)"
    by (simp add: ilog2_def pq k_def)
  then show "2 powi (ilog2 x) \<le> x" and "x < 2 powi (ilog2 x + 1)"
    using up low by (auto split: if_splits)
qed

lemma ilog2_mono:
  assumes "0 < x" and "x \<le> y"
  shows "ilog2 x \<le> ilog2 y"
proof (rule ccontr)
  assume "\<not> ilog2 x \<le> ilog2 y"
  then have "ilog2 y + 1 \<le> ilog2 x" by simp
  then have "(2 :: rat) powi (ilog2 y + 1) \<le> 2 powi (ilog2 x)" by (simp add: power_int_increasing)
  with ilog2_bounds [of x] ilog2_bounds [of y] assms show False by simp
qed

lemma ilog2_unique:
  assumes "2 powi k \<le> x" and "x < 2 powi (k + 1)"
  shows "ilog2 x = k"
proof -
  have x: "0 < x" using assms(1) by (meson less_le_trans zero_less_numeral zero_less_power_int)
  have "ilog2 x < k + 1"
    using ilog2_bounds(1) [OF x] assms(2) by (meson le_less_trans not_le power_int_increasing one_le_numeral)
  moreover have "k < ilog2 x + 1"
    using ilog2_bounds(2) [OF x] assms(1) by (meson le_less_trans not_le power_int_increasing one_le_numeral)
  ultimately show ?thesis by simp
qed

section \<open>Rounding to an integer\<close>

lemma round_even_of_int [simp]: "round_even (of_int n) = n"
  by (simp add: round_even_def)

lemma round_even_bounds: "\<lfloor>x\<rfloor> \<le> round_even x" "round_even x \<le> \<lceil>x\<rceil>"
proof -
  show "\<lfloor>x\<rfloor> \<le> round_even x" by (simp add: round_even_def Let_def)
  show "round_even x \<le> \<lceil>x\<rceil>"
  proof (cases "x = of_int \<lfloor>x\<rfloor>")
    case True
    then have "round_even x = \<lfloor>x\<rfloor>" by (metis round_even_of_int)
    then show ?thesis by (simp add: floor_le_ceiling)
  next
    case False
    then have "\<lceil>x\<rceil> = \<lfloor>x\<rfloor> + 1" by (simp add: ceiling_altdef)
    then show ?thesis by (simp add: round_even_def Let_def)
  qed
qed

lemma round_even_mono:
  assumes "x \<le> y"
  shows "round_even x \<le> round_even y"
proof (cases "\<lfloor>x\<rfloor> = \<lfloor>y\<rfloor>")
  case True
  then show ?thesis using assms by (auto simp: round_even_def Let_def)
next
  case False
  with assms have "\<lfloor>x\<rfloor> + 1 \<le> \<lfloor>y\<rfloor>" using floor_mono by fastforce
  moreover have "round_even x \<le> \<lfloor>x\<rfloor> + 1" by (simp add: round_even_def Let_def)
  ultimately show ?thesis using round_even_bounds(1) [of y] by simp
qed

section \<open>Rounding to 53 bits\<close>

lemma rd_pos_bounds:
  assumes "0 < x"
  shows "2 powi (ilog2 x) \<le> rd_pos x" and "rd_pos x \<le> 2 powi (ilog2 x + 1)"
proof -
  define e where "e = ilog2 x - 52"
  have split: "(2 :: rat) powi (ilog2 x) = 2 ^ 52 * 2 powi e"
      "(2 :: rat) powi (ilog2 x + 1) = 2 ^ 53 * 2 powi e"
    by (simp_all add: e_def power_int_diff power_int_add)
  have pos: "(0 :: rat) < 2 powi e" by simp
  have lo: "of_int (2 ^ 52) \<le> x / 2 powi e" and hi: "x / 2 powi e \<le> of_int (2 ^ 53)"
    using ilog2_bounds [OF assms] pos unfolding split by (simp_all add: field_simps)
  from round_even_mono [OF lo] round_even_mono [OF hi] have "2 ^ 52 \<le> round_even (x / 2 powi e)" and "round_even (x / 2 powi e) \<le> 2 ^ 53"
    by (simp_all only: round_even_of_int)
  then have "(2 :: rat) ^ 52 \<le> of_int (round_even (x / 2 powi e))"
    and "of_int (round_even (x / 2 powi e)) \<le> (2 :: rat) ^ 53"
    by (metis of_int_le_iff of_int_numeral of_int_power)+
  with pos show "2 powi (ilog2 x) \<le> rd_pos x" and "rd_pos x \<le> 2 powi (ilog2 x + 1)"
    unfolding split by (simp_all add: rd_pos_def Let_def flip: e_def)
qed

lemma rd_pos_positive: "0 < x \<Longrightarrow> 0 < rd_pos x"
  using rd_pos_bounds(1) [of x] by (meson less_le_trans zero_less_numeral zero_less_power_int)

lemma rd_pos_mono:
  assumes "0 < x" and "x \<le> y"
  shows "rd_pos x \<le> rd_pos y"
proof (cases "ilog2 x = ilog2 y")
  case True
  have "round_even (x / 2 powi (ilog2 y - 52)) \<le> round_even (y / 2 powi (ilog2 y - 52))"
    using assms(2) by (intro round_even_mono divide_right_mono) simp_all
  then show ?thesis using True by (simp add: rd_pos_def Let_def mult_right_mono)
next
  case False
  with ilog2_mono [OF assms] have "ilog2 x + 1 \<le> ilog2 y" by simp
  then have "(2 :: rat) powi (ilog2 x + 1) \<le> 2 powi (ilog2 y)" by (simp add: power_int_increasing)
  moreover have "0 < y" using assms by simp
  ultimately show ?thesis using rd_pos_bounds [OF assms(1)] rd_pos_bounds [of y] by force
qed

lemma rd_zero [simp]: "rd 0 = 0"
  by (simp add: rd_def)

lemma rd_minus: "rd (- x) = - rd x"
  by (auto simp: rd_def)

lemma rd_mono: "x \<le> y \<Longrightarrow> rd x \<le> rd y"
  using rd_pos_mono [of x y] rd_pos_mono [of "- y" "- x"] rd_pos_positive [of y]
    rd_pos_positive [of "- x"]
  by (auto simp: rd_def)

text \<open>A number with at most 53 significant bits is its own rounding.\<close>

lemma rd_exact:
  assumes "x = of_int m * 2 powi e" and "\<bar>m\<bar> \<le> 2 ^ 53"
  shows "rd x = x"
proof -
  have pos: "rd_pos z = z" if z: "z = of_int n * 2 powi e" and n: "0 < n" "n \<le> 2 ^ 53" for z n
  proof -
    define d where "d = ilog2 z - 52"
    have z0: "0 < z" unfolding z using n by simp
    show ?thesis
    proof (cases "d \<le> e")
      case True
      have "(2 :: rat) powi e = 2 powi (d + int (nat (e - d)))" using True by simp
      also have "\<dots> = 2 powi d * 2 ^ nat (e - d)" by (subst power_int_add) (simp, simp only: power_int_of_nat)
      finally have "z / 2 powi d = of_int (n * 2 ^ nat (e - d))" unfolding z by simp
      then have "round_even (z / 2 powi d) = n * 2 ^ nat (e - d)" by (metis round_even_of_int)
      then have "rd_pos z = of_int (n * 2 ^ nat (e - d)) * 2 powi d"
        by (simp add: rd_pos_def Let_def flip: d_def)
      also have "\<dots> = z / 2 powi d * 2 powi d" using \<open>z / 2 powi d = _\<close> by simp
      finally show ?thesis by simp
    next
      case False
      have "z \<le> 2 ^ 53 * 2 powi e" unfolding z using n(2)
        by (metis mult_right_mono of_int_le_iff of_int_numeral of_int_power less_imp_le
            zero_less_numeral zero_less_power_int)
      also have "\<dots> = 2 powi (e + 53)" by (simp add: power_int_add)
      also have "\<dots> \<le> 2 powi (ilog2 z)" using False d_def by (intro power_int_increasing) auto
      finally have "z = 2 powi (ilog2 z)" using ilog2_bounds(1) [OF z0] by simp
      with z0 have "z / 2 powi d = of_int (2 ^ 52)" unfolding d_def by (simp add: power_int_diff)
      then have "round_even (z / 2 powi d) = 2 ^ 52" by (metis round_even_of_int)
      then have "rd_pos z = of_int (2 ^ 52) * 2 powi d" by (simp add: rd_pos_def Let_def flip: d_def)
      also have "\<dots> = z / 2 powi d * 2 powi d" using \<open>z / 2 powi d = _\<close> by simp
      finally show ?thesis by simp
    qed
  qed
  consider "m = 0" | "0 < m" | "m < 0" by linarith
  then show ?thesis
  proof cases
    case 2
    then have "0 < x" using assms(1) by simp
    then show ?thesis using pos [OF assms(1) 2] assms(2) 2 by (simp add: rd_def)
  next
    case 3
    then have "x < 0" using assms(1) by (simp add: mult_less_0_iff)
    moreover have "rd_pos (- x) = - x" using pos [of "- x" "- m"] assms 3 by simp
    ultimately show ?thesis by (simp add: rd_def)
  qed (use assms in simp)
qed

lemma rd_of_int: "\<bar>n\<bar> \<le> 2 ^ 53 \<Longrightarrow> rd (of_int n) = of_int n"
  using rd_exact [of "of_int n" n 0] by simp

lemma rd_one [simp]: "rd 1 = 1"
  using rd_of_int [of 1] by simp

lemma rd_between: "of_int a \<le> x \<Longrightarrow> x \<le> of_int b \<Longrightarrow> \<bar>a\<bar> \<le> 2 ^ 53 \<Longrightarrow> \<bar>b\<bar> \<le> 2 ^ 53 \<Longrightarrow>
    of_int a \<le> rd x \<and> rd x \<le> of_int b"
  using rd_mono [of "of_int a" x] rd_mono [of x "of_int b"] by (simp add: rd_of_int)

end
