(* ===== verification/Proc_Metrics.thy ===== *)
theory Proc_Metrics
  imports Posix_Files Binary64 CString_Lib
begin

text \<open>
  The collectors that read one text file under \<open>/proc\<close>: \<open>CpuCollector\<close> (\<open>/proc/stat\<close>) and
  \<open>MemoryCollector\<close> (\<open>/proc/meminfo\<close>) of \<open>src/system_metrics.cpp\<close>, with the two scanners they
  share, \<open>findLinePrefix\<close> and \<open>parseNext\<close>. A pointer into the buffer is the text from it to
  \<open>end\<close>. \<open>IMetricCollector\<close> is the locale \<open>metric_collector\<close>.
\<close>

section \<open>Scanning a buffer\<close>

function findLinePrefix :: "string \<Rightarrow> string \<Rightarrow> string option" where
  "findLinePrefix p needle =
     (if p = [] then None
      else if prefix needle p then Some (drop (length needle) p)
      else (case dropWhile (\<lambda>c. c \<noteq> newline_char) p of
              [] \<Rightarrow> None
            | _ # r \<Rightarrow> findLinePrefix r needle))"
  by pat_completeness auto
termination
proof (relation "measure (length \<circ> fst)", goal_cases)
  case (2 p needle c r)
  then have "length (c # r) \<le> length p" by (metis length_dropWhile_le)
  then show ?case by simp
qed simp

declare findLinePrefix.simps [simp del]

text \<open>\<open>parseNext(p, end, out)\<close>: success, the value of \<open>out\<close> and the position afterwards. On a
  failure \<open>out\<close> keeps its value; the blanks before it are skipped in any case.\<close>

definition parseNext :: "string \<Rightarrow> u64 \<Rightarrow> bool \<times> u64 \<times> string" where
  "parseNext p out =
     (let p1 = dropWhile (\<lambda>c. c = CHR '' '') p in
      case from_chars_u64 p1 of
        Inl _ \<Rightarrow> (False, out, p1)
      | Inr (v, ptr) \<Rightarrow> (True, v, ptr))"

text \<open>The chain \<open>parseNext(p, end, a) && parseNext(p, end, b) && ...\<close> over \<open>n\<close> variables.\<close>

fun parse_chain :: "nat \<Rightarrow> string \<Rightarrow> u64 list option" where
  "parse_chain 0 p = Some []"
| "parse_chain (Suc n) p =
     (case parseNext p 0 of
        (False, _) \<Rightarrow> None
      | (True, v, p') \<Rightarrow> map_option ((#) v) (parse_chain n p'))"

text \<open>\<open>if (p) parseNext(p, end, field)\<close> after \<open>p = findLinePrefix(buf, len, key)\<close>.\<close>

definition readField :: "string \<Rightarrow> string \<Rightarrow> u64 \<Rightarrow> u64" where
  "readField buf key field =
     (case findLinePrefix buf key of
        None \<Rightarrow> field
      | Some p \<Rightarrow> fst (snd (parseNext p field)))"

section \<open>CpuCollector\<close>

record CpuStats =
  usage_percent :: rat
  context_switches :: u64
  interrupts :: u64
  softirqs :: u64

definition CpuStats_init :: CpuStats where
  "CpuStats_init = \<lparr>usage_percent = 0, context_switches = 0, interrupts = 0, softirqs = 0\<rparr>"

record CpuCollector =
  procStat :: string
  cpu_fd :: int
  prevIdle :: u64
  prevTotal :: u64

definition CpuCollector_new :: "string \<Rightarrow> os \<Rightarrow> CpuCollector \<times> os" where
  "CpuCollector_new path w =
     (let (fd, w') = os_open path w
      in (\<lparr>procStat = path, cpu_fd = fd, prevIdle = 0, prevTotal = 0\<rparr>, w'))"

definition CpuCollector_destroy :: "CpuCollector \<Rightarrow> os \<Rightarrow> os" where
  "CpuCollector_destroy c w = (if cpu_fd c \<noteq> - 1 then os_close (cpu_fd c) w else w)"

definition usage_of :: "u64 \<Rightarrow> u64 \<Rightarrow> rat" where
  "usage_of idleDelta totalDelta =
     d_mul 100 (d_sub 1 (d_div (d_of_u64 idleDelta) (d_of_u64 totalDelta)))"

text \<open>The part of \<open>collect\<close> that handles the aggregate \<open>cpu\<close> line.\<close>

definition cpu_line :: "string \<Rightarrow> CpuCollector \<Rightarrow> rat \<times> CpuCollector" where
  "cpu_line buf c =
     (case findLinePrefix buf ''cpu '' of
        None \<Rightarrow> (0, c)
      | Some p \<Rightarrow>
          (case parse_chain 8 p of
             None \<Rightarrow> (0, c)
           | Some f \<Rightarrow>
               let idleTime = f ! 3 + f ! 4;
                   totalTime = f ! 0 + f ! 1 + f ! 2 + f ! 3 + f ! 4 + f ! 5 + f ! 6 + f ! 7;
                   totalDelta = totalTime - prevTotal c;
                   idleDelta = idleTime - prevIdle c;
                   usage = (if prevTotal c > 0 \<and> totalDelta > 0
                            then usage_of idleDelta totalDelta else 0)
               in (usage, c\<lparr>prevIdle := idleTime, prevTotal := totalTime\<rparr>)))"

definition CpuCollector_collect :: "CpuCollector \<Rightarrow> os \<Rightarrow> CpuStats option \<times> CpuCollector" where
  "CpuCollector_collect c w =
     (if cpu_fd c = - 1 then (None, c)
      else (case os_pread (cpu_fd c) (16384 - 1) w of
          None \<Rightarrow> (None, c)
        | Some [] \<Rightarrow> (None, c)
        | Some buf \<Rightarrow>
            let (usage, c') = cpu_line buf c
            in (Some (CpuStats_init\<lparr>usage_percent := usage,
                  context_switches := readField buf ''ctxt '' 0,
                  interrupts := readField buf ''intr '' 0,
                  softirqs := readField buf ''softirq '' 0\<rparr>), c')))"

section \<open>MemoryCollector\<close>

record MemoryStats =
  mem_available_kb :: u64
  mem_free_kb :: u64
  swap_total_kb :: u64
  swap_free_kb :: u64
  buffers_kb :: u64

definition MemoryStats_init :: MemoryStats where
  "MemoryStats_init = \<lparr>mem_available_kb = 0, mem_free_kb = 0, swap_total_kb = 0,
     swap_free_kb = 0, buffers_kb = 0\<rparr>"

record MemoryCollector =
  procMeminfo :: string
  mem_fd :: int

definition MemoryCollector_new :: "string \<Rightarrow> os \<Rightarrow> MemoryCollector \<times> os" where
  "MemoryCollector_new path w =
     (let (fd, w') = os_open path w in (\<lparr>procMeminfo = path, mem_fd = fd\<rparr>, w'))"

definition MemoryCollector_destroy :: "MemoryCollector \<Rightarrow> os \<Rightarrow> os" where
  "MemoryCollector_destroy c w = (if mem_fd c \<noteq> - 1 then os_close (mem_fd c) w else w)"

definition MemoryCollector_collect :: "MemoryCollector \<Rightarrow> os \<Rightarrow> MemoryStats option" where
  "MemoryCollector_collect c w =
     (if mem_fd c = - 1 then None
      else (case os_pread (mem_fd c) (4096 - 1) w of
          None \<Rightarrow> None
        | Some [] \<Rightarrow> None
        | Some buf \<Rightarrow> Some (MemoryStats_init\<lparr>
            mem_available_kb := readField buf ''MemAvailable:'' 0,
            mem_free_kb := readField buf ''MemFree:'' 0,
            swap_total_kb := readField buf ''SwapTotal:'' 0,
            swap_free_kb := readField buf ''SwapFree:'' 0,
            buffers_kb := readField buf ''Buffers:'' 0\<rparr>)))"

section \<open>IMetricCollector\<close>

text \<open>The samples of a collector whose \<open>collect\<close> is called once in each of the given worlds.\<close>

fun poll_each :: "('s \<Rightarrow> 'w \<Rightarrow> 'r option \<times> 's) \<Rightarrow> 's \<Rightarrow> 'w list \<Rightarrow> 'r option list \<times> 's" where
  "poll_each f s [] = ([], s)"
| "poll_each f s (w # ws) =
     (let (r, s1) = f s w; (rs, s2) = poll_each f s1 ws in (r # rs, s2))"

text \<open>
  The contract of the interface (\<open>include/system_metrics.h\<close>, lines 105 to 114): the current
  metric values, or nothing when the source is unavailable. A collector may keep state between
  calls, but an unavailable source does not change it, and no call makes the source of a
  collector another one.
\<close>

locale metric_collector =
  fixes collect :: "'s \<Rightarrow> 'w \<Rightarrow> 'r option \<times> 's"
    and available :: "'s \<Rightarrow> 'w \<Rightarrow> bool"
  assumes collect_some: "available s w \<Longrightarrow> fst (collect s w) \<noteq> None"
    and collect_none: "\<not> available s w \<Longrightarrow> collect s w = (None, s)"
    and same_source: "available (snd (collect s w)) = available s"
begin

lemma collect_iff: "fst (collect s w) = None \<longleftrightarrow> \<not> available s w"
  using collect_some collect_none by force

lemma poll_length: "length (fst (poll_each collect s ws)) = length ws"
  by (induction ws arbitrary: s) (simp_all add: split_beta Let_def)

lemma poll_available: "map (\<lambda>r. r \<noteq> None) (fst (poll_each collect s ws)) = map (available s) ws"
proof (induction ws arbitrary: s)
  case (Cons w ws)
  then show ?case using collect_iff [of s w] same_source [of s w]
    by (simp add: split_beta Let_def del: not_None_eq)
qed simp

text \<open>Failed samples leave no trace: what the collector reports is what it would have reported
  had it only been called in the worlds where its source is available.\<close>

lemma poll_skips_unavailable:
  "filter (\<lambda>r. r \<noteq> None) (fst (poll_each collect s ws)) =
     fst (poll_each collect s (filter (available s) ws)) \<and>
   snd (poll_each collect s ws) = snd (poll_each collect s (filter (available s) ws))"
proof (induction ws arbitrary: s)
  case (Cons w ws)
  note IH = Cons [of "snd (collect s w)", unfolded same_source]
  show ?case
  proof (cases "available s w")
    case True
    then show ?thesis using IH collect_iff [of s w] by (simp add: split_beta Let_def)
  next
    case False
    then show ?thesis using IH collect_none [OF False] by (simp add: split_beta Let_def)
  qed
qed simp

end

text \<open>A source file is available when its descriptor is open and the file is not empty.\<close>

definition fd_available :: "int \<Rightarrow> os \<Rightarrow> bool" where
  "fd_available fd w \<longleftrightarrow> (\<exists>p s. os_path w fd = Some p \<and> os_files w p = Some s \<and> s \<noteq> [])"

lemma os_path_not_neg1: "os_path w fd = Some p \<Longrightarrow> fd \<noteq> - 1"
  by (auto simp: os.no_negative)

lemma fd_available_pread:
  assumes "fd_available fd w" and "0 < n"
  obtains c cs where "os_pread fd n w = Some (c # cs)" and "fd \<noteq> - 1"
proof -
  obtain p s where *: "os_path w fd = Some p" "os_files w p = Some s" "s \<noteq> []"
    using assms(1) by (auto simp: fd_available_def)
  then have "os_pread fd n w = Some (take n s)" by (simp add: os_pread_path)
  moreover have "take n s \<noteq> []" using * assms(2) by simp
  ultimately show ?thesis using that os_path_not_neg1 [OF *(1)] by (cases "take n s") auto
qed

lemma not_available_pread:
  assumes "\<not> fd_available fd w"
  shows "os_pread fd n w = None \<or> os_pread fd n w = Some []"
  using assms by (auto simp: fd_available_def os_pread_def split: option.splits)

lemma cpu_line_fd [simp]:
  "cpu_fd (snd (cpu_line buf c)) = cpu_fd c" "procStat (snd (cpu_line buf c)) = procStat c"
  by (auto simp: cpu_line_def Let_def split: option.splits)

lemma cpu_collect_fd [simp]: "cpu_fd (snd (CpuCollector_collect c w)) = cpu_fd c"
  by (auto simp: CpuCollector_collect_def split_beta Let_def split: option.splits list.splits)

interpretation cpu: metric_collector CpuCollector_collect "\<lambda>c. fd_available (cpu_fd c)"
proof unfold_locales
  fix c :: CpuCollector and w
  show "fd_available (cpu_fd c) w \<Longrightarrow> fst (CpuCollector_collect c w) \<noteq> None"
    by (erule fd_available_pread [where n = 16383])
      (simp_all add: CpuCollector_collect_def split_beta Let_def)
  show "\<not> fd_available (cpu_fd c) w \<Longrightarrow> CpuCollector_collect c w = (None, c)"
    by (drule not_available_pread [where n = 16383]) (auto simp: CpuCollector_collect_def)
qed simp

interpretation mem: metric_collector "\<lambda>c w. (MemoryCollector_collect c w, c)"
    "\<lambda>c. fd_available (mem_fd c)"
proof unfold_locales
  fix c :: MemoryCollector and w
  show "fd_available (mem_fd c) w \<Longrightarrow> fst (MemoryCollector_collect c w, c) \<noteq> None"
    by (erule fd_available_pread [where n = 4095]) (simp_all add: MemoryCollector_collect_def)
  show "\<not> fd_available (mem_fd c) w \<Longrightarrow> (MemoryCollector_collect c w, c) = (None, c)"
    by (drule not_available_pread [where n = 4095]) (auto simp: MemoryCollector_collect_def)
qed simp

section \<open>Scanning text made of lines\<close>

lemma findLinePrefix_Nil [simp]: "findLinePrefix [] needle = None"
  by (simp add: findLinePrefix.simps)

lemma prefix_app_newline:
  assumes "newline_char \<notin> set needle"
  shows "prefix needle (l @ newline_char # r) \<longleftrightarrow> prefix needle l"
proof
  assume "prefix needle (l @ newline_char # r)"
  then have "prefix needle l \<or> (\<exists>us. needle = l @ newline_char # us)"
    by (auto simp: prefix_append prefix_Cons)
  with assms show "prefix needle l" by auto
qed (simp add: prefix_prefix)

lemma findLinePrefix_line [scan_simps]:
  assumes "newline_char \<notin> set l" and "newline_char \<notin> set needle"
  shows "findLinePrefix (l @ newline_char # r) needle =
    (if prefix needle l then Some (drop (length needle) l @ newline_char # r)
     else findLinePrefix r needle)"
proof -
  have "\<forall>c \<in> set l. c \<noteq> newline_char" using assms(1) by auto
  then have d: "dropWhile (\<lambda>c. c \<noteq> newline_char) (l @ newline_char # r) = newline_char # r" by simp
  have "prefix needle l \<Longrightarrow> drop (length needle) (l @ newline_char # r) =
      drop (length needle) l @ newline_char # r"
    by (auto dest: prefix_length_le)
  then show ?thesis
    by (subst findLinePrefix.simps) (simp add: prefix_app_newline [OF assms(2)] d)
qed

text \<open>The search finds the needle exactly at the start of one of the lines.\<close>

lemma findLinePrefix_iff:
  assumes "newline_char \<notin> set needle" and "needle \<noteq> []"
  shows "findLinePrefix p needle \<noteq> None \<longleftrightarrow> (\<exists>l \<in> set (lines_of p). prefix needle l)"
  using assms
proof (induction p needle rule: findLinePrefix.induct)
  case (1 p needle)
  note nn = "1.prems"
  define l where "l = takeWhile (\<lambda>c. c \<noteq> newline_char) p"
  have nl: "newline_char \<notin> set l" unfolding l_def using set_takeWhileD by fastforce
  have p: "p = l @ dropWhile (\<lambda>c. c \<noteq> newline_char) p" by (simp add: l_def)
  show ?case
  proof (cases "dropWhile (\<lambda>c. c \<noteq> newline_char) p")
    case Nil
    with p have "p = l" by simp
    show ?thesis
    proof (cases "p = []")
      case False
      then have "findLinePrefix p needle =
          (if prefix needle p then Some (drop (length needle) p) else None)"
        by (subst findLinePrefix.simps) (simp only: Nil if_False list.case)
      moreover have "lines_of p = [p]" using lines_of_last [OF nl] False unfolding \<open>p = l\<close> .
      ultimately show ?thesis by simp
    qed simp
  next
    case (Cons c r)
    then have "c = newline_char" by (simp add: dropWhile_eq_Cons_conv)
    moreover have "p = l @ c # r" by (subst Cons [symmetric]) (rule p)
    ultimately have pl: "p = l @ newline_char # r" by simp
    show ?thesis
    proof (cases "prefix needle p")
      case True
      then show ?thesis using prefix_app_newline [OF nn(1), of l r] nl nn unfolding pl
        by (simp add: findLinePrefix_line)
    next
      case False
      have pne: "p \<noteq> []" using pl by simp
      note IH = "1.IH" [OF pne False Cons nn]
      show ?thesis using False IH nl nn prefix_app_newline [OF nn(1), of l r] unfolding pl
        by (simp add: findLinePrefix_line)
    qed
  qed
qed

lemma readField_line [scan_simps]:
  assumes "newline_char \<notin> set l" and "newline_char \<notin> set key"
  shows "readField (l @ newline_char # r) key d =
    (if prefix key l then fst (snd (parseNext (drop (length key) l @ newline_char # r) d))
     else readField r key d)"
  using assms by (simp add: readField_def findLinePrefix_line)

lemma not_digit_sep [simp]:
  "\<not> is_digit newline_char" "\<not> is_digit (CHR '' '')"
  by (simp_all add: is_digit_def)

lemma digit_not_newline: "is_digit c \<Longrightarrow> c \<noteq> newline_char"
  by auto

lemma newline_notin_digits [simp]: "newline_char \<notin> set (nat_digits n)"
  using nat_digits_digits [of n] digit_not_newline by blast

lemma dropWhile_blank_char:
  "dropWhile (\<lambda>c. c = CHR '' '') (replicate k (CHR '' '') @ nat_digits n @ r) = nat_digits n @ r"
proof -
  have "hd (nat_digits n) \<noteq> CHR '' ''"
    using nat_digits_hd_digit [of n] not_digit_sep(2) by metis
  then have "dropWhile (\<lambda>c. c = CHR '' '') (nat_digits n @ r) = nat_digits n @ r"
    by (cases "nat_digits n") auto
  then show ?thesis by (induction k) simp_all
qed

lemma parseNext_number [scan_simps]:
  assumes "r = [] \<or> \<not> is_digit (hd r)"
  shows "parseNext (replicate k (CHR '' '') @ nat_digits n @ r) d =
    (if n < 2 ^ 64 then (True, word_of_nat n, r) else (False, d, nat_digits n @ r))"
  by (simp add: parseNext_def dropWhile_blank_char from_chars_u64_digits [OF assms])

end
