(* ===== verification/Proc_Theorems.thy ===== *)
theory Proc_Theorems
  imports Proc_Metrics
begin

text \<open>
  What the \<open>/proc\<close> collectors compute: \<open>MemoryCollector\<close> is a lookup by key in the text of
  \<open>/proc/meminfo\<close>, whatever the order of its lines, and \<open>CpuCollector\<close> reports over the samples
  it is given the usage between each one and the one before, a percentage as long as the
  counters of the kernel only grow.
\<close>

section \<open>/proc/meminfo\<close>

text \<open>A line of the file: key, colon, blanks, number, unit.\<close>

record meminfo_entry =
  mi_key :: string
  mi_blanks :: nat
  mi_value :: u64
  mi_unit :: string

definition meminfo_line :: "meminfo_entry \<Rightarrow> string" where
  "meminfo_line e = mi_key e @ '':'' @ replicate (mi_blanks e) (CHR '' '') @
     nat_digits (unat (mi_value e)) @ mi_unit e"

definition meminfo_ok :: "meminfo_entry \<Rightarrow> bool" where
  "meminfo_ok e \<longleftrightarrow> CHR '':'' \<notin> set (mi_key e) \<and> newline_char \<notin> set (mi_key e) \<and>
     newline_char \<notin> set (mi_unit e) \<and> (mi_unit e = [] \<or> \<not> is_digit (hd (mi_unit e)))"

definition meminfo_text :: "meminfo_entry list \<Rightarrow> string" where
  "meminfo_text es = unlines (map meminfo_line es)"

text \<open>The reference: the first entry with the key, else what the rest of the text gives.\<close>

definition meminfo_field :: "meminfo_entry list \<Rightarrow> string \<Rightarrow> string \<Rightarrow> u64" where
  "meminfo_field es rest key =
     (case find (\<lambda>e. mi_key e = key) es of
        Some e \<Rightarrow> mi_value e
      | None \<Rightarrow> readField rest (key @ '':'') 0)"

lemma key_prefix_iff:
  assumes "x \<notin> set k" and "x \<notin> set k'"
  shows "prefix (k @ [x]) (k' @ x # r) \<longleftrightarrow> k = k'"
  using assms
proof (induction k arbitrary: k')
  case Nil
  then show ?case by (cases k') auto
next
  case (Cons c k)
  then show ?case by (cases k') auto
qed

lemma readField_meminfo:
  assumes "list_all meminfo_ok es" and "CHR '':'' \<notin> set key" and "newline_char \<notin> set key"
  shows "readField (meminfo_text es @ rest) (key @ '':'') 0 = meminfo_field es rest key"
  using assms(1)
proof (induction es)
  case Nil
  then show ?case by (simp add: meminfo_text_def meminfo_field_def)
next
  case (Cons e es)
  define rst where "rst = meminfo_text es @ rest"
  define r where "r = mi_unit e @ newline_char # rst"
  have ok: "meminfo_ok e" and IH: "readField rst (key @ '':'') 0 = meminfo_field es rest key"
    using Cons by (simp_all add: rst_def)
  have line: "meminfo_text (e # es) @ rest = meminfo_line e @ newline_char # rst"
    by (simp add: meminfo_text_def rst_def)
  have nl: "newline_char \<notin> set (meminfo_line e)"
    using ok by (auto simp: meminfo_ok_def meminfo_line_def)
  have pre: "prefix (key @ '':'') (meminfo_line e) \<longleftrightarrow> key = mi_key e"
    using key_prefix_iff [OF assms(2), of "mi_key e"] ok by (simp add: meminfo_line_def meminfo_ok_def)
  have r: "r = [] \<or> \<not> is_digit (hd r)"
    using ok by (cases "mi_unit e") (simp_all add: r_def meminfo_ok_def)
  have hit: "key = mi_key e \<Longrightarrow> fst (snd (parseNext
      (drop (length (key @ '':'')) (meminfo_line e) @ newline_char # rst) 0)) = mi_value e"
    using parseNext_number [OF r, of "mi_blanks e" "unat (mi_value e)" 0] unat_range_64 [of "mi_value e"]
    by (simp add: meminfo_line_def r_def)
  show ?case
    using assms(3) hit IH unfolding line
    by (simp add: readField_line nl pre meminfo_field_def eq_commute [of key])
qed

text \<open>C23. \<open>MemoryCollector::collect\<close> is a lookup by key. When the file starts with the well-formed
  lines \<open>es\<close>, in any order, within the 4095 bytes of the buffer, each of the five fields is the
  value of the first line with its key; only a key that is in none of these lines is looked for
  in what follows, as far as it is in the buffer (and is 0 when it is nowhere).\<close>

theorem meminfo_lookup:
  assumes "os_path w (mem_fd c) = Some p" and "os_files w p = Some (meminfo_text es @ rest)"
    and "list_all meminfo_ok es" and "es \<noteq> []" and "length (meminfo_text es) \<le> 4095"
  shows "MemoryCollector_collect c w =
    (let field = meminfo_field es (take (4095 - length (meminfo_text es)) rest)
     in Some \<lparr>mem_available_kb = field ''MemAvailable'', mem_free_kb = field ''MemFree'',
          swap_total_kb = field ''SwapTotal'', swap_free_kb = field ''SwapFree'',
          buffers_kb = field ''Buffers''\<rparr>)"
proof -
  define t where "t = take (4095 - length (meminfo_text es)) rest"
  have "os_pread (mem_fd c) 4095 w = Some (meminfo_text es @ t)"
    using assms by (simp add: os_pread_path t_def)
  moreover obtain x xs where "meminfo_text es @ t = x # xs"
    using assms(4) by (cases "meminfo_text es @ t") (auto simp: meminfo_text_def neq_Nil_conv)
  moreover have "mem_fd c \<noteq> - 1" using os_path_not_neg1 assms(1) by blast
  ultimately have "MemoryCollector_collect c w = Some (MemoryStats_init\<lparr>
      mem_available_kb := readField (meminfo_text es @ t) (''MemAvailable'' @ '':'') 0,
      mem_free_kb := readField (meminfo_text es @ t) (''MemFree'' @ '':'') 0,
      swap_total_kb := readField (meminfo_text es @ t) (''SwapTotal'' @ '':'') 0,
      swap_free_kb := readField (meminfo_text es @ t) (''SwapFree'' @ '':'') 0,
      buffers_kb := readField (meminfo_text es @ t) (''Buffers'' @ '':'') 0\<rparr>)"
    by (simp add: MemoryCollector_collect_def)
  moreover have key: "readField (meminfo_text es @ t) (k @ '':'') 0 = meminfo_field es t k"
    if "list_all (\<lambda>c. c \<noteq> CHR '':'' \<and> c \<noteq> newline_char) k" for k
    using that by (intro readField_meminfo [OF assms(3)]) (auto simp: list_all_iff)
  ultimately show ?thesis
    using key [of "''MemAvailable''"] key [of "''MemFree''"] key [of "''SwapTotal''"]
      key [of "''SwapFree''"] key [of "''Buffers''"]
    by (simp add: Let_def t_def [symmetric] MemoryStats_init_def)
qed

definition meminfo_world :: os where
  "meminfo_world = \<lparr>os_files = [''m'' \<mapsto> meminfo_text
       [\<lparr>mi_key = ''MemFree'', mi_blanks = 2, mi_value = 71, mi_unit = '' kB''\<rparr>] @ ''Buffers: 5''],
     os_dirs = Map.empty, os_present = (\<lambda>_. True), os_fds = [Some ''m'']\<rparr>"

lemma meminfo_lookup_witness:
  "MemoryCollector_collect \<lparr>procMeminfo = ''m'', mem_fd = 0\<rparr> meminfo_world =
    Some \<lparr>mem_available_kb = 0, mem_free_kb = 71, swap_total_kb = 0, swap_free_kb = 0,
      buffers_kb = 5\<rparr>"
proof -
  define es where "es = [\<lparr>mi_key = ''MemFree'', mi_blanks = 2, mi_value = 71, mi_unit = '' kB''\<rparr>]"
  have len: "length (meminfo_text es) = 16" unfolding es_def by code_simp
  have scan: "findLinePrefix ''Buffers: 5'' ''Buffers:'' = Some '' 5''"
    "findLinePrefix ''Buffers: 5'' ''MemAvailable:'' = None"
    "findLinePrefix ''Buffers: 5'' ''SwapTotal:'' = None"
    "findLinePrefix ''Buffers: 5'' ''SwapFree:'' = None" by code_simp+
  have "from_chars_u64 ''5'' = Inr (5, [])"
    by (simp add: from_chars_u64_def is_digit_def digits_val_def digit_val_def)
  then have "parseNext '' 5'' 0 = (True, 5, [])" by (simp add: parseNext_def)
  then have fields: "meminfo_field es ''Buffers: 5'' ''MemAvailable'' = 0"
    "meminfo_field es ''Buffers: 5'' ''MemFree'' = 71"
    "meminfo_field es ''Buffers: 5'' ''SwapTotal'' = 0"
    "meminfo_field es ''Buffers: 5'' ''SwapFree'' = 0"
    "meminfo_field es ''Buffers: 5'' ''Buffers'' = 5"
    by (simp_all add: meminfo_field_def es_def readField_def scan)
  have "list_all meminfo_ok es" unfolding es_def by code_simp
  then show ?thesis
    using meminfo_lookup [of meminfo_world "\<lparr>procMeminfo = ''m'', mem_fd = 0\<rparr>" "''m''" es
        "''Buffers: 5''"] fields
    by (simp add: meminfo_world_def os_path_def len Let_def flip: es_def) (simp add: es_def)
qed

section \<open>/proc/stat\<close>

text \<open>The aggregate line: \<open>cpu\<close>, blanks, the counters separated by blanks.\<close>

definition counters_text :: "u64 list \<Rightarrow> string" where
  "counters_text vs = concat (map (\<lambda>v. '' '' @ nat_digits (unat v)) vs)"

definition proc_stat :: "u64 list \<Rightarrow> string \<Rightarrow> string" where
  "proc_stat vs rest = ''cpu '' @ counters_text vs @ newline_char # rest"

text \<open>The reference: idle and total time of a sample and the usage between two, the share of the time
  that was not idle in percent, with each operation rounded.\<close>

definition idle_of :: "u64 list \<Rightarrow> u64" where
  "idle_of vs = vs ! 3 + vs ! 4"

definition total_of :: "u64 list \<Rightarrow> u64" where
  "total_of vs = sum_list (take 8 vs)"

definition usage_between :: "u64 list \<Rightarrow> u64 list \<Rightarrow> rat" where
  "usage_between prev cur =
     (if total_of prev = 0 \<or> total_of cur = total_of prev then 0
      else rd (100 * rd (1 - rd (rd (of_nat (unat (idle_of cur - idle_of prev))) /
        rd (of_nat (unat (total_of cur - total_of prev)))))))"

lemma usage_between_of:
  "usage_between prev cur = (if total_of prev = 0 \<or> total_of cur = total_of prev then 0
     else usage_of (idle_of cur - idle_of prev) (total_of cur - total_of prev))"
  by (simp add: usage_between_def usage_of_def d_mul_def d_sub_def d_div_def d_of_u64_def)

fun usages :: "u64 list \<Rightarrow> u64 list list \<Rightarrow> rat list" where
  "usages prev [] = []"
| "usages prev (s # ss) = usage_between prev s # usages s ss"

lemma counters_text_simps [simp]:
  "counters_text [] = []"
  "counters_text (v # vs) = CHR '' '' # nat_digits (unat v) @ counters_text vs"
  by (simp_all add: counters_text_def)

lemma counters_text_sep:
  "r = [] \<or> \<not> is_digit (hd r) \<Longrightarrow> counters_text vs @ r = [] \<or> \<not> is_digit (hd (counters_text vs @ r))"
  by (cases vs) simp_all

lemma newline_notin_counters [simp]: "newline_char \<notin> set (counters_text vs)"
  by (induction vs) simp_all

lemma parseNext_counter:
  assumes "r = [] \<or> \<not> is_digit (hd r)"
  shows "parseNext (CHR '' '' # nat_digits (unat v) @ r) d = (True, v, r)"
  using parseNext_number [OF assms, of 1 "unat v" d] unat_range_64 [of v] by simp

lemma parse_chain_counters:
  assumes "n \<le> length vs" and "r = [] \<or> \<not> is_digit (hd r)"
  shows "parse_chain n (counters_text vs @ r) = Some (take n vs)"
  using assms(1)
proof (induction n arbitrary: vs)
  case (Suc n)
  then obtain v vs' where vs: "vs = v # vs'" by (cases vs) auto
  show ?case using Suc.IH [of vs'] Suc.prems counters_text_sep [OF assms(2), of vs']
    by (simp add: vs parseNext_counter)
qed simp

lemma parse_chain_blank: "parse_chain 8 (CHR '' '' # p) = parse_chain 8 p"
proof -
  have "parseNext (CHR '' '' # p) d = parseNext p d" for d
    by (simp add: parseNext_def)
  then have "parse_chain (Suc n) (CHR '' '' # p) = parse_chain (Suc n) p" for n
    by (simp only: parse_chain.simps)
  from this [of 7] show ?thesis by simp
qed

lemma list_of_eight:
  assumes "length f = 8"
  shows "sum_list f = f ! 0 + f ! 1 + f ! 2 + f ! 3 + f ! 4 + f ! 5 + f ! 6 + (f ! 7 :: u64)"
proof -
  have *: "f = map ((!) f) [0..<8]" using map_nth [of f] assms by simp
  have "sum_list f = sum_list (map ((!) f) [0..<8])" using * by simp
  also have "[0..<8] = [0, 1, 2, 3, 4, 5, 6, 7 :: nat]" by (simp add: upt_rec)
  finally show ?thesis by (simp add: add.assoc)
qed

lemma word_positive:
  fixes a b :: u64
  shows "0 < a \<longleftrightarrow> a \<noteq> 0" and "0 < a - b \<longleftrightarrow> a \<noteq> b"
  by (simp_all flip: word_neq_0_conv)

lemma cpu_line_proc_stat:
  assumes "8 \<le> length vs"
  shows "cpu_line (proc_stat vs rest) c =
    (if prevTotal c = 0 \<or> total_of vs = prevTotal c then 0
     else usage_of (idle_of vs - prevIdle c) (total_of vs - prevTotal c),
     c\<lparr>prevIdle := idle_of vs, prevTotal := total_of vs\<rparr>)"
proof -
  have "findLinePrefix (proc_stat vs rest) ''cpu '' = Some (counters_text vs @ newline_char # rest)"
    using findLinePrefix_line [of "''cpu '' @ counters_text vs" "''cpu ''" rest]
    by (simp add: proc_stat_def)
  moreover have "parse_chain 8 (counters_text vs @ newline_char # rest) = Some (take 8 vs)"
    using parse_chain_counters [OF assms] by simp
  moreover have "length (take 8 vs) = 8" using assms by simp
  ultimately show ?thesis
    using list_of_eight [of "take 8 vs"]
    by (auto simp: cpu_line_def Let_def total_of_def idle_of_def word_positive)
qed

text \<open>A world in which the descriptor reads a file that starts with the sample.\<close>

definition shows_sample :: "int \<Rightarrow> os \<Rightarrow> u64 list \<Rightarrow> bool" where
  "shows_sample fd w vs \<longleftrightarrow> 8 \<le> length vs \<and>
     (\<exists>p rest. os_path w fd = Some p \<and> os_files w p = Some (proc_stat vs rest) \<and>
        length (proc_stat vs []) \<le> 16383)"

lemma collect_sample:
  assumes "shows_sample (cpu_fd c) w vs"
  shows "\<exists>st. fst (CpuCollector_collect c w) = Some st \<and>
     usage_percent st = (if prevTotal c = 0 \<or> total_of vs = prevTotal c then 0
       else usage_of (idle_of vs - prevIdle c) (total_of vs - prevTotal c)) \<and>
     snd (CpuCollector_collect c w) = c\<lparr>prevIdle := idle_of vs, prevTotal := total_of vs\<rparr>"
proof -
  obtain p rest where *: "os_path w (cpu_fd c) = Some p" "os_files w p = Some (proc_stat vs rest)"
    "length (proc_stat vs []) \<le> 16383" "8 \<le> length vs"
    using assms by (auto simp: shows_sample_def)
  define r where "r = take (16383 - length (proc_stat vs [])) rest"
  have "proc_stat vs rest = proc_stat vs [] @ rest" by (simp add: proc_stat_def)
  with * have "os_pread (cpu_fd c) 16383 w = Some (proc_stat vs [] @ r)"
    by (simp add: os_pread_path r_def)
  then have "os_pread (cpu_fd c) 16383 w = Some (proc_stat vs r)" by (simp add: proc_stat_def)
  moreover obtain x xs where "proc_stat vs r = x # xs" by (simp add: proc_stat_def)
  moreover have "cpu_fd c \<noteq> - 1" using os_path_not_neg1 *(1) by blast
  ultimately show ?thesis
    using cpu_line_proc_stat [OF *(4), of r c] by (simp add: CpuCollector_collect_def)
qed

text \<open>C7. Over any series of readable samples of \<open>/proc/stat\<close>, a freshly opened \<open>CpuCollector\<close>
  reports usage 0 first and then, at every call, the usage between the previous sample and this
  one: each call compares with the sample of the call before it, whatever else the file holds, and
  the idle and the total time of the last sample are what the collector keeps.\<close>

theorem cpu_usage_series:
  assumes "CpuCollector_new path w0 = (c, w1)" and "list_all2 (shows_sample (cpu_fd c)) ws (s # ss)"
  shows "map (map_option usage_percent) (fst (poll_each CpuCollector_collect c ws)) =
      map Some (0 # usages s ss) \<and>
    snd (poll_each CpuCollector_collect c ws) =
      c\<lparr>prevIdle := idle_of (last (s # ss)), prevTotal := total_of (last (s # ss))\<rparr>"
proof -
  have series: "map (map_option usage_percent) (fst (poll_each CpuCollector_collect k us)) =
      map Some (usages q qs) \<and>
    snd (poll_each CpuCollector_collect k us) =
      k\<lparr>prevIdle := idle_of (last (q # qs)), prevTotal := total_of (last (q # qs))\<rparr>"
    if "prevIdle k = idle_of q" "prevTotal k = total_of q" "list_all2 (shows_sample (cpu_fd k)) us qs"
    for k q us qs
    using that
  proof (induction qs arbitrary: k q us)
    case (Cons r rs)
    then obtain u us' where us: "us = u # us'" and u: "shows_sample (cpu_fd k) u r"
      and rest: "list_all2 (shows_sample (cpu_fd k)) us' rs" by (auto simp: list_all2_Cons2)
    obtain st where "fst (CpuCollector_collect k u) = Some st" "usage_percent st = usage_between q r"
      and k': "snd (CpuCollector_collect k u) = k\<lparr>prevIdle := idle_of r, prevTotal := total_of r\<rparr>"
      using collect_sample [OF u] Cons.prems by (auto simp: usage_between_of)
    then show ?case
      using Cons.IH [of "k\<lparr>prevIdle := idle_of r, prevTotal := total_of r\<rparr>" r us'] rest
      by (simp add: us split_beta Let_def)
  next
    case (Nil k)
    then show ?case by (cases k) simp
  qed
  obtain u us' where ws: "ws = u # us'" and u: "shows_sample (cpu_fd c) u s"
    and rest: "list_all2 (shows_sample (cpu_fd c)) us' ss" using assms(2) by (auto simp: list_all2_Cons2)
  have c: "prevTotal c = 0" using assms(1) by (auto simp: CpuCollector_new_def split: prod.splits)
  obtain st where "fst (CpuCollector_collect c u) = Some st" "usage_percent st = 0"
    and "snd (CpuCollector_collect c u) = c\<lparr>prevIdle := idle_of s, prevTotal := total_of s\<rparr>"
    using collect_sample [OF u] c by auto
  then show ?thesis
    using series [of "c\<lparr>prevIdle := idle_of s, prevTotal := total_of s\<rparr>" s us' ss] rest
    by (simp add: ws split_beta Let_def)
qed

definition stat_world :: "u64 list \<Rightarrow> os" where
  "stat_world vs = \<lparr>os_files = [''s'' \<mapsto> proc_stat vs ''ctxt 9''], os_dirs = Map.empty,
     os_present = (\<lambda>_. True), os_fds = [Some ''s'']\<rparr>"

lemma cpu_usage_series_witness:
  "let c = fst (CpuCollector_new ''s'' (stat_world [1,1,1,1,1,1,1,1]\<lparr>os_fds := []\<rparr>)) in
   map (map_option usage_percent) (fst (poll_each CpuCollector_collect c
       [stat_world [1,1,1,1,1,1,1,1], stat_world [2,1,1,1,2,1,1,1]])) =
     map Some (0 # usages [1,1,1,1,1,1,1,1] [[2,1,1,1,2,1,1,1]]) \<and>
   snd (poll_each CpuCollector_collect c
       [stat_world [1,1,1,1,1,1,1,1], stat_world [2,1,1,1,2,1,1,1]]) = c\<lparr>prevIdle := 3, prevTotal := 10\<rparr>"
proof -
  have d: "nat_digits (Suc 0) = ''1''" "nat_digits 2 = ''2''" by code_simp+
  have fd: "cpu_fd (fst (CpuCollector_new ''s'' (stat_world vs\<lparr>os_fds := []\<rparr>))) = 0" for vs
    by (simp add: CpuCollector_new_def os_open_def os_readable_def stat_world_def)
  have "list_all2 (shows_sample 0) [stat_world [1,1,1,1,1,1,1,1], stat_world [2,1,1,1,2,1,1,1]]
      [[1,1,1,1,1,1,1,1], [2,1,1,1,2,1,1,1]]"
    by (simp add: shows_sample_def stat_world_def os_path_def proc_stat_def d)
  with cpu_usage_series [OF surjective_pairing, of "''s''" "stat_world [1,1,1,1,1,1,1,1]\<lparr>os_fds := []\<rparr>"
      "[stat_world [1,1,1,1,1,1,1,1], stat_world [2,1,1,1,2,1,1,1]]" "[1,1,1,1,1,1,1,1]" "[[2,1,1,1,2,1,1,1]]"]
  show ?thesis unfolding Let_def fd by (simp add: idle_of_def total_of_def)
qed

section \<open>The usage is a percentage\<close>

lemma d_of_u64_bounds:
  assumes "a \<le> b" and "0 < b"
  shows "0 \<le> d_of_u64 a" and "d_of_u64 a \<le> d_of_u64 b" and "1 \<le> d_of_u64 b"
proof -
  have "(0 :: rat) \<le> of_nat (unat a)" by (rule of_nat_0_le_iff)
  from rd_mono [OF this] show "0 \<le> d_of_u64 a" by (simp add: d_of_u64_def)
  have "(of_nat (unat a) :: rat) \<le> of_nat (unat b)" using assms(1) by (simp only: word_le_nat_alt of_nat_le_iff)
  from rd_mono [OF this] show "d_of_u64 a \<le> d_of_u64 b" by (simp add: d_of_u64_def)
  have "1 \<le> unat b" using assms(2) by (simp add: word_less_nat_alt)
  then have "(1 :: rat) \<le> of_nat (unat b)" by (simp only: one_of_nat_le_iff)
  from rd_mono [OF this] show "1 \<le> d_of_u64 b" by (simp add: d_of_u64_def)
qed

lemma usage_of_range:
  assumes "a \<le> b" and "0 < b"
  shows "0 \<le> usage_of a b" and "usage_of a b \<le> 100"
proof -
  note d = d_of_u64_bounds [OF assms]
  define q where "q = d_div (d_of_u64 a) (d_of_u64 b)"
  have q: "0 \<le> q" "q \<le> 1"
    using rd_between [of 0 "d_of_u64 a / d_of_u64 b" 1] d by (simp_all add: q_def d_div_def)
  define r where "r = d_sub 1 q"
  have r: "0 \<le> r" "r \<le> 1" using rd_between [of 0 "1 - q" 1] q by (simp_all add: r_def d_sub_def)
  show "0 \<le> usage_of a b" and "usage_of a b \<le> 100"
    using rd_between [of 0 "100 * r" 100] r
    by (simp_all add: usage_of_def d_mul_def flip: q_def r_def)
qed

lemma usage_of_ends:
  assumes "0 < b"
  shows "usage_of b b = 0" and "usage_of 0 b = 100"
proof -
  have "d_of_u64 b / d_of_u64 b = 1" using d_of_u64_bounds(3) [OF order.refl assms] by simp
  then show "usage_of b b = 0" by (simp add: usage_of_def d_div_def d_sub_def d_mul_def)
  show "usage_of 0 b = 100"
    using rd_of_int [of 100] by (simp add: usage_of_def d_div_def d_sub_def d_mul_def d_of_u64_def)
qed


text \<open>The sum of the eight counters as a number, to say that it does not wrap.\<close>

definition no_wrap :: "u64 list \<Rightarrow> bool" where
  "no_wrap vs \<longleftrightarrow> sum_list (map unat (take 8 vs)) < 2 ^ 64"

definition counters_grow :: "u64 list \<Rightarrow> u64 list \<Rightarrow> bool" where
  "counters_grow prev cur \<longleftrightarrow> list_all2 (\<le>) (take 8 prev) (take 8 cur)"

lemma unat_sum_list:
  "sum_list (map unat vs) < 2 ^ 64 \<Longrightarrow> unat (sum_list vs :: u64) = sum_list (map unat vs)"
proof (induction vs)
  case (Cons v vs)
  then have "unat v + unat (sum_list vs) < 2 ^ 64" by simp
  then have "unat (v + sum_list vs) = unat v + unat (sum_list vs)"
    by (simp add: unat_word_ariths)
  with Cons show ?case by simp
qed simp

lemma sum_list_eight:
  fixes f :: "nat list"
  assumes "length f = 8"
  shows "sum_list f = f ! 0 + f ! 1 + f ! 2 + f ! 3 + f ! 4 + f ! 5 + f ! 6 + f ! 7"
proof -
  have *: "f = map ((!) f) [0..<8]" using map_nth [of f] assms by simp
  have "sum_list f = sum_list (map ((!) f) [0..<8])" using * by simp
  also have "[0..<8] = [0, 1, 2, 3, 4, 5, 6, 7 :: nat]" by (simp add: upt_rec)
  finally show ?thesis by (simp add: add.assoc)
qed

text \<open>Idle time is part of the total, so with growing counters it grows by no more.\<close>

lemma idle_delta_le:
  assumes "8 \<le> length prev" and "counters_grow prev cur" and "no_wrap cur"
  shows "idle_of cur - idle_of prev \<le> total_of cur - total_of prev"
proof -
  define p where "p = map unat (take 8 prev)"
  define q where "q = map unat (take 8 cur)"
  have len: "length p = 8" "length q = 8" "8 \<le> length cur"
    using assms(1) list_all2_lengthD [OF assms(2) [unfolded counters_grow_def]]
    by (simp_all add: p_def q_def)
  have le: "p ! i \<le> q ! i" if "i < 8" for i
    using list_all2_nthD [OF assms(2) [unfolded counters_grow_def], of i] that assms(1) len(3)
    by (simp add: p_def q_def word_le_nat_alt)
  note les = le [of 0] le [of 1] le [of 2] le [of 3] le [of 4] le [of 5] le [of 6] le [of 7]
  have q64: "sum_list q < 2 ^ 64" using assms(3) by (simp add: no_wrap_def q_def)
  then have p64: "sum_list p < 2 ^ 64"
    using les by (simp add: sum_list_eight [OF len(1)] sum_list_eight [OF len(2)])
  have tot: "unat (total_of prev) = sum_list p" "unat (total_of cur) = sum_list q"
    using unat_sum_list p64 q64 by (simp_all add: total_of_def p_def q_def)
  have nth: "p ! i = unat (prev ! i)" "q ! i = unat (cur ! i)" if "i < 8" for i
    using that assms(1) len(3) by (simp_all add: p_def q_def)
  have idle: "unat (idle_of prev) = p ! 3 + p ! 4" "unat (idle_of cur) = q ! 3 + q ! 4"
    using p64 q64 by (simp_all add: idle_of_def unat_word_ariths nth sum_list_eight [OF len(1)]
        sum_list_eight [OF len(2)])
  have "idle_of prev \<le> idle_of cur" and "total_of prev \<le> total_of cur"
    using les by (simp_all add: word_le_nat_alt idle tot sum_list_eight [OF len(1)] sum_list_eight [OF len(2)])
  then have "unat (idle_of cur - idle_of prev) = (q ! 3 + q ! 4) - (p ! 3 + p ! 4)"
    and "unat (total_of cur - total_of prev) = sum_list q - sum_list p"
    by (simp_all add: unat_sub idle tot)
  then show ?thesis
    using les by (simp add: word_le_nat_alt sum_list_eight [OF len(1)] sum_list_eight [OF len(2)])
qed

text \<open>What \<open>collect\<close> reports at the second of two samples.\<close>

lemma second_sample:
  assumes "shows_sample (cpu_fd c) w1 prev" and "shows_sample (cpu_fd c) w2 cur"
  shows "\<exists>st. fst (CpuCollector_collect (snd (CpuCollector_collect c w1)) w2) = Some st \<and>
    usage_percent st = usage_between prev cur"
  using collect_sample [OF assms(1)] collect_sample [of "c\<lparr>prevIdle := idle_of prev, prevTotal := total_of prev\<rparr>" w2 cur] assms(2)
  by (auto simp: usage_between_of)

lemma usage_range:
  assumes "8 \<le> length prev" and "counters_grow prev cur" and "no_wrap cur"
  shows "0 \<le> usage_between prev cur \<and> usage_between prev cur \<le> 100 \<and>
    (idle_of cur - idle_of prev = total_of cur - total_of prev \<longrightarrow> usage_between prev cur = 0) \<and>
    (idle_of cur = idle_of prev \<and> total_of prev \<noteq> 0 \<and> total_of cur \<noteq> total_of prev \<longrightarrow>
       usage_between prev cur = 100)"
  using usage_of_range [OF idle_delta_le [OF assms]] usage_of_ends
    word_positive(2) [of "total_of cur" "total_of prev"]
  by (auto simp: usage_between_of)

lemma only_idle:
  assumes "8 \<le> length prev" and "8 \<le> length cur" and "\<And>i. i < 8 \<Longrightarrow> i \<noteq> 3 \<Longrightarrow> i \<noteq> 4 \<Longrightarrow> cur ! i = prev ! i"
  shows "idle_of cur - idle_of prev = total_of cur - total_of prev"
  using list_of_eight [of "take 8 prev"] list_of_eight [of "take 8 cur"] assms(1,2)
    assms(3) [of 0] assms(3) [of 1] assms(3) [of 2] assms(3) [of 5] assms(3) [of 6] assms(3) [of 7]
  by (simp add: idle_of_def total_of_def)

text \<open>With growing counters the total stands still only when all of them do.\<close>

lemma total_moves:
  assumes "8 \<le> length prev" and "counters_grow prev cur" and "no_wrap cur"
  shows "total_of cur = total_of prev \<Longrightarrow> take 8 cur = take 8 prev" and "i < 8 \<Longrightarrow> prev ! i \<noteq> 0 \<Longrightarrow> total_of prev \<noteq> 0"
proof -
  define p q where "p = map unat (take 8 prev)" and "q = map unat (take 8 cur)"
  have len: "length p = 8" "length q = 8" "8 \<le> length cur"
    using assms(1) list_all2_lengthD [OF assms(2) [unfolded counters_grow_def]]
    by (simp_all add: p_def q_def)
  have le: "p ! j \<le> q ! j" if "j < 8" for j
    using list_all2_nthD [OF assms(2) [unfolded counters_grow_def], of j] that assms(1) len(3)
    by (simp add: p_def q_def word_le_nat_alt)
  note les = le [of 0] le [of 1] le [of 2] le [of 3] le [of 4] le [of 5] le [of 6] le [of 7]
  note sums = sum_list_eight [OF len(1)] sum_list_eight [OF len(2)]
  have q64: "sum_list q < 2 ^ 64" using assms(3) by (simp add: no_wrap_def q_def)
  then have "sum_list p < 2 ^ 64" using les by (simp add: sums)
  with q64 have tot: "unat (total_of prev) = sum_list p" "unat (total_of cur) = sum_list q"
    using unat_sum_list by (simp_all add: total_of_def p_def q_def)
  have eight: "j \<in> {0, 1, 2, 3, 4, 5, 6, 7}" if "j < 8" for j :: nat using that by auto
  show "take 8 cur = take 8 prev" if "total_of cur = total_of prev"
  proof (rule nth_equalityI)
    show "take 8 cur ! j = take 8 prev ! j" if "j < length (take 8 cur)" for j
    proof -
      have j: "j < 8" using that len(3) by simp
      have "sum_list q = sum_list p" using tot \<open>total_of cur = total_of prev\<close> by simp
      then have "q ! j = p ! j" using eight [OF j] les by (auto simp: sums)
      then show ?thesis using j assms(1) len(3) by (simp add: p_def q_def word_unat_eq_iff)
    qed
  qed (use assms(1) len(3) in simp)
  show "total_of prev \<noteq> 0" if i: "i < 8" "prev ! i \<noteq> 0"
  proof -
    have "0 < p ! i" using i assms(1) by (simp add: p_def unat_gt_0)
    then have "0 < sum_list p" using eight [OF i(1)] by (auto simp: sums)
    then have "unat (total_of prev) \<noteq> 0" unfolding tot(1) by linarith
    then show ?thesis by auto
  qed
qed

text \<open>C26. When \<open>collect\<close> reads two samples whose eight counters did not decrease, and whose sum fits 64
  bits, the usage it reports at the second, as the code rounds it, is a percentage: it lies between
  0 and 100, is 0 when only \<open>idle\<close> and \<open>iowait\<close> moved and 100 when other counters moved and these
  two did not.\<close>

theorem cpu_usage_is_percentage:
  assumes "shows_sample (cpu_fd c) w1 prev" and "shows_sample (cpu_fd c) w2 cur"
    and "counters_grow prev cur" and "no_wrap cur"
  shows "\<exists>st. fst (CpuCollector_collect (snd (CpuCollector_collect c w1)) w2) = Some st \<and>
    0 \<le> usage_percent st \<and> usage_percent st \<le> 100 \<and>
    ((\<forall>i < 8. i \<noteq> 3 \<and> i \<noteq> 4 \<longrightarrow> cur ! i = prev ! i) \<longrightarrow> usage_percent st = 0) \<and>
    (cur ! 3 = prev ! 3 \<and> cur ! 4 = prev ! 4 \<and> (\<exists>i < 8. prev ! i \<noteq> 0) \<and> (\<exists>i < 8. cur ! i \<noteq> prev ! i) \<longrightarrow>
       usage_percent st = 100)"
proof -
  have len: "8 \<le> length prev" "8 \<le> length cur" using assms(1,2) by (simp_all add: shows_sample_def)
  note range = usage_range [OF len(1) assms(3,4)] and total = total_moves [OF len(1) assms(3,4)]
  have idle: "usage_between prev cur = 0" if "\<forall>i < 8. i \<noteq> 3 \<and> i \<noteq> 4 \<longrightarrow> cur ! i = prev ! i"
    using range only_idle [OF len] that by blast
  have busy: "usage_between prev cur = 100"
    if "cur ! 3 = prev ! 3" "cur ! 4 = prev ! 4" "i < 8" "prev ! i \<noteq> 0" "j < 8" "cur ! j \<noteq> prev ! j" for i j
  proof -
    have "take 8 cur \<noteq> take 8 prev" using that(5,6) by (metis nth_take)
    with range total that show ?thesis by (auto simp: idle_of_def)
  qed
  obtain st where st: "fst (CpuCollector_collect (snd (CpuCollector_collect c w1)) w2) = Some st"
    "usage_percent st = usage_between prev cur" using second_sample [OF assms(1,2)] by blast
  from range idle busy show ?thesis
    by (intro exI [of _ st] conjI impI) (simp_all only: st, blast+)
qed

text \<open>A collector on the files of \<open>stat_world\<close>, and that these show their samples.\<close>

definition stat_collector :: CpuCollector where
  "stat_collector = \<lparr>procStat = ''s'', cpu_fd = 0, prevIdle = 0, prevTotal = 0\<rparr>"

lemma stat_world_shows:
  "8 \<le> length vs \<Longrightarrow> length (proc_stat vs []) \<le> 16383 \<Longrightarrow> shows_sample (cpu_fd stat_collector) (stat_world vs) vs"
  by (auto simp: shows_sample_def stat_world_def os_path_def stat_collector_def)

lemma cpu_usage_is_percentage_witness:
  "\<exists>st. fst (CpuCollector_collect (snd (CpuCollector_collect stat_collector (stat_world [1,1,1,1,1,1,1,1])))
      (stat_world [2,1,1,1,1,1,1,1])) = Some st \<and> usage_percent st = 100"
proof -
  have len: "length (proc_stat vs []) \<le> 16383" if "vs = [1,1,1,1,1,1,1,1] \<or> vs = [2,1,1,1,1,1,1,1]" for vs
    using that by (elim disjE) (simp_all only:, code_simp+)
  have move: "(\<exists>i < 8. [1,1,1,1,1,1,1,1] ! i \<noteq> (0 :: u64))" "(\<exists>i < 8. [2,1,1,1,1,1,1,1] ! i \<noteq> [1,1,1,1,1,1,1,1 :: u64] ! i)"
    by (rule exI [of _ 0], simp)+
  show ?thesis
    using cpu_usage_is_percentage [OF stat_world_shows stat_world_shows, OF _ len _ len, of "[1,1,1,1,1,1,1,1]" "[2,1,1,1,1,1,1,1]"]
      move by (auto simp: counters_grow_def no_wrap_def)
qed




end
