(* ===== verification/Sensor_Metrics.thy ===== *)
theory Sensor_Metrics
  imports Proc_Metrics "HOL-Library.AList"
begin

text \<open>
  The collectors under \<open>/sys\<close> of \<open>src/system_metrics.cpp\<close>: \<open>NetworkCollector\<close> (one counter per
  file, seven files per interface) and \<open>TemperatureCollector\<close> (the labelled temperature zones of
  the configured hwmon sensors). Both keep descriptors open between reads. The lemmas say
  which descriptors are held after any use of the operations, and what \<open>collect\<close> returns.
\<close>

section \<open>NetworkCollector\<close>

record NetworkStats =
  rx_packets :: u64
  tx_packets :: u64
  rx_dropped :: u64
  tx_dropped :: u64
  rx_errors :: u64
  tx_errors :: u64
  collisions :: u64

definition NetworkStats_init :: NetworkStats where
  "NetworkStats_init = \<lparr>rx_packets = 0, tx_packets = 0, rx_dropped = 0, tx_dropped = 0,
     rx_errors = 0, tx_errors = 0, collisions = 0\<rparr>"

text \<open>\<open>uint64_t NetworkStats::*\<close>: a pointer to one of the members, and the write through it.\<close>

datatype net_field = RxPackets | TxPackets | RxDropped | TxDropped | RxErrors | TxErrors | Collisions

fun set_net_field :: "net_field \<Rightarrow> u64 \<Rightarrow> NetworkStats \<Rightarrow> NetworkStats" where
  "set_net_field RxPackets v s = s\<lparr>rx_packets := v\<rparr>"
| "set_net_field TxPackets v s = s\<lparr>tx_packets := v\<rparr>"
| "set_net_field RxDropped v s = s\<lparr>rx_dropped := v\<rparr>"
| "set_net_field TxDropped v s = s\<lparr>tx_dropped := v\<rparr>"
| "set_net_field RxErrors v s = s\<lparr>rx_errors := v\<rparr>"
| "set_net_field TxErrors v s = s\<lparr>tx_errors := v\<rparr>"
| "set_net_field Collisions v s = s\<lparr>collisions := v\<rparr>"

definition kNetworkMetrics :: "(string \<times> net_field) list" where
  "kNetworkMetrics =
     [(''rx_packets'', RxPackets), (''tx_packets'', TxPackets), (''rx_dropped'', RxDropped),
      (''tx_dropped'', TxDropped), (''rx_errors'', RxErrors), (''tx_errors'', TxErrors),
      (''collisions'', Collisions)]"

record MetricEntry =
  me_path :: string
  me_fd :: int
  me_field :: "net_field option"

record NetworkCollector =
  net_interface :: string
  netStatsBase :: string
  metricEntries :: "MetricEntry list"

definition NetworkCollector_new :: "string \<Rightarrow> NetworkCollector" where
  "NetworkCollector_new base = \<lparr>net_interface = [], netStatsBase = base,
     metricEntries = replicate 7 \<lparr>me_path = [], me_fd = - 1, me_field = None\<rparr>\<rparr>"

definition closeFds :: "NetworkCollector \<Rightarrow> os \<Rightarrow> NetworkCollector \<times> os" where
  "closeFds c w =
     (c\<lparr>metricEntries := map (\<lambda>e. e\<lparr>me_fd := - 1\<rparr>) (metricEntries c)\<rparr>,
      close_each os_close (map me_fd (metricEntries c)) w)"

definition NetworkCollector_destroy :: "NetworkCollector \<Rightarrow> os \<Rightarrow> os" where
  "NetworkCollector_destroy c w = snd (closeFds c w)"

definition metric_path :: "string \<Rightarrow> string \<Rightarrow> string \<Rightarrow> string" where
  "metric_path base iface name = base @ ''/'' @ iface @ ''/statistics'' @ ''/'' @ name"

definition NetworkCollector_setInterface ::
    "string \<Rightarrow> NetworkCollector \<Rightarrow> os \<Rightarrow> NetworkCollector \<times> os" where
  "NetworkCollector_setInterface iface c w =
     (let (c1, w1) = closeFds c w;
          paths = map (\<lambda>(name, _). metric_path (netStatsBase c1) iface name) kNetworkMetrics;
          (fds, w2) = open_each os_open paths w1
      in (c1\<lparr>net_interface := iface,
             metricEntries := map (\<lambda>((p, fd), (_, f)). \<lparr>me_path = p, me_fd = fd, me_field = Some f\<rparr>)
               (zip (zip paths fds) kNetworkMetrics)\<rparr>, w2))"

text \<open>The loop of \<open>collect\<close>: it returns at the first counter that cannot be read. The write
  through a null member pointer cannot be reached: see \<open>net_inv\<close>.\<close>

fun read_entries :: "MetricEntry list \<Rightarrow> os \<Rightarrow> NetworkStats \<Rightarrow> NetworkStats option" where
  "read_entries [] w s = Some s"
| "read_entries (e # es) w s =
     (if me_fd e = - 1 then None
      else (case os_pread (me_fd e) (32 - 1) w of
          None \<Rightarrow> None
        | Some [] \<Rightarrow> None
        | Some buf \<Rightarrow>
            (case from_chars_u64 buf of
               Inl _ \<Rightarrow> None
             | Inr (v, _) \<Rightarrow>
                 read_entries es w (case me_field e of Some f \<Rightarrow> set_net_field f v s | None \<Rightarrow> s))))"

definition NetworkCollector_collect :: "NetworkCollector \<Rightarrow> os \<Rightarrow> NetworkStats option" where
  "NetworkCollector_collect c w =
     (if net_interface c = [] then None else read_entries (metricEntries c) w NetworkStats_init)"

section \<open>TemperatureCollector\<close>

record TempZone =
  tz_sensor :: string
  tz_label :: string
  tz_inputPath :: string
  tz_fd :: int

record TemperatureMetric =
  tm_sensor :: string
  tm_label :: string
  tm_temperature :: i32

definition path_join :: "string \<Rightarrow> string \<Rightarrow> string" where
  "path_join p f = (if p = [] \<or> hd (rev p) = CHR ''/'' then p @ f else p @ ''/'' @ f)"

text \<open>\<open>std::ifstream s(path); std::getline(s, line)\<close>: the first line, if there is one.\<close>

definition read_first_line :: "os \<Rightarrow> string \<Rightarrow> string option" where
  "read_first_line w p = (case os_files w p of None \<Rightarrow> None
     | Some s \<Rightarrow> (case lines_of s of [] \<Rightarrow> None | l # _ \<Rightarrow> Some l))"

text \<open>The first loop of the constructor; \<open>sensorToPath[name] = path\<close> on an unordered map.\<close>

fun scan_sensors :: "string set \<Rightarrow> string \<Rightarrow> os \<Rightarrow> (string \<times> bool) list \<Rightarrow>
    (string \<times> string) list \<Rightarrow> (string \<times> string) list" where
  "scan_sensors sensors hwmon w [] m = m"
| "scan_sensors sensors hwmon w ((entry, is_directory) # es) m =
     (if \<not> is_directory then scan_sensors sensors hwmon w es m
      else (case read_first_line w (path_join (path_join hwmon entry) ''name'') of
          None \<Rightarrow> scan_sensors sensors hwmon w es m
        | Some name \<Rightarrow> scan_sensors sensors hwmon w es
            (if name \<in> sensors then AList.update name (path_join hwmon entry) m else m)))"

definition is_label_file :: "string \<Rightarrow> bool" where
  "is_label_file filename \<longleftrightarrow>
     find_pos ''temp'' filename = Some 0 \<and> find_pos ''_label'' filename \<noteq> None"

definition input_path :: "string \<Rightarrow> i32 \<Rightarrow> string" where
  "input_path path num = path_join path (''temp'' @ show_int (sint num) @ ''_input'')"

text \<open>The inner loop: the files of one sensor. \<open>std::stoi\<close> may throw out of it.\<close>

fun scan_zones :: "string \<Rightarrow> string \<Rightarrow> string list \<Rightarrow> TempZone list \<Rightarrow> os \<Rightarrow>
    (exn + TempZone list) \<times> os" where
  "scan_zones sensor path [] zones w = (Inr zones, w)"
| "scan_zones sensor path (filename # fs) zones w =
     (if \<not> is_label_file filename then scan_zones sensor path fs zones w
      else (case stoi (drop 4 filename) of
          Inl e \<Rightarrow> (Inl e, w)
        | Inr num \<Rightarrow>
            (case read_first_line w (path_join path filename) of
               None \<Rightarrow> scan_zones sensor path fs zones w
             | Some label \<Rightarrow>
                 if \<not> os_present w (input_path path num) then scan_zones sensor path fs zones w
                 else
                   let (fd, w') = os_open (input_path path num) w in
                   if fd = - 1 then scan_zones sensor path fs zones w'
                   else scan_zones sensor path fs
                     (zones @ [\<lparr>tz_sensor = sensor, tz_label = label,
                        tz_inputPath = input_path path num, tz_fd = fd\<rparr>]) w')))"

text \<open>The second loop of the constructor, over the map: a \<open>filesystem_error\<close> from the iterator
  is caught and logged, an exception of \<open>std::stoi\<close> is not.\<close>

fun scan_each :: "(string \<times> string) list \<Rightarrow> TempZone list \<Rightarrow> os \<Rightarrow> (exn + TempZone list) \<times> os" where
  "scan_each [] zones w = (Inr zones, w)"
| "scan_each ((sensor, path) # sps) zones w =
     (case os_dirs w path of
        None \<Rightarrow> scan_each sps zones w
      | Some es \<Rightarrow>
          (case scan_zones sensor path (map fst es) zones w of
             (Inl e, w') \<Rightarrow> (Inl e, w')
           | (Inr zones', w') \<Rightarrow> scan_each sps zones' w'))"

text \<open>The constructor. \<open>order\<close> is the order in which the unordered map is iterated, which the
  standard leaves open.\<close>

definition TemperatureCollector_new ::
    "((string \<times> string) list \<Rightarrow> (string \<times> string) list) \<Rightarrow> string set \<Rightarrow> string \<Rightarrow> os \<Rightarrow>
     (exn + TempZone list) \<times> os" where
  "TemperatureCollector_new order sensors hwmonPath w =
     (case os_dirs w hwmonPath of
        None \<Rightarrow> (Inr [], w)
      | Some es \<Rightarrow> scan_each (order (scan_sensors sensors hwmonPath w es [])) [] w)"

definition TemperatureCollector_destroy :: "TempZone list \<Rightarrow> os \<Rightarrow> os" where
  "TemperatureCollector_destroy zones w = close_each os_close (map tz_fd zones) w"

fun read_zones :: "TempZone list \<Rightarrow> os \<Rightarrow> TemperatureMetric list" where
  "read_zones [] w = []"
| "read_zones (z # zs) w =
     (case os_pread (tz_fd z) (16 - 1) w of
        None \<Rightarrow> read_zones zs w
      | Some [] \<Rightarrow> read_zones zs w
      | Some buf \<Rightarrow>
          (case from_chars_i32 buf of
             Inl _ \<Rightarrow> read_zones zs w
           | Inr (temp, _) \<Rightarrow>
               \<lparr>tm_sensor = tz_sensor z, tm_label = tz_label z, tm_temperature = temp\<rparr> # read_zones zs w))"

definition TemperatureCollector_collect :: "TempZone list \<Rightarrow> os \<Rightarrow> TemperatureMetric list option" where
  "TemperatureCollector_collect zones w = Some (read_zones zones w)"

interpretation temperature: metric_collector "\<lambda>zones w. (TemperatureCollector_collect zones w, zones)"
    "\<lambda>_ _. True"
  by unfold_locales (simp_all add: TemperatureCollector_collect_def)

text \<open>The value one entry yields, if any; a network source is available when every counter of
  the interface yields one.\<close>

definition entry_value :: "MetricEntry \<Rightarrow> os \<Rightarrow> u64 option" where
  "entry_value e w =
     (case os_pread (me_fd e) 31 w of
        Some (b # bs) \<Rightarrow> (case from_chars_u64 (b # bs) of Inl _ \<Rightarrow> None | Inr (v, _) \<Rightarrow> Some v)
      | _ \<Rightarrow> None)"

definition net_available :: "NetworkCollector \<Rightarrow> os \<Rightarrow> bool" where
  "net_available c w \<longleftrightarrow> net_interface c \<noteq> [] \<and> list_all (\<lambda>e. entry_value e w \<noteq> None) (metricEntries c)"

lemma pread_neg1 [simp]: "os_pread (- 1) n w = None"
  by (simp add: os_pread_def os.no_negative)

lemma read_entries_Cons:
  "read_entries (e # es) w s =
     (case entry_value e w of None \<Rightarrow> None
      | Some v \<Rightarrow> read_entries es w (case me_field e of Some f \<Rightarrow> set_net_field f v s | None \<Rightarrow> s))"
  by (cases "me_fd e = - 1")
    (simp_all add: entry_value_def split: option.split list.split sum.split)

lemma read_entries_None: "read_entries es w s = None \<longleftrightarrow> \<not> list_all (\<lambda>e. entry_value e w \<noteq> None) es"
proof (induction es arbitrary: s)
  case (Cons e es)
  then show ?case by (cases "entry_value e w") (simp_all add: read_entries_Cons del: read_entries.simps(2))
qed simp

interpretation net: metric_collector "\<lambda>c w. (NetworkCollector_collect c w, c)" net_available
  by unfold_locales
    (simp_all add: NetworkCollector_collect_def net_available_def read_entries_None del: not_None_eq,
     auto)

section \<open>Descriptors held by a network collector\<close>

text \<open>
  The entries of a collector against the descriptor table: an open descriptor belongs to the
  path of its entry and no two entries share one. An entry with a descriptor has its member
  pointer, so the write in \<open>collect\<close> never goes through the null pointer.
\<close>

definition net_inv :: "NetworkCollector \<Rightarrow> os \<Rightarrow> bool" where
  "net_inv c w \<longleftrightarrow>
     (\<forall>e \<in> set (metricEntries c). me_fd e \<noteq> - 1 \<longrightarrow>
        os_path w (me_fd e) = Some (me_path e) \<and> me_field e \<noteq> None) \<and>
     distinct (filter (\<lambda>fd. fd \<noteq> - 1) (map me_fd (metricEntries c)))"

lemma net_inv_new: "net_inv (NetworkCollector_new base) w"
  by (simp add: net_inv_def NetworkCollector_new_def)

text \<open>What the table looks like outside the collector: its own descriptors taken away.\<close>

definition table_without :: "int list \<Rightarrow> os \<Rightarrow> int \<Rightarrow> string option" where
  "table_without fds w = (\<lambda>fd. if fd \<in> set fds then None else os_path w fd)"

definition held :: "NetworkCollector \<Rightarrow> int list" where
  "held c = map me_fd (metricEntries c)"

lemma destroy_table: "os_path (NetworkCollector_destroy c w) = table_without (held c) w"
  by (simp add: NetworkCollector_destroy_def closeFds_def os.close_each_spec table_without_def held_def)

lemma length_kNetworkMetrics [simp]: "length kNetworkMetrics = 7"
  by (simp add: kNetworkMetrics_def)

lemma setInterface_spec:
  assumes "NetworkCollector_setInterface iface c w = (c', w')"
  defines "paths \<equiv> map (\<lambda>(name, _). metric_path (netStatsBase c) iface name) kNetworkMetrics"
  shows "os_files w' = os_files w" "net_interface c' = iface" "netStatsBase c' = netStatsBase c"
    "length (metricEntries c') = 7"
    "open_each os_open paths (close_each os_close (held c) w) = (held c', w')"
    "\<And>i. i < 7 \<Longrightarrow> metricEntries c' ! i =
       \<lparr>me_path = paths ! i, me_fd = held c' ! i, me_field = Some (snd (kNetworkMetrics ! i))\<rparr>"
proof -
  define w1 where "w1 = close_each os_close (held c) w"
  obtain fds w2 where o: "open_each os_open paths w1 = (fds, w2)" by fastforce
  define es where "es = map (\<lambda>((p, fd), (_, f)). \<lparr>me_path = p, me_fd = fd, me_field = Some f\<rparr>)
      (zip (zip paths fds) kNetworkMetrics)"
  have c': "c' = c\<lparr>net_interface := iface, metricEntries := es\<rparr>" and w': "w' = w2"
    using assms(1) o by (simp_all add: NetworkCollector_setInterface_def closeFds_def w1_def held_def
        paths_def es_def Let_def)
  have len: "length fds = 7" "length paths = 7"
    using os.open_each_length [of paths w1] o by (simp_all add: paths_def)
  have nth: "es ! i = \<lparr>me_path = paths ! i, me_fd = fds ! i, me_field = Some (snd (kNetworkMetrics ! i))\<rparr>"
    if "i < 7" for i using that len by (simp add: es_def split_beta)
  have held: "held c' = fds"
    by (rule nth_equalityI) (simp_all add: held_def c' len nth es_def split_beta)
  have "os_files w2 = os_files w1" using os_files_open_each [of paths w1] o by simp
  then show "os_files w' = os_files w" by (simp add: w' w1_def frame_simps)
  show "length (metricEntries c') = 7" using len by (simp add: c' es_def)
  show "open_each os_open paths (close_each os_close (held c) w) = (held c', w')"
    using o by (simp add: held w' w1_def)
  show "\<And>i. i < 7 \<Longrightarrow> metricEntries c' ! i =
       \<lparr>me_path = paths ! i, me_fd = held c' ! i, me_field = Some (snd (kNetworkMetrics ! i))\<rparr>"
    by (simp add: held nth) (simp add: c' nth)
  show "net_interface c' = iface" "netStatsBase c' = netStatsBase c" by (simp_all add: c')
qed

end
