(* ===== verification/Sensor_Theorems.thy ===== *)
theory Sensor_Theorems
  imports Sensor_Metrics "HOL-Library.Multiset"
begin

text \<open>
  Properties of the \<open>/sys\<close> collectors: which descriptors they hold after any use, that the
  network counters are reported all or not at all, and which temperature zones a scan of the
  hwmon tree yields.
\<close>

section \<open>NetworkCollector: descriptors\<close>

fun set_interfaces :: "string list \<Rightarrow> NetworkCollector \<Rightarrow> os \<Rightarrow> NetworkCollector \<times> os" where
  "set_interfaces [] c w = (c, w)"
| "set_interfaces (i # is) c w =
     (let (c1, w1) = NetworkCollector_setInterface i c w in set_interfaces is c1 w1)"

lemma setInterface_table:
  assumes "NetworkCollector_setInterface iface c w = (c', w')"
  shows "table_without (held c') w' = table_without (held c) w" and "net_inv c' w'"
proof -
  define paths where "paths = map (\<lambda>(name, _). metric_path (netStatsBase c) iface name) kNetworkMetrics"
  define w1 where "w1 = close_each os_close (held c) w"
  note spec = setInterface_spec [OF assms, folded paths_def]
  have T: "os_path w1 = table_without (held c) w"
    by (simp add: w1_def os.close_each_spec table_without_def)
  have len: "length paths = 7" by (simp add: paths_def)
  note o = os.open_each_spec [OF spec(5) [folded w1_def], unfolded len]
  have new: "os_path w1 fd = None" if fd: "fd \<in> set (held c')" for fd
  proof -
    obtain i where i: "i < 7" "held c' ! i = fd"
      using fd unfolding in_set_conv_nth conjunct1 [OF o] by blast
    show ?thesis using o i os.no_negative [of w1] by (cases "os_readable w1 (paths ! i)") auto
  qed
  show "table_without (held c') w' = table_without (held c) w"
    unfolding T [symmetric] using o new by (auto simp: table_without_def fun_eq_iff)
  have "os_path w' (me_fd e) = Some (me_path e) \<and> me_field e \<noteq> None"
    if e: "e \<in> set (metricEntries c')" "me_fd e \<noteq> - 1" for e
  proof -
    obtain i where i: "i < 7" "metricEntries c' ! i = e"
      using e(1) spec(4) by (auto simp: in_set_conv_nth)
    then show ?thesis using o spec(6) [OF i(1)] e(2) by auto
  qed
  then show "net_inv c' w'" using o by (simp add: net_inv_def flip: held_def)
qed

lemma set_interfaces_table:
  "net_inv c w \<Longrightarrow> set_interfaces is c w = (c', w') \<Longrightarrow>
     table_without (held c') w' = table_without (held c) w \<and> net_inv c' w'"
proof (induction "is" arbitrary: c w)
  case (Cons i "is")
  obtain c1 w1 where "NetworkCollector_setInterface i c w = (c1, w1)" by fastforce
  then show ?case using Cons setInterface_table [of i c w c1 w1] by simp
qed simp

text \<open>However often the interface is changed, a \<open>NetworkCollector\<close> leaks no descriptor and
  closes none that is not its own: at any time each descriptor it holds is open on the file of
  its entry, no two entries share one, each such entry has its member pointer set, and destroying
  the collector leaves exactly the descriptor table there was before it was created.\<close>

lemma network_collector_descriptors:
  assumes "set_interfaces ifaces (NetworkCollector_new base) w = (c, w')"
  shows "net_inv c w' \<and> os_path (NetworkCollector_destroy c w') = os_path w"
proof -
  have "table_without (held (NetworkCollector_new base)) w = os_path w"
    by (auto simp: table_without_def held_def NetworkCollector_new_def os.no_negative)
  then show ?thesis
    using set_interfaces_table [OF net_inv_new assms] by (simp add: destroy_table)
qed

lemma network_collector_descriptors_example:
  "case set_interfaces [''eth0'', ''eth1''] (NetworkCollector_new ''n'')
       \<lparr>os_files = (\<lambda>p. if p = ''n/eth1/statistics/rx_packets'' then None else Some ''1''),
        os_dirs = Map.empty, os_present = (\<lambda>_. True), os_fds = [Some ''log'', None]\<rparr> of (c, w') \<Rightarrow>
     net_inv c w' \<and> os_path (NetworkCollector_destroy c w') = os_path
       \<lparr>os_files = (\<lambda>p. if p = ''n/eth1/statistics/rx_packets'' then None else Some ''1''),
        os_dirs = Map.empty, os_present = (\<lambda>_. True), os_fds = [Some ''log'', None]\<rparr>"
  by (simp only: split_beta network_collector_descriptors [OF surjective_pairing])

section \<open>NetworkCollector: counters\<close>

lemma read_entries_values:
  assumes "list_all2 (\<lambda>e v. entry_value e w = Some v) es vs" and "map me_field es = map Some fs"
  shows "read_entries es w s = Some (fold (\<lambda>(f, v). set_net_field f v) (zip fs vs) s)"
  using assms
proof (induction es arbitrary: vs fs s)
  case (Cons e es)
  then obtain v vs' f fs' where "vs = v # vs'" "fs = f # fs'" "entry_value e w = Some v"
    "me_field e = Some f" by (auto simp: list_all2_Cons1)
  then show ?case using Cons by (simp add: read_entries_Cons del: read_entries.simps(2))
qed simp

lemma counter_text:
  assumes "os_path w fd = Some p" and "os_files w p = Some (nat_digits (unat (v :: u64)) @ newline_char # rest)"
    and "length (nat_digits (unat v)) \<le> 31"
  shows "\<exists>b bs r. os_pread fd 31 w = Some (b # bs) \<and> from_chars_u64 (b # bs) = Inr (v, r)"
proof -
  define r where "r = take (31 - length (nat_digits (unat v))) (newline_char # rest)"
  have "os_pread fd 31 w = Some (nat_digits (unat v) @ r)"
    using assms by (simp add: os_pread_path r_def)
  moreover have "r = [] \<or> \<not> is_digit (hd r)"
    by (cases "31 - length (nat_digits (unat v))") (simp_all add: r_def)
  then have "from_chars_u64 (nat_digits (unat v) @ r) = Inr (v, r)"
    using unat_range_64 [of v] by (simp add: from_chars_u64_digits)
  moreover obtain b bs where "nat_digits (unat v) @ r = b # bs"
    by (cases "nat_digits (unat v) @ r") simp_all
  ultimately show ?thesis by auto
qed

lemma length_nat_digits_le: "n < 10 ^ k \<Longrightarrow> 0 < k \<Longrightarrow> length (nat_digits n) \<le> k"
proof (induction n arbitrary: k rule: nat_digits.induct)
  case (1 n)
  show ?case
  proof (cases "n < 10")
    case True
    then show ?thesis using 1 by (subst nat_digits.simps) simp
  next
    case False
    then obtain j where k: "k = Suc j" "0 < j" using 1 by (cases k; cases "k - 1") auto
    have "n div 10 < 10 ^ j" using 1(2) by (simp add: k(1) less_mult_imp_div_less mult.commute)
    then show ?thesis using 1(1) [OF False _ k(2)] False by (subst nat_digits.simps) (simp add: k(1))
  qed
qed

lemma length_u64_text: "length (nat_digits (unat (v :: u64))) \<le> 20"
  using length_nat_digits_le [of "unat v" 20] unat_range_64 [of v] by simp

definition network_stats :: "u64 list \<Rightarrow> NetworkStats" where
  "network_stats v = \<lparr>rx_packets = v ! 0, tx_packets = v ! 1, rx_dropped = v ! 2, tx_dropped = v ! 3,
     rx_errors = v ! 4, tx_errors = v ! 5, collisions = v ! 6\<rparr>"

text \<open>The files of an interface under \<open>/sys/class/net\<close>, in the order of the members above.\<close>

definition metric_file :: "string \<Rightarrow> string \<Rightarrow> nat \<Rightarrow> string" where
  "metric_file base iface i = base @ ''/'' @ iface @ ''/statistics/'' @
     [''rx_packets'', ''tx_packets'', ''rx_dropped'', ''tx_dropped'', ''rx_errors'', ''tx_errors'', ''collisions''] ! i"

lemma metric_file_path: "i < 7 \<Longrightarrow> metric_path base iface (fst (kNetworkMetrics ! i)) = metric_file base iface i"
  by (auto simp: metric_path_def metric_file_def kNetworkMetrics_def less_Suc_eq numeral_eq_Suc)

lemma setInterface_entry:
  assumes "NetworkCollector_setInterface iface c w = (c', w')" and "i < 7"
  shows "\<exists>fd. metricEntries c' ! i = \<lparr>me_path = metric_file (netStatsBase c) iface i, me_fd = fd,
       me_field = Some (snd (kNetworkMetrics ! i))\<rparr> \<and>
     (if os_readable w (metric_file (netStatsBase c) iface i)
      then os_path w' fd = Some (metric_file (netStatsBase c) iface i) else fd = - 1)"
proof -
  define paths where "paths = map (\<lambda>(name, _). metric_path (netStatsBase c) iface name) kNetworkMetrics"
  define w1 where "w1 = close_each os_close (held c) w"
  note spec = setInterface_spec [OF assms(1), folded paths_def]
  have len: "length paths = 7" by (simp add: paths_def)
  have pth: "paths ! i = metric_file (netStatsBase c) iface i"
    using assms(2) by (simp add: paths_def split_beta metric_file_path)
  have rd: "os_readable w1 = os_readable w" by (simp add: w1_def os.close_each_readable)
  show ?thesis
    using os.open_each_spec [OF spec(5) [folded w1_def], unfolded len rd] assms(2)
    by (simp add: spec(6) pth)
qed

lemma collect_values:
  assumes "NetworkCollector_setInterface iface c w = (c', w')" and "iface \<noteq> []" and "length v = 7"
    and "\<And>i. i < 7 \<Longrightarrow> entry_value (metricEntries c' ! i) u = Some (v ! i)"
  shows "NetworkCollector_collect c' u = Some (network_stats v)"
proof -
  note spec = setInterface_spec [OF assms(1)]
  have fields: "map me_field (metricEntries c') = map Some (map snd kNetworkMetrics)"
    by (rule nth_equalityI) (simp_all add: spec(4,6))
  have "list_all2 (\<lambda>e v. entry_value e u = Some v) (metricEntries c') v"
    using spec(4) assms(3,4) by (simp add: list_all2_conv_all_nth)
  from read_entries_values [OF this fields] have "NetworkCollector_collect c' u =
      Some (fold (\<lambda>(f, v). set_net_field f v) (zip (map snd kNetworkMetrics) v) NetworkStats_init)"
    using assms(2) spec(2) by (simp add: NetworkCollector_collect_def)
  moreover obtain a b c d e f g where "v = [a, b, c, d, e, f, g]"
    using assms(3) by (auto simp: length_Suc_conv eval_nat_numeral)
  ultimately show ?thesis
    by (simp add: kNetworkMetrics_def NetworkStats_init_def network_stats_def)
qed

lemma collect_none:
  assumes "e \<in> set (metricEntries c)" and "entry_value e u = None"
  shows "NetworkCollector_collect c u = None"
  using assms by (auto simp: NetworkCollector_collect_def read_entries_None list_all_iff)

lemma entry_value_number:
  assumes "os_path u (me_fd e) = Some p"
    and "os_files u p = Some (nat_digits (unat (v :: u64)) @ newline_char # rest)"
  shows "entry_value e u = Some v"
proof -
  have "length (nat_digits (unat v)) \<le> 31" using length_u64_text [of v] by simp
  from counter_text [OF assms this] show ?thesis by (auto simp: entry_value_def)
qed

lemma entry_value_junk:
  assumes "os_path u (me_fd e) = Some p" and "os_files u p = Some s" and "s = [] \<or> \<not> is_digit (hd s)"
  shows "entry_value e u = None"
  using assms from_chars_u64_no_digit [of "take 31 s"]
  by (cases s) (simp_all add: entry_value_def os_pread_path)

text \<open>C24. After \<open>setInterface\<close> the counters are reported all or not at all. If every file of the
  interface holds a decimal 64-bit number and a newline (and whatever follows), \<open>collect\<close>
  reports each number in its own member; if one of the files could not be opened, or holds
  nothing that starts with a number when it is read, there is no result.\<close>

theorem network_counters_all_or_nothing:
  assumes "NetworkCollector_setInterface iface c w = (c', w')" and "iface \<noteq> []"
    and "os_path u = os_path w'"
  shows "(\<forall>(v :: u64 list) rest. length v = 7 \<and>
      (\<forall>i < 7. os_readable w (metric_file (netStatsBase c) iface i) \<and>
         os_files u (metric_file (netStatsBase c) iface i) =
           Some (nat_digits (unat (v ! i)) @ newline_char # rest i)) \<longrightarrow>
      NetworkCollector_collect c' u = Some (network_stats v)) \<and>
    (\<forall>i < 7. \<not> os_readable w (metric_file (netStatsBase c) iface i) \<or>
        (\<exists>s. os_files u (metric_file (netStatsBase c) iface i) = Some s \<and>
          (s = [] \<or> \<not> is_digit (hd s))) \<longrightarrow>
      NetworkCollector_collect c' u = None)"
proof (intro conjI allI impI)
  fix v :: "u64 list" and rest
  assume v: "length v = 7 \<and> (\<forall>i < 7. os_readable w (metric_file (netStatsBase c) iface i) \<and>
      os_files u (metric_file (netStatsBase c) iface i) =
        Some (nat_digits (unat (v ! i)) @ newline_char # rest i))"
  have "entry_value (metricEntries c' ! i) u = Some (v ! i)" if "i < 7" for i
    using setInterface_entry [OF assms(1) that] v that assms(3)
      entry_value_number [of u "metricEntries c' ! i" "metric_file (netStatsBase c) iface i"] by auto
  then show "NetworkCollector_collect c' u = Some (network_stats v)"
    using collect_values [OF assms(1,2)] v by simp
next
  fix i :: nat
  assume i: "i < 7" and bad: "\<not> os_readable w (metric_file (netStatsBase c) iface i) \<or>
    (\<exists>s. os_files u (metric_file (netStatsBase c) iface i) = Some s \<and> (s = [] \<or> \<not> is_digit (hd s)))"
  have "entry_value (metricEntries c' ! i) u = None"
    using setInterface_entry [OF assms(1) i] bad assms(3)
      entry_value_junk [of u "metricEntries c' ! i" "metric_file (netStatsBase c) iface i"]
    by (cases "os_readable w (metric_file (netStatsBase c) iface i)") (auto simp: entry_value_def)
  then show "NetworkCollector_collect c' u = None"
    using i setInterface_spec(4) [OF assms(1)] by (intro collect_none [OF nth_mem]) simp_all
qed

definition net_world :: os where
  "net_world = \<lparr>os_files = (\<lambda>_. Some (nat_digits 5 @ [newline_char])), os_dirs = Map.empty,
     os_present = (\<lambda>_. True), os_fds = []\<rparr>"

lemma network_counters_all_or_nothing_witness:
  "case NetworkCollector_setInterface ''eth0'' (NetworkCollector_new ''n'') net_world of (c, w') \<Rightarrow>
     NetworkCollector_collect c w' = Some (network_stats (replicate 7 5))"
proof -
  obtain c w' where s: "NetworkCollector_setInterface ''eth0'' (NetworkCollector_new ''n'') net_world = (c, w')"
    by fastforce
  have "os_files w' p = Some (nat_digits 5 @ [newline_char])" for p
    using setInterface_spec(1) [OF s] by (simp add: net_world_def)
  then have "NetworkCollector_collect c w' = Some (network_stats (replicate 7 5))"
    using network_counters_all_or_nothing [OF s, of w', THEN conjunct1, rule_format,
        of "replicate 7 5" "\<lambda>_. []"]
    by (simp add: os_readable_def net_world_def)
  then show ?thesis using s by simp
qed

section \<open>TemperatureCollector: descriptors\<close>

lemma os_open_frame:
  assumes "os_open p w = (fd, w')"
  shows "os_files w' = os_files w" and "os_dirs w' = os_dirs w" and "os_present w' = os_present w"
  using os_files_frame(1-3) [of p w] assms by simp_all

text \<open>A scan is a sequence of opens: of the input files of the zones it adds.\<close>

definition opened :: "TempZone list \<Rightarrow> os \<Rightarrow> os \<Rightarrow> bool" where
  "opened zs w w' \<longleftrightarrow> open_each os_open (map tz_inputPath zs) w = (map tz_fd zs, w') \<and>
     - 1 \<notin> tz_fd ` set zs"

lemma opened_Nil [simp]: "opened [] w w' \<longleftrightarrow> w' = w"
  by (auto simp: opened_def)

lemma opened_Cons:
  "os_open (tz_inputPath z) w = (tz_fd z, w1) \<Longrightarrow> tz_fd z \<noteq> - 1 \<Longrightarrow> opened zs w1 w' \<Longrightarrow> opened (z # zs) w w'"
  by (simp add: opened_def)

lemma opened_append: "opened zs w w1 \<Longrightarrow> opened ys w1 w' \<Longrightarrow> opened (zs @ ys) w w'"
  by (auto simp: opened_def open_each_append Let_def)

lemma opened_frame:
  assumes "opened zs w w'"
  shows "os_files w' = os_files w \<and> os_dirs w' = os_dirs w \<and> os_present w' = os_present w"
  using assms
proof (induction zs arbitrary: w)
  case (Cons z zs)
  obtain fd w1 where o: "os_open (tz_inputPath z) w = (fd, w1)" by fastforce
  with Cons.prems have "opened zs w1 w'" by (auto simp: opened_def split: prod.splits)
  with Cons.IH [of w1] os_open_frame [OF o] show ?case by simp
qed simp

lemma opened_table:
  assumes "opened zs w w'"
  shows "distinct (map tz_fd zs)" and "\<forall>z \<in> set zs. os_path w' (tz_fd z) = Some (tz_inputPath z)"
    and "table_without (map tz_fd zs) w' = os_path w"
proof -
  note o = os.open_each_spec [OF conjunct1 [OF assms [unfolded opened_def]]]
  have ne: "tz_fd z \<noteq> - 1" if "z \<in> set zs" for z
    using assms that by (auto simp: opened_def image_iff)
  then have all: "filter (\<lambda>fd. fd \<noteq> - 1) (map tz_fd zs) = map tz_fd zs"
    by (simp add: filter_id_conv)
  show "distinct (map tz_fd zs)" using o unfolding all by blast
  have at: "os_path w (tz_fd (zs ! i)) = None \<and>
      os_path w' (tz_fd (zs ! i)) = Some (tz_inputPath (zs ! i))" if "i < length zs" for i
    using o ne [OF nth_mem [OF that]] that by simp
  then show "\<forall>z \<in> set zs. os_path w' (tz_fd z) = Some (tz_inputPath z)"
    by (metis in_set_conv_nth)
  have "os_path w (tz_fd z) = None" if "z \<in> set zs" for z
    using at that by (metis in_set_conv_nth)
  then show "table_without (map tz_fd zs) w' = os_path w"
    using o by (auto simp: table_without_def fun_eq_iff)
qed

text \<open>What a file of a sensor directory contributes: a zone when it is a label file with a
  readable label and an input file that exists and can be opened.\<close>

type_synonym zone_info = "string \<times> string \<times> string"

definition label_name :: "string \<Rightarrow> bool" where
  "label_name f \<longleftrightarrow> prefix ''temp'' f \<and> sublist ''_label'' f"

definition input_name :: "i32 \<Rightarrow> string" where
  "input_name num = ''temp'' @ show_int (sint num) @ ''_input''"

definition zone_spec :: "os \<Rightarrow> string \<Rightarrow> string \<Rightarrow> string \<Rightarrow> zone_info option" where
  "zone_spec w sensor path f =
     (if label_name f
      then (case (stoi (drop 4 f), read_first_line w (path_join path f)) of
              (Inr num, Some label) \<Rightarrow>
                let input = path_join path (input_name num) in
                if os_present w input \<and> os_readable w input then Some (sensor, label, input) else None
            | _ \<Rightarrow> None)
      else None)"

lemma label_file_name: "is_label_file f \<longleftrightarrow> label_name f"
proof -
  have "find_pos ''temp'' f = Some 0 \<longleftrightarrow> prefix ''temp'' f" by (cases f) auto
  moreover have "find_pos ''_label'' f \<noteq> None \<longleftrightarrow> sublist ''_label'' f"
    using contains_iff [of f "''_label''"] unfolding contains_def sublist_def .
  ultimately show ?thesis by (simp only: is_label_file_def label_name_def)
qed

lemma input_path_name: "input_path path num = path_join path (input_name num)"
  by (simp add: input_path_def input_name_def)

definition info :: "TempZone \<Rightarrow> zone_info" where
  "info z = (tz_sensor z, tz_label z, tz_inputPath z)"

definition bad_label :: "string \<Rightarrow> bool" where
  "bad_label f \<longleftrightarrow> label_name f \<and> (\<exists>e. stoi (drop 4 f) = Inl e)"

lemma zone_spec_frame:
  assumes "os_files w' = os_files w" and "os_present w' = os_present w"
  shows "zone_spec w' = zone_spec w"
proof -
  have rd: "os_readable w' = os_readable w" and fl: "read_first_line w' = read_first_line w"
    using assms(1) by (simp_all add: fun_eq_iff os_readable_def read_first_line_def)
  show ?thesis unfolding zone_spec_def [abs_def] Let_def assms(2) rd fl ..
qed

lemma os_open_readable: "os_open p w = (fd, w') \<Longrightarrow> fd = - 1 \<longleftrightarrow> \<not> os_readable w p"
  by (auto simp: os_open_def Let_def split: if_splits)

text \<open>One file at a time: what a step of the scan does.\<close>

lemma scan_zones_step:
  "scan_zones sensor path (f # fs) zones w =
    (if bad_label f then (Inl (projl (stoi (drop 4 f))), w)
     else case zone_spec w sensor path f of
       None \<Rightarrow> scan_zones sensor path fs zones w
     | Some (s, l, p) \<Rightarrow> let (fd, w') = os_open p w in
         scan_zones sensor path fs
           (zones @ [\<lparr>tz_sensor = s, tz_label = l, tz_inputPath = p, tz_fd = fd\<rparr>]) w')"
proof (cases "label_name f")
  case True
  show ?thesis
  proof (cases "stoi (drop 4 f)")
    case (Inl e)
    then show ?thesis using True by (simp add: bad_label_def label_file_name)
  next
    case (Inr num)
    show ?thesis
    proof (cases "read_first_line w (path_join path f)")
      case None
      then show ?thesis using True Inr by (simp add: bad_label_def zone_spec_def label_file_name)
    next
      case (Some label)
      obtain fd w' where o: "os_open (input_path path num) w = (fd, w')" by fastforce
      then show ?thesis using True Inr Some os_open_readable [OF o] os_open_failed [of _ w w'] o
        by (auto simp: bad_label_def zone_spec_def label_file_name Let_def simp flip: input_path_name)
    qed
  qed
qed (simp add: bad_label_def zone_spec_def label_file_name)

declare scan_zones.simps(2) [simp del]

lemma scan_zones_spec:
  assumes "scan_zones sensor path fs zones w = (r, w')"
  shows "\<exists>zs. opened zs w w' \<and>
    (if list_ex bad_label fs then \<exists>e. r = Inl e
     else r = Inr (zones @ zs) \<and> map info zs = List.map_filter (zone_spec w sensor path) fs)"
  using assms
proof (induction fs arbitrary: zones w)
  case Nil
  then show ?case by (intro exI [of _ "[]"]) (simp add: map_filter_simps)
next
  case (Cons f fs)
  show ?case
  proof (cases "bad_label f \<or> zone_spec w sensor path f = None")
    case True
    show ?thesis
    proof (cases "bad_label f")
      case True
      then show ?thesis using Cons.prems by (intro exI [of _ "[]"]) (auto simp: scan_zones_step)
    next
      case False
      then show ?thesis using True Cons.prems Cons.IH [of zones w]
        by (simp add: scan_zones_step map_filter_simps cong: if_cong split del: if_split)
    qed
  next
    case False
    then obtain s l p where z: "zone_spec w sensor path f = Some (s, l, p)" by auto
    obtain fd w1 where o: "os_open p w = (fd, w1)" by fastforce
    define z where "z = \<lparr>tz_sensor = s, tz_label = l, tz_inputPath = p, tz_fd = fd\<rparr>"
    have "os_readable w p" using \<open>zone_spec w sensor path f = Some (s, l, p)\<close>
      by (auto simp: zone_spec_def Let_def split: if_splits sum.splits option.splits)
    then have fd: "fd \<noteq> - 1" using os_open_readable [OF o] by simp
    have "scan_zones sensor path fs (zones @ [z]) w1 = (r, w')"
      using Cons.prems False \<open>zone_spec w sensor path f = Some (s, l, p)\<close> o
      by (simp add: scan_zones_step z_def)
    from Cons.IH [OF this] obtain zs where zs: "opened zs w1 w'"
      and r: "if list_ex bad_label fs then \<exists>e. r = Inl e
        else r = Inr ((zones @ [z]) @ zs) \<and> map info zs = List.map_filter (zone_spec w1 sensor path) fs"
      by blast
    have "opened (z # zs) w w'" using o fd zs by (intro opened_Cons) (simp_all add: z_def)
    moreover have "zone_spec w1 = zone_spec w" using os_open_frame [OF o] by (intro zone_spec_frame)
    moreover have "info z = (s, l, p)" by (simp add: info_def z_def)
    ultimately show ?thesis
      using r False \<open>zone_spec w sensor path f = Some (s, l, p)\<close>
      by (intro exI [of _ "z # zs"]) (simp add: map_filter_simps split: if_splits)
  qed
qed

lemma scan_each_spec:
  assumes "scan_each sps zones w = (r, w')"
  defines "files \<equiv> \<lambda>path. case os_dirs w path of None \<Rightarrow> [] | Some es \<Rightarrow> map fst es"
  shows "\<exists>zs. opened zs w w' \<and>
    (if list_ex (\<lambda>(_, path). list_ex bad_label (files path)) sps then \<exists>e. r = Inl e
     else r = Inr (zones @ zs) \<and>
       map info zs = concat (map (\<lambda>(s, path). List.map_filter (zone_spec w s path) (files path)) sps))"
  using assms(1) unfolding files_def
proof (induction sps arbitrary: zones w)
  case Nil
  then show ?case by (intro exI [of _ "[]"]) simp
next
  case (Cons sp sps)
  obtain s path where sp: "sp = (s, path)" by fastforce
  show ?case
  proof (cases "os_dirs w path")
    case None
    then show ?thesis using Cons.prems Cons.IH [of zones w] by (simp add: sp map_filter_simps cong: if_cong split del: if_split)
  next
    case (Some es)
    obtain r1 w1 where scan: "scan_zones s path (map fst es) zones w = (r1, w1)" by fastforce
    from scan_zones_spec [OF this] obtain zs where zs: "opened zs w w1"
      and r1: "if list_ex bad_label (map fst es) then \<exists>e. r1 = Inl e
        else r1 = Inr (zones @ zs) \<and> map info zs = List.map_filter (zone_spec w s path) (map fst es)"
      by blast
    show ?thesis
    proof (cases "list_ex bad_label (map fst es)")
      case True
      then obtain e where "r1 = Inl e" using r1 by auto
      then show ?thesis using Cons.prems zs True Some scan
        by (intro exI [of _ zs]) (auto simp: sp)
    next
      case False
      then have r1: "r1 = Inr (zones @ zs)"
        and i: "map info zs = List.map_filter (zone_spec w s path) (map fst es)"
        using r1 by simp_all
      have "scan_each sps (zones @ zs) w1 = (r, w')"
        using Cons.prems by (simp add: sp Some scan r1)
      note IH = Cons.IH [OF this]
      have frame: "os_dirs w1 = os_dirs w" "zone_spec w1 = zone_spec w"
        using opened_frame [OF zs] zone_spec_frame [of w1 w] by blast+
      from IH obtain ys where "opened ys w1 w'"
        and "if list_ex (\<lambda>(_, path). list_ex bad_label (case os_dirs w path of None \<Rightarrow> [] | Some es \<Rightarrow> map fst es)) sps
          then \<exists>e. r = Inl e
          else r = Inr ((zones @ zs) @ ys) \<and> map info ys = concat (map (\<lambda>(s, path).
             List.map_filter (zone_spec w s path) (case os_dirs w path of None \<Rightarrow> [] | Some es \<Rightarrow> map fst es)) sps)"
        unfolding frame by blast
      then show ?thesis using opened_append [OF zs] False
        by (intro exI [of _ "zs @ ys"]) (simp add: sp Some i split: if_splits)
    qed
  qed
qed

section \<open>TemperatureCollector: what a scan of the hwmon tree yields\<close>

text \<open>The reference: the directory of a sensor (the last one whose file \<open>name\<close> starts with a line that is
  its name), the files in it, and the zones these files describe.\<close>

definition dir_name :: "os \<Rightarrow> string \<Rightarrow> string \<times> bool \<Rightarrow> string option" where
  "dir_name w hwmon e = (if snd e then read_first_line w (path_join (path_join hwmon (fst e)) ''name'') else None)"

definition sensor_dir :: "os \<Rightarrow> string \<Rightarrow> string \<Rightarrow> string option" where
  "sensor_dir w hwmon sensor =
     (case os_dirs w hwmon of
        None \<Rightarrow> None
      | Some es \<Rightarrow>
          (case filter (\<lambda>e. dir_name w hwmon e = Some sensor) es of
             [] \<Rightarrow> None
           | d # ds \<Rightarrow> Some (path_join hwmon (fst (last (d # ds))))))"

text \<open>The directories the constructor goes through.\<close>

definition sensor_dirs :: "string set \<Rightarrow> string \<Rightarrow> os \<Rightarrow> (string \<times> string) list" where
  "sensor_dirs sensors hwmon w =
     (case os_dirs w hwmon of None \<Rightarrow> [] | Some es \<Rightarrow> scan_sensors sensors hwmon w es [])"

lemma scan_sensors_last:
  "map_of (scan_sensors sensors hwmon w es m) s =
     (if s \<in> sensors then
        (case filter (\<lambda>e. dir_name w hwmon e = Some s) es of
           [] \<Rightarrow> map_of m s
         | d # ds \<Rightarrow> Some (path_join hwmon (fst (last (d # ds)))))
      else map_of m s)"
proof (induction es arbitrary: m)
  case (Cons e es)
  obtain entry d where e: "e = (entry, d)" by fastforce
  show ?case
    by (cases "dir_name w hwmon e") (auto simp: e dir_name_def Cons update_conv split: list.split)
qed simp

lemma scan_sensors_distinct:
  "distinct (map fst m) \<Longrightarrow> distinct (map fst (scan_sensors sensors hwmon w es m))"
proof (induction es arbitrary: m)
  case (Cons e es)
  then show ?case by (cases e) (auto simp: distinct_update split: option.split)
qed simp

text \<open>The order in which an unordered map is iterated: any, but every entry once.\<close>

definition some_order :: "('a list \<Rightarrow> 'a list) \<Rightarrow> bool" where
  "some_order order \<longleftrightarrow> (\<forall>xs. mset (order xs) = mset xs)"

lemma some_orderD:
  assumes "some_order order"
  shows "order [] = []" and "set (order xs) = set xs" and "distinct (map f (order xs)) \<longleftrightarrow> distinct (map f xs)"
proof -
  have m: "mset (order xs) = mset xs" for xs using assms by (simp add: some_order_def)
  show "order [] = []" using m [of "[]"] by simp
  show "set (order xs) = set xs" using m by (rule mset_eq_setD)
  have "mset (map f (order xs)) = mset (map f xs)" using m by simp
  then show "distinct (map f (order xs)) \<longleftrightarrow> distinct (map f xs)" by (metis mset_eq_imp_distinct_iff)
qed

lemma sensor_dirs_configured:
  assumes "some_order order"
  shows "distinct (map fst (order (sensor_dirs sensors hwmon w)))"
    and "set (order (sensor_dirs sensors hwmon w)) = {(s, p). s \<in> sensors \<and> sensor_dir w hwmon s = Some p}"
proof -
  have d: "distinct (map fst (sensor_dirs sensors hwmon w))"
    by (simp add: sensor_dirs_def scan_sensors_distinct split: option.split)
  then show "distinct (map fst (order (sensor_dirs sensors hwmon w)))" using some_orderD(3) [OF assms] by blast
  have "map_of (sensor_dirs sensors hwmon w) s = (if s \<in> sensors then sensor_dir w hwmon s else None)" for s
    by (cases "os_dirs w hwmon") (simp_all add: sensor_dirs_def sensor_dir_def scan_sensors_last split: list.split)
  then have "(s, p) \<in> set (sensor_dirs sensors hwmon w) \<longleftrightarrow> s \<in> sensors \<and> sensor_dir w hwmon s = Some p" for s p
    using map_of_eq_Some_iff [OF d, of s p] by (simp split: if_splits)
  then show "set (order (sensor_dirs sensors hwmon w)) = {(s, p). s \<in> sensors \<and> sensor_dir w hwmon s = Some p}"
    using some_orderD(2) [OF assms] by auto
qed

definition dir_files :: "os \<Rightarrow> string \<Rightarrow> string list" where
  "dir_files w path = (case os_dirs w path of None \<Rightarrow> [] | Some es \<Rightarrow> map fst es)"

definition hwmon_zones :: "os \<Rightarrow> (string \<times> string) list \<Rightarrow> zone_info list" where
  "hwmon_zones w dirs = concat (map (\<lambda>(s, path). List.map_filter (zone_spec w s path) (dir_files w path)) dirs)"

definition zone_reading :: "os \<Rightarrow> zone_info \<Rightarrow> TemperatureMetric option" where
  "zone_reading w zi = (case zi of (sensor, label, path) \<Rightarrow>
     (case os_files w path of
        Some content \<Rightarrow> (case from_chars_i32 (take 15 content) of
            Inr (t, _) \<Rightarrow> Some \<lparr>tm_sensor = sensor, tm_label = label, tm_temperature = t\<rparr>
          | Inl _ \<Rightarrow> None)
      | None \<Rightarrow> None))"

lemma TemperatureCollector_new_spec:
  assumes "TemperatureCollector_new order sensors hwmon w = (r, w')" and "order [] = []"
  defines "dirs \<equiv> order (sensor_dirs sensors hwmon w)"
  shows "\<exists>zs. opened zs w w' \<and>
    (if list_ex (\<lambda>(_, path). list_ex bad_label (dir_files w path)) dirs then \<exists>e. r = Inl e
     else r = Inr zs \<and> map info zs = hwmon_zones w dirs)"
proof (cases "os_dirs w hwmon")
  case None
  then show ?thesis using assms
    by (intro exI [of _ "[]"]) (simp add: TemperatureCollector_new_def sensor_dirs_def hwmon_zones_def)
next
  case (Some es)
  then have "scan_each dirs [] w = (r, w')"
    using assms(1) by (simp add: TemperatureCollector_new_def dirs_def sensor_dirs_def)
  from scan_each_spec [OF this] show ?thesis
    by (simp add: dir_files_def [abs_def] hwmon_zones_def cong: if_cong split del: if_split)
qed

lemma from_chars_i32_Nil [simp]: "from_chars_i32 [] = Inl FcInvalid"
  by (simp add: from_chars_i32_def)

lemma read_zones_info:
  assumes "\<forall>z \<in> set zs. os_path w (tz_fd z) = Some (tz_inputPath z)"
  shows "read_zones zs w = List.map_filter (zone_reading w) (map info zs)"
  using assms
proof (induction zs)
  case (Cons z zs)
  then have p: "os_pread (tz_fd z) 15 w = map_option (take 15) (os_files w (tz_inputPath z))"
    by (simp add: os_pread_path)
  show ?case
  proof (cases "os_files w (tz_inputPath z)")
    case None
    then show ?thesis using Cons p by (simp add: map_filter_simps zone_reading_def info_def)
  next
    case (Some content)
    then show ?thesis using Cons p
      by (cases "take 15 content"; cases "from_chars_i32 (take 15 content)")
        (auto simp: map_filter_simps zone_reading_def info_def)
  qed
qed (simp add: map_filter_simps)

text \<open>C20. A \<open>TemperatureCollector\<close> that was constructed holds one descriptor per zone, each open
  on the input file of its zone, and its destructor restores the descriptor table. Its zones are
  exactly those the label files of the configured sensors describe, each configured sensor that has
  a directory once, in whatever order the map of the sensors is iterated, and its zones in the order
  of the directory; and \<open>collect\<close> reports, in any later state of these files, the number each input
  file starts with, leaving out the zones whose file is unreadable or holds no number.\<close>

theorem temperature_zones:
  assumes "TemperatureCollector_new order sensors hwmon w = (Inr zones, w')" and "some_order order"
    and "os_path u = os_path w'"
  shows "distinct (map tz_fd zones) \<and>
    (\<forall>z \<in> set zones. os_path w' (tz_fd z) = Some (tz_inputPath z)) \<and>
    os_path (TemperatureCollector_destroy zones w') = os_path w \<and>
    (\<exists>dirs. distinct (map fst dirs) \<and> set dirs = {(s, p). s \<in> sensors \<and> sensor_dir w hwmon s = Some p} \<and>
       map info zones = hwmon_zones w dirs \<and>
       TemperatureCollector_collect zones u = Some (List.map_filter (zone_reading u) (hwmon_zones w dirs)))"
proof -
  from TemperatureCollector_new_spec [OF assms(1) some_orderD(1) [OF assms(2)]] have o: "opened zones w w'"
    and i: "map info zones = hwmon_zones w (order (sensor_dirs sensors hwmon w))"
    by (auto split: if_splits)
  note t = opened_table [OF o]
  show ?thesis
    using t i read_zones_info [of zones u] assms(3) sensor_dirs_configured [OF assms(2), of sensors hwmon w]
    by (auto simp: TemperatureCollector_destroy_def os.close_each_spec table_without_def
        TemperatureCollector_collect_def)
qed

definition hwmon_world :: "string \<Rightarrow> os" where
  "hwmon_world label_file = \<lparr>
     os_files = [''h/hwmon0/name'' \<mapsto> ''coretemp'', ''h/hwmon0/temp1_label'' \<mapsto> ''Core 0'',
       ''h/hwmon0/temp1_input'' \<mapsto> ''45000''],
     os_dirs = [''h'' \<mapsto> [(''hwmon0'', True)], ''h/hwmon0'' \<mapsto> [(label_file, False), (''name'', False)]],
     os_present = (\<lambda>_. True), os_fds = [Some ''log'']\<rparr>"

lemma temperature_zones_witness:
  "map info [\<lparr>tz_sensor = ''coretemp'', tz_label = ''Core 0'', tz_inputPath = ''h/hwmon0/temp1_input'', tz_fd = 1\<rparr>] =
     hwmon_zones (hwmon_world ''temp1_label'') [(''coretemp'', ''h/hwmon0'')]"
proof -
  define w where "w = hwmon_world ''temp1_label''"
  have "fst (TemperatureCollector_new id {''coretemp''} ''h'' w) = Inr
     [\<lparr>tz_sensor = ''coretemp'', tz_label = ''Core 0'', tz_inputPath = ''h/hwmon0/temp1_input'', tz_fd = 1\<rparr>]"
    unfolding w_def by code_simp
  then have "TemperatureCollector_new id {''coretemp''} ''h'' w = (Inr
     [\<lparr>tz_sensor = ''coretemp'', tz_label = ''Core 0'', tz_inputPath = ''h/hwmon0/temp1_input'', tz_fd = 1\<rparr>],
     snd (TemperatureCollector_new id {''coretemp''} ''h'' w))" by (simp add: prod_eq_iff)
  from temperature_zones [OF this _ refl] obtain dirs where d: "distinct (map fst dirs)"
    "set dirs = {(s, p). s \<in> {''coretemp''} \<and> sensor_dir w ''h'' s = Some p}"
    "map info [\<lparr>tz_sensor = ''coretemp'', tz_label = ''Core 0'', tz_inputPath = ''h/hwmon0/temp1_input'', tz_fd = 1\<rparr>] =
       hwmon_zones w dirs"
    by (auto simp: some_order_def)
  have "sensor_dir w ''h'' ''coretemp'' = Some ''h/hwmon0''" unfolding w_def by code_simp
  then have "set dirs = {(''coretemp'', ''h/hwmon0'')}" using d(2) by auto
  moreover from this d(1) have "length dirs = 1"
    using distinct_card [of dirs] by (simp add: distinct_map)
  ultimately have "dirs = [(''coretemp'', ''h/hwmon0'')]" by (cases dirs) auto
  with d(3) show ?thesis by (simp add: w_def)
qed

text \<open>C36. The constructor fails exactly when the directory of a configured sensor has a file that looks
  like a label (\<open>temp...\<close> with \<open>_label\<close>) and does not go on with a number, or with one that does not
  fit \<open>int\<close>: the exception of \<open>std::stoi\<close> is none of those the constructor catches.\<close>

theorem temperature_constructor_throws_iff:
  assumes "some_order order"
  shows "(\<exists>e. fst (TemperatureCollector_new order sensors hwmon w) = Inl e) \<longleftrightarrow>
    (\<exists>s path f. s \<in> sensors \<and> sensor_dir w hwmon s = Some path \<and> f \<in> set (dir_files w path) \<and> bad_label f)"
proof -
  obtain r w' where n: "TemperatureCollector_new order sensors hwmon w = (r, w')" by fastforce
  have "(\<exists>e. r = Inl e) \<longleftrightarrow>
      list_ex (\<lambda>(_, path). list_ex bad_label (dir_files w path)) (order (sensor_dirs sensors hwmon w))"
    using TemperatureCollector_new_spec [OF n some_orderD(1) [OF assms]] by (auto split: if_splits)
  then show ?thesis using n sensor_dirs_configured(2) [OF assms, of sensors hwmon w] by (auto simp: list_ex_iff)
qed

lemma temperature_constructor_throws_iff_witness:
  "\<exists>e. fst (TemperatureCollector_new id {''coretemp''} ''h'' (hwmon_world ''temp_label'')) = Inl e"
proof -
  have "sensor_dir (hwmon_world ''temp_label'') ''h'' ''coretemp'' = Some ''h/hwmon0''"
    and "dir_files (hwmon_world ''temp_label'') ''h/hwmon0'' = [''temp_label'', ''name'']"
    by code_simp+
  moreover have "is_label_file ''temp_label''" and "stoi ''_label'' = Inl InvalidArgument" by code_simp+
  then have "bad_label ''temp_label''" by (simp add: bad_label_def label_file_name)
  moreover have "some_order id" by (simp add: some_order_def)
  ultimately show ?thesis by (subst temperature_constructor_throws_iff) auto
qed

end
