(* ===== verification/Clock.thy ===== *)
theory Clock
  imports Agent_Prelude "HOL-Library.Signed_Division"
begin

text \<open>
  Readings of \<open>std::chrono::system_clock\<close>, nanoseconds since the epoch in a signed 64-bit number,
  and their conversion to microseconds (\<open>include/timestamp_utils.h\<close>, \<open>src/ptp_topology.cpp\<close>):
  \<open>duration_cast\<close> divides and drops the fraction.
\<close>

definition now_us :: "i64 \<Rightarrow> i64" where
  "now_us clock = word_of_int (sint clock sdiv 1000)"

definition nowUs :: "i64 \<Rightarrow> u64" where
  "nowUs clock = word_of_int (sint clock sdiv 1000)"

lemma div_thousand: "0 \<le> (x :: int) \<Longrightarrow> 0 \<le> x div 1000 \<and> x div 1000 \<le> x"
proof -
  assume x: "0 \<le> x"
  have "1000 * (x div 1000) + x mod 1000 = x" "0 \<le> x mod 1000" by simp_all
  moreover have "0 \<le> x div 1000" using x by simp
  ultimately show ?thesis by linarith
qed

lemma sdiv_thousand: "- \<bar>x\<bar> \<le> (x :: int) sdiv 1000 \<and> x sdiv 1000 \<le> \<bar>x\<bar> \<and> (x < 0 \<longrightarrow> x sdiv 1000 \<le> 0)"
  using div_thousand [of "\<bar>x\<bar>"] by (auto simp: signed_divide_int_def sgn_if)

lemma sint_now_us: "sint (now_us clock) = sint clock sdiv 1000"
proof -
  define x where "x = sint clock"
  have "- (2 ^ 63) \<le> x" "x < 2 ^ 63" using sint_range_64 [of clock] by (simp_all add: x_def)
  then have "- (2 ^ 63) \<le> x sdiv 1000" "x sdiv 1000 < 2 ^ 63" using sdiv_thousand [of x] by linarith+
  then show ?thesis unfolding now_us_def x_def [symmetric] by (intro sint_word_of_int_64) simp_all
qed

lemma now_us_nonneg: "0 \<le> sint clock \<Longrightarrow> sint (now_us clock) = sint clock div 1000"
  by (auto simp: sint_now_us signed_divide_int_def sgn_if)

end
