(* ===== verification/Sys_Metrics.thy ===== *)
theory Sys_Metrics
  imports Sensor_Theorems Proc_Theorems Clock
begin

text \<open>
  The facade \<open>SysMetricsCollector\<close> of \<open>src/system_metrics.cpp\<close>: it owns the four collectors and
  gathers them into one best-effort snapshot. The theorems say that the groups of a snapshot do
  not depend on each other and that the descriptors of the four collectors never get mixed up,
  whatever the order in which interfaces are changed and snapshots are taken.
\<close>

section \<open>State and operations\<close>

record SystemPaths =
  sp_hwmon :: string
  sp_procStat :: string
  sp_procMeminfo :: string
  sp_netStats :: string

definition SystemPaths_default :: SystemPaths where
  "SystemPaths_default = \<lparr>sp_hwmon = ''/sys/class/hwmon'', sp_procStat = ''/proc/stat'',
     sp_procMeminfo = ''/proc/meminfo'', sp_netStats = ''/sys/class/net''\<rparr>"

record SystemStats =
  ss_timestamp_us :: u64
  temperatureStats :: "TemperatureMetric list option"
  networkStats :: "NetworkStats option"
  cpuStats :: "CpuStats option"
  memoryStats :: "MemoryStats option"

record SysMetricsCollector =
  temperatureCollector :: "TempZone list"
  networkCollector :: NetworkCollector
  cpuCollector :: CpuCollector
  memoryCollector :: MemoryCollector

text \<open>The members are constructed in the order of their declaration.\<close>

definition SysMetricsCollector_new ::
    "((string \<times> string) list \<Rightarrow> (string \<times> string) list) \<Rightarrow> string set \<Rightarrow> SystemPaths \<Rightarrow> os \<Rightarrow>
     (exn + SysMetricsCollector) \<times> os" where
  "SysMetricsCollector_new order sensors paths w =
     (case TemperatureCollector_new order sensors (sp_hwmon paths) w of
        (Inl e, w1) \<Rightarrow> (Inl e, w1)
      | (Inr zones, w1) \<Rightarrow>
          let (cpu, w2) = CpuCollector_new (sp_procStat paths) w1;
              (mem, w3) = MemoryCollector_new (sp_procMeminfo paths) w2
          in (Inr \<lparr>temperatureCollector = zones,
                networkCollector = NetworkCollector_new (sp_netStats paths),
                cpuCollector = cpu, memoryCollector = mem\<rparr>, w3))"

text \<open>The members are destroyed in the reverse order.\<close>

definition SysMetricsCollector_destroy :: "SysMetricsCollector \<Rightarrow> os \<Rightarrow> os" where
  "SysMetricsCollector_destroy c w =
     TemperatureCollector_destroy (temperatureCollector c)
       (NetworkCollector_destroy (networkCollector c)
         (CpuCollector_destroy (cpuCollector c)
           (MemoryCollector_destroy (memoryCollector c) w)))"

definition SysMetricsCollector_setInterface ::
    "string \<Rightarrow> SysMetricsCollector \<Rightarrow> os \<Rightarrow> SysMetricsCollector \<times> os" where
  "SysMetricsCollector_setInterface iface c w =
     (let (net, w') = NetworkCollector_setInterface iface (networkCollector c) w
      in (c\<lparr>networkCollector := net\<rparr>, w'))"

text \<open>\<open>now\<close>: \<open>system_clock::now()\<close> in microseconds since the epoch.\<close>

definition SysMetricsCollector_collect ::
    "i64 \<Rightarrow> SysMetricsCollector \<Rightarrow> os \<Rightarrow> SystemStats \<times> SysMetricsCollector" where
  "SysMetricsCollector_collect now c w =
     (let metrics = \<lparr>ss_timestamp_us = now_us now, temperatureStats = None, networkStats = None,
                     cpuStats = None, memoryStats = None\<rparr>;
          metrics = (case TemperatureCollector_collect (temperatureCollector c) w of
             Some t \<Rightarrow> metrics\<lparr>temperatureStats := Some t\<rparr> | None \<Rightarrow> metrics);
          metrics = (case NetworkCollector_collect (networkCollector c) w of
             Some n \<Rightarrow> metrics\<lparr>networkStats := Some n\<rparr> | None \<Rightarrow> metrics);
          (cpuMetrics, cpu) = CpuCollector_collect (cpuCollector c) w;
          metrics = (case cpuMetrics of
             Some s \<Rightarrow> metrics\<lparr>cpuStats := Some s\<rparr> | None \<Rightarrow> metrics);
          metrics = (case MemoryCollector_collect (memoryCollector c) w of
             Some m \<Rightarrow> metrics\<lparr>memoryStats := Some m\<rparr> | None \<Rightarrow> metrics)
      in (metrics, c\<lparr>cpuCollector := cpu\<rparr>))"

section \<open>A snapshot is best effort\<close>

lemma collect_groups:
  "SysMetricsCollector_collect now c w =
     (\<lparr>ss_timestamp_us = now_us now,
       temperatureStats = TemperatureCollector_collect (temperatureCollector c) w,
       networkStats = NetworkCollector_collect (networkCollector c) w,
       cpuStats = fst (CpuCollector_collect (cpuCollector c) w),
       memoryStats = MemoryCollector_collect (memoryCollector c) w\<rparr>,
      c\<lparr>cpuCollector := snd (CpuCollector_collect (cpuCollector c) w)\<rparr>)"
  by (cases "NetworkCollector_collect (networkCollector c) w";
      cases "fst (CpuCollector_collect (cpuCollector c) w)";
      cases "MemoryCollector_collect (memoryCollector c) w")
    (simp_all add: SysMetricsCollector_collect_def TemperatureCollector_collect_def Let_def split_beta)

text \<open>C25. Every snapshot is best effort: the network, CPU and memory groups are present exactly when
  their own source can be read, the temperatures are always there, if only as an empty list, and each
  group holds what its collector reports on its own; a source that is gone neither empties another
  group nor disturbs the state of the collectors.\<close>

theorem snapshot_best_effort:
  "case SysMetricsCollector_collect now c w of (s, c') \<Rightarrow>
     ss_timestamp_us s = now_us now \<and>
     temperatureStats s = TemperatureCollector_collect (temperatureCollector c) w \<and>
     temperatureStats s \<noteq> None \<and>
     networkStats s = NetworkCollector_collect (networkCollector c) w \<and>
     (networkStats s = None \<longleftrightarrow> \<not> net_available (networkCollector c) w) \<and>
     cpuStats s = fst (CpuCollector_collect (cpuCollector c) w) \<and>
     (cpuStats s = None \<longleftrightarrow> \<not> fd_available (cpu_fd (cpuCollector c)) w) \<and>
     memoryStats s = MemoryCollector_collect (memoryCollector c) w \<and>
     (memoryStats s = None \<longleftrightarrow> \<not> fd_available (mem_fd (memoryCollector c)) w) \<and>
     c' = c\<lparr>cpuCollector := snd (CpuCollector_collect (cpuCollector c) w)\<rparr> \<and>
     (fd_available (cpu_fd (cpuCollector c)) w \<or> c' = c)"
proof -
  have n: "NetworkCollector_collect (networkCollector c) w = None \<longleftrightarrow> \<not> net_available (networkCollector c) w"
    using net.collect_iff [of "networkCollector c" w] by simp
  have m: "MemoryCollector_collect (memoryCollector c) w = None \<longleftrightarrow> \<not> fd_available (mem_fd (memoryCollector c)) w"
    using mem.collect_iff [of "memoryCollector c" w] by simp
  have "c = c\<lparr>cpuCollector := cpuCollector c\<rparr>" by simp
  with n m show ?thesis
    using cpu.collect_iff [of "cpuCollector c" w] cpu.collect_none [of "cpuCollector c" w]
    by (auto simp: collect_groups TemperatureCollector_collect_def)
qed

section \<open>Descriptors\<close>

text \<open>All descriptors of the facade, each with the path it must be open on.\<close>

definition owned :: "SysMetricsCollector \<Rightarrow> (int \<times> string) list" where
  "owned c = map (\<lambda>z. (tz_fd z, tz_inputPath z)) (temperatureCollector c) @
     map (\<lambda>e. (me_fd e, me_path e)) (metricEntries (networkCollector c)) @
     [(cpu_fd (cpuCollector c), procStat (cpuCollector c)),
      (mem_fd (memoryCollector c), procMeminfo (memoryCollector c))]"

definition sys_inv :: "SysMetricsCollector \<Rightarrow> os \<Rightarrow> bool" where
  "sys_inv c w \<longleftrightarrow>
     (\<forall>(fd, p) \<in> set (owned c). fd \<noteq> - 1 \<longrightarrow> os_path w fd = Some p) \<and>
     distinct (filter (\<lambda>fd. fd \<noteq> - 1) (map fst (owned c)))"

definition outside :: "SysMetricsCollector \<Rightarrow> os \<Rightarrow> int \<Rightarrow> string option" where
  "outside c w = table_without (map fst (owned c)) w"

text \<open>The operations of the facade as a list of calls.\<close>

datatype sys_call = SetInterface string | Collect i64

fun sys_step :: "sys_call \<Rightarrow> SysMetricsCollector \<times> os \<Rightarrow> SysMetricsCollector \<times> os" where
  "sys_step (SetInterface iface) (c, w) = SysMetricsCollector_setInterface iface c w"
| "sys_step (Collect now) (c, w) = (snd (SysMetricsCollector_collect now c w), w)"

lemma close_one: "os_path (if fd \<noteq> - 1 then os_close fd w else w) =
    (\<lambda>x. if x = fd then None else os_path w x)"
  using os.no_negative [of w] by (auto simp: os.close_path fun_eq_iff)

lemma destroy_outside: "os_path (SysMetricsCollector_destroy c w) = outside c w"
  by (auto simp: SysMetricsCollector_destroy_def TemperatureCollector_destroy_def os.close_each_spec
      destroy_table CpuCollector_destroy_def MemoryCollector_destroy_def table_without_def
      close_one held_def outside_def owned_def fun_eq_iff os.close_path os.no_negative
      split: if_splits)

lemma collect_owned: "owned (snd (SysMetricsCollector_collect now c w)) = owned c"
proof -
  have "procStat (snd (CpuCollector_collect k w)) = procStat k" for k
    by (auto simp: CpuCollector_collect_def split_beta Let_def split: option.splits list.splits)
  then show ?thesis
    by (simp add: collect_groups owned_def)
qed

lemma filter_append_distinct:
  "distinct (filter P (xs @ ys @ zs)) \<longleftrightarrow> distinct (filter P ys) \<and> distinct (filter P (xs @ zs)) \<and>
     (\<forall>x \<in> set ys. P x \<longrightarrow> x \<notin> set xs \<and> x \<notin> set zs)"
  by auto

lemma setInterface_sys_inv:
  assumes inv: "sys_inv c w" and step: "SysMetricsCollector_setInterface iface c w = (c', w')"
  shows "sys_inv c' w'" and "outside c' w' = outside c w"
proof -
  obtain net where n: "NetworkCollector_setInterface iface (networkCollector c) w = (net, w')"
    and c': "c' = c\<lparr>networkCollector := net\<rparr>"
    using step by (cases "NetworkCollector_setInterface iface (networkCollector c) w")
      (simp add: SysMetricsCollector_setInterface_def)
  define A where "A = map (\<lambda>z. (tz_fd z, tz_inputPath z)) (temperatureCollector c)"
  define B where "B = [(cpu_fd (cpuCollector c), procStat (cpuCollector c)),
    (mem_fd (memoryCollector c), procMeminfo (memoryCollector c))]"
  define N where "N = (\<lambda>k :: NetworkCollector. map (\<lambda>e. (me_fd e, me_path e)) (metricEntries k))"
  have own: "owned c = A @ N (networkCollector c) @ B" "owned c' = A @ N net @ B"
    by (simp_all add: owned_def A_def B_def N_def c')
  have heldN: "map fst (N k) = held k" for k by (simp add: N_def held_def comp_def)
  note tab = setInterface_table [OF n]
  have inv1: "\<forall>(fd, p) \<in> set (A @ B). fd \<noteq> - 1 \<longrightarrow> os_path w fd = Some p"
    and dis: "distinct (filter (\<lambda>fd. fd \<noteq> - 1) (map fst (A @ B)))"
    and apart: "\<forall>fd \<in> set (held (networkCollector c)). fd \<noteq> - 1 \<longrightarrow> fd \<notin> set (map fst A) \<and> fd \<notin> set (map fst B)"
    using inv filter_append_distinct [of "\<lambda>fd. fd \<noteq> - 1" "map fst A" "held (networkCollector c)" "map fst B"]
    by (auto simp: sys_inv_def own simp flip: heldN)
  have others: "os_path w' fd = Some p \<and> fd \<notin> set (held net)"
    if "(fd, p) \<in> set (A @ B)" "fd \<noteq> - 1" for fd p
  proof -
    have "fd \<in> set (map fst (A @ B))" using that(1) by force
    then have "fd \<notin> set (held (networkCollector c))" using apart that(2) by auto
    moreover have "os_path w fd = Some p" using inv1 that by blast
    ultimately have "table_without (held net) w' fd = Some p"
      unfolding tab(1) by (simp add: table_without_def)
    then show ?thesis by (simp add: table_without_def split: if_splits)
  qed
  have "\<forall>fd \<in> set (held net). fd \<noteq> - 1 \<longrightarrow> fd \<notin> set (map fst A) \<and> fd \<notin> set (map fst B)"
    using others by fastforce
  then have "distinct (filter (\<lambda>fd. fd \<noteq> - 1) (map fst (owned c')))"
    using tab(2) dis filter_append_distinct [of "\<lambda>fd. fd \<noteq> - 1" "map fst A" "held net" "map fst B"]
    by (simp add: own heldN net_inv_def flip: held_def)
  moreover have "\<forall>(fd, p) \<in> set (owned c'). fd \<noteq> - 1 \<longrightarrow> os_path w' fd = Some p"
    using others tab(2) by (auto simp: own net_inv_def N_def)
  ultimately show "sys_inv c' w'" by (simp add: sys_inv_def)
  have "outside k u = (\<lambda>fd. if fd \<in> set (map fst (A @ B)) then None else table_without (held (networkCollector k)) u fd)"
    if "owned k = A @ N (networkCollector k) @ B" for k u
    using that heldN [of "networkCollector k"]
    by (auto simp: outside_def table_without_def fun_eq_iff simp del: set_map)
  moreover have "networkCollector c' = net" by (simp add: c')
  ultimately show "outside c' w' = outside c w" using own tab(1) by (simp cong: if_cong)
qed

lemma sys_steps_inv:
  "sys_inv c w \<Longrightarrow> fold sys_step calls (c, w) = (c', w') \<Longrightarrow>
     sys_inv c' w' \<and> outside c' w' = outside c w"
proof (induction calls arbitrary: c w)
  case (Cons call calls)
  obtain c1 w1 where s: "sys_step call (c, w) = (c1, w1)" by fastforce
  have "sys_inv c1 w1 \<and> outside c1 w1 = outside c w"
  proof (cases call)
    case (SetInterface i)
    then show ?thesis using s setInterface_sys_inv [OF Cons.prems(1), of i c1 w1] by simp
  next
    case (Collect now)
    then show ?thesis using s collect_owned [of now c w] Cons.prems(1)
      by (auto simp: sys_inv_def outside_def)
  qed
  then show ?case using Cons s by auto
qed simp

text \<open>A list of descriptors with their paths, on top of a table \<open>T\<close>.\<close>

definition tracked :: "(int \<times> string) list \<Rightarrow> os \<Rightarrow> (int \<Rightarrow> string option) \<Rightarrow> bool" where
  "tracked xs w T \<longleftrightarrow> (\<forall>(fd, p) \<in> set xs. fd \<noteq> - 1 \<longrightarrow> os_path w fd = Some p) \<and>
     distinct (filter (\<lambda>fd. fd \<noteq> - 1) (map fst xs)) \<and> table_without (map fst xs) w = T"

lemma tracked_owned: "tracked (owned c) w T \<longleftrightarrow> sys_inv c w \<and> outside c w = T"
  by (simp add: tracked_def sys_inv_def outside_def)

lemma tracked_opened:
  assumes "opened zs w w'"
  shows "tracked (map (\<lambda>z. (tz_fd z, tz_inputPath z)) zs) w' (os_path w)"
  using opened_table [OF assms] by (auto simp: tracked_def comp_def intro!: distinct_filter)

lemma tracked_closed: "tracked xs w T \<Longrightarrow> tracked (xs @ [(- 1, p)]) w T"
proof -
  have "table_without (map fst (xs @ [(- 1, p)])) w = table_without (map fst xs) w"
    by (rule ext) (simp add: table_without_def os.no_negative)
  then show "tracked xs w T \<Longrightarrow> tracked (xs @ [(- 1, p)]) w T"
    by (simp add: tracked_def ball_Un)
qed

lemma tracked_none: "tracked xs w T \<Longrightarrow> tracked (xs @ replicate k (- 1, [])) w T"
proof (induction k)
  case (Suc k)
  have "replicate (Suc k) (- 1 :: int, [] :: string) = replicate k (- 1, []) @ [(- 1, [])]"
    by (simp add: replicate_append_same)
  then show ?case using tracked_closed [OF Suc.IH [OF Suc.prems]] by (simp only: append_assoc)
qed simp

lemma tracked_open:
  assumes t: "tracked xs w T" and o: "os_open p w = (fd, w')"
  shows "tracked (xs @ [(fd, p)]) w' T"
proof (cases "os_readable w p")
  case True
  from os.open_ok [OF this o] have fd: "0 \<le> fd" "os_path w fd = None"
    "os_path w' = (os_path w)(fd := Some p)" by simp_all
  have new: "fd \<notin> fst ` set xs"
  proof
    assume "fd \<in> fst ` set xs"
    then obtain q where "(fd, q) \<in> set xs" by auto
    then show False using t fd(1,2) by (auto simp: tracked_def)
  qed
  have "table_without (map fst (xs @ [(fd, p)])) w' = table_without (map fst xs) w"
    using fd(2,3) by (auto simp: table_without_def fun_eq_iff)
  moreover have "\<forall>(x, q) \<in> set (xs @ [(fd, p)]). x \<noteq> - 1 \<longrightarrow> os_path w' x = Some q"
    using t new fd(3) by (force simp: tracked_def)
  ultimately show ?thesis using t new by (simp add: tracked_def)
next
  case False
  then have "fd = - 1" and "w' = w" using os.open_fail [OF False] o by simp_all
  then show ?thesis using tracked_closed [OF t] by simp
qed

lemma new_sys_inv:
  assumes "SysMetricsCollector_new order sensors paths w = (Inr c, w')" and "order [] = []"
  shows "sys_inv c w'" and "outside c w' = os_path w"
proof -
  obtain zones w1 where t: "TemperatureCollector_new order sensors (sp_hwmon paths) w = (Inr zones, w1)"
    using assms(1) by (auto simp: SysMetricsCollector_new_def split: prod.splits sum.splits)
  from TemperatureCollector_new_spec [OF t assms(2)] have zs: "opened zones w w1"
    by (auto split: if_splits)
  obtain fd1 w2 where o1: "os_open (sp_procStat paths) w1 = (fd1, w2)" by fastforce
  obtain fd2 w3 where o2: "os_open (sp_procMeminfo paths) w2 = (fd2, w3)" by fastforce
  have c: "owned c = map (\<lambda>z. (tz_fd z, tz_inputPath z)) zones @ replicate 7 (- 1, []) @
      [(fd1, sp_procStat paths), (fd2, sp_procMeminfo paths)]" and w': "w' = w3"
    using assms(1) t o1 o2
    by (auto simp: SysMetricsCollector_new_def CpuCollector_new_def MemoryCollector_new_def owned_def
        NetworkCollector_new_def)
  have "tracked (owned c) w' (os_path w)"
    using tracked_open [OF tracked_open [OF tracked_none [OF tracked_opened [OF zs]] o1] o2]
    by (simp add: c w')
  then show "sys_inv c w'" and "outside c w' = os_path w" by (simp_all add: tracked_owned)
qed

text \<open>C17. Any sequence of \<open>setInterface\<close> and \<open>collect\<close> calls on a constructed facade keeps its
  descriptors apart: each one it holds is open on the file it was opened for (a changed network
  interface never takes the descriptor of another collector), and destroying the facade at any
  point leaves the descriptor table as it was before its construction.\<close>

theorem facade_descriptors:
  assumes "SysMetricsCollector_new order sensors paths w = (Inr c, w1)" and "order [] = []"
    and "fold sys_step calls (c, w1) = (c', w')"
  shows "(\<forall>(fd, p) \<in> set (owned c'). fd \<noteq> - 1 \<longrightarrow> os_path w' fd = Some p) \<and>
    distinct (filter (\<lambda>fd. fd \<noteq> - 1) (map fst (owned c'))) \<and>
    os_path (SysMetricsCollector_destroy c' w') = os_path w"
  using new_sys_inv [OF assms(1,2)] sys_steps_inv [OF _ assms(3)]
  by (simp add: sys_inv_def destroy_outside)

theorem facade_descriptors_witness:
  "case fold sys_step [SetInterface ''eth0'', Collect 5, SetInterface ''eth1'']
       (case SysMetricsCollector_new id {} SystemPaths_default net_world of
          (Inr c, w) \<Rightarrow> (c, w)
        | (Inl _, w) \<Rightarrow> (undefined, w)) of (c', w') \<Rightarrow>
     os_path (SysMetricsCollector_destroy c' w') = os_path net_world"
proof -
  have "\<exists>c w1. SysMetricsCollector_new id {} SystemPaths_default net_world = (Inr c, w1)"
    by (simp add: SysMetricsCollector_new_def TemperatureCollector_new_def net_world_def split_beta Let_def)
  then obtain c w1 where n: "SysMetricsCollector_new id {} SystemPaths_default net_world = (Inr c, w1)"
    by blast
  show ?thesis
    using facade_descriptors [OF n _ surjective_pairing, of "[SetInterface ''eth0'', Collect 5, SetInterface ''eth1'']"]
    by (simp add: n split_beta del: sys_step.simps fold_simps)
qed

end
