(* ===== verification/Strtod.thy ===== *)
theory Strtod
  imports Binary64 Scanf
begin

text \<open>
  \<open>std::stod\<close> and \<open>std::llround\<close>, which the topology parser uses to read numbers: the grammar of
  \<open>strtod\<close> (decimal and hexadecimal numbers, infinities, NaN) with correct rounding to binary64
  and its range errors, and rounding half away from zero to 64 bits. What \<open>llround\<close> returns for
  a value that does not fit is left open by the standard and is the argument \<open>big\<close>.
\<close>

section \<open>strtod\<close>

datatype dbl = Fin rat | Infinite bool | NotANumber

text \<open>The exponent part: letter, optional sign, digits; without digits it is not consumed.\<close>

definition exp_part :: "char \<Rightarrow> string \<Rightarrow> int" where
  "exp_part x s =
     (if s \<noteq> [] \<and> to_lower (hd s) = x
      then let (neg, r) = split_sign (tl s) in apply_sign neg (digits_val (takeWhile is_digit r))
      else 0)"

text \<open>Digits around an optional point: all digits, and how many follow the point.\<close>

definition mantissa :: "(char \<Rightarrow> bool) \<Rightarrow> string \<Rightarrow> string \<times> nat \<times> string" where
  "mantissa P s =
     (let ip = takeWhile P s; r = dropWhile P s
      in if r \<noteq> [] \<and> hd r = CHR ''.''
         then (ip @ takeWhile P (tl r), length (takeWhile P (tl r)), dropWhile P (tl r))
         else (ip, 0, r))"

text \<open>The exact value of an unsigned number; \<open>None\<close> when there is none.\<close>

definition number_value :: "string \<Rightarrow> rat option" where
  "number_value u =
     (let (hds, hn, hr) = mantissa is_xdigit (drop 2 u); (ds, n, r) = mantissa is_digit u
      in if hex_prefix u \<and> hds \<noteq> []
         then Some (of_nat (hex_val hds) * 2 powi (exp_part (CHR ''p'') hr - 4 * int hn))
         else if ds \<noteq> [] then Some (of_nat (digits_val ds) * 10 powi (exp_part (CHR ''e'') r - int n))
         else None)"

text \<open>Rounding with the range errors of \<open>strtod\<close>: too large, or too small to be exact.\<close>

definition to_double :: "rat \<Rightarrow> exn + dbl" where
  "to_double x =
     (if x = 0 then Inr (Fin 0)
      else if 2 ^ 1024 \<le> \<bar>rd x\<bar> then Inl OutOfRange
      else if \<bar>x\<bar> < 2 powi (- 1022)
        then (if x * 2 ^ 1074 = of_int \<lfloor>x * 2 ^ 1074\<rfloor> then Inr (Fin x) else Inl OutOfRange)
      else Inr (Fin (rd x)))"

definition stod :: "string \<Rightarrow> exn + dbl" where
  "stod s =
     (let (neg, u) = split_sign (dropWhile is_space s)
      in if match_ci ''inf'' u \<noteq> None then Inr (Infinite neg)
         else if match_ci ''nan'' u \<noteq> None then Inr NotANumber
         else (case number_value u of
             None \<Rightarrow> Inl InvalidArgument
           | Some x \<Rightarrow> to_double (if neg then - x else x)))"

section \<open>llround\<close>

definition half_away :: "rat \<Rightarrow> int" where
  "half_away x = (if 0 \<le> x then \<lfloor>x + 1 / 2\<rfloor> else - \<lfloor>- x + 1 / 2\<rfloor>)"

definition llround :: "(dbl \<Rightarrow> i64) \<Rightarrow> dbl \<Rightarrow> i64" where
  "llround big d = (case d of
       Fin x \<Rightarrow> if - (2 ^ 63) \<le> half_away x \<and> half_away x < 2 ^ 63 then word_of_int (half_away x) else big d
     | _ \<Rightarrow> big d)"

section \<open>Reading a printed number\<close>

lemma half_away_of_int [simp]: "half_away (of_int n) = n"
  by (cases "0 \<le> n") (simp_all add: half_away_def floor_eq_iff)

lemma to_double_of_int:
  assumes "\<bar>n\<bar> \<le> 2 ^ 53"
  shows "to_double (of_int n) = Inr (Fin (of_int n))"
proof (cases "n = 0")
  case False
  have "(2 :: rat) ^ 53 < 2 ^ 1024" by (simp add: power_strict_increasing)
  moreover have "\<bar>of_int n :: rat\<bar> \<le> 2 ^ 53"
    using assms by (metis of_int_abs of_int_le_iff of_int_numeral of_int_power)
  ultimately have "\<not> 2 ^ 1024 \<le> \<bar>of_int n :: rat\<bar>" by linarith
  moreover have "1 \<le> \<bar>of_int n :: rat\<bar>"
    using False by (metis of_int_1_le_iff of_int_abs zero_less_abs_iff int_one_le_iff_zero_less)
  moreover have "(2 :: rat) powi (- 1022) \<le> 1" by (simp add: power_int_minus power_int_def power_le_one)
  ultimately show ?thesis using False assms by (simp add: to_double_def rd_of_int)
qed (simp add: to_double_def)

lemma digit_not_letter:
  assumes "is_digit c"
  shows "to_lower c \<noteq> CHR ''i''" "to_lower c \<noteq> CHR ''n''" "to_lower c \<noteq> CHR ''x''" "to_lower c \<noteq> CHR ''e''"
  using assms by (auto simp: is_digit_def to_lower_def)

lemma not_named:
  assumes "is_digit (hd u)" and "u \<noteq> []"
  shows "match_ci ''inf'' u = None" and "match_ci ''nan'' u = None"
  using assms digit_not_letter(1,2) [OF assms(1)] by (cases u; simp add: match_ci_def)+

lemma not_hex:
  assumes "is_digit (hd u)" and "list_all is_digit ds" and "u = ds @ r" and "r = [] \<or> hd r = CHR ''.''"
  shows "\<not> hex_prefix u"
proof
  assume h: "hex_prefix u"
  then have len: "2 \<le> length u" and x: "to_lower (u ! 1) = CHR ''x''" by (simp_all add: hex_prefix_def)
  have "is_digit (u ! 1) \<or> u ! 1 = CHR ''.''"
  proof (cases "1 < length ds")
    case True
    then show ?thesis using assms(2,3) by (simp add: nth_append list_all_length)
  next
    case False
    have "ds \<noteq> []"
    proof
      assume "ds = []"
      then have "hd u = CHR ''.''" using assms(3,4) len by (cases r) auto
      then show False using assms(1) by (simp add: is_digit_def)
    qed
    then have "length ds = 1" using False by (cases ds) auto
    then have "u ! 1 = hd r" and "r \<noteq> []" using assms(3) len by (cases r; auto simp: nth_append)+
    then show ?thesis using assms(4) by simp
  qed
  then show False using x digit_not_letter(3) by (auto simp: to_lower_def)
qed

lemma number_value_printed:
  assumes "r = [] \<or> r = ''.0''"
  shows "number_value (nat_digits k @ r) = Some (of_nat k)"
proof -
  have "\<not> hex_prefix (nat_digits k @ r)"
    using assms nat_digits_digits [of k] by (intro not_hex [of _ "nat_digits k" r]) (auto simp: list_all_iff)
  moreover have sep: "r = [] \<or> \<not> is_digit (hd r)" using assms by (auto simp: is_digit_def)
  have d0: "is_digit (CHR ''0'')" "digit_val (CHR ''0'') = 0" by (simp_all add: is_digit_def digit_val_def)
  have "mantissa is_digit (nat_digits k @ r) =
      (if r = [] then (nat_digits k, 0, []) else (nat_digits k @ ''0'', 1, []))"
    using assms by (auto simp: mantissa_def Let_def nat_digits_split [OF sep] d0)
  ultimately show ?thesis using assms
    by (auto simp: number_value_def split_beta exp_part_def d0 power_int_minus)
qed

lemma stod_printed:
  assumes "r = [] \<or> r = ''.0''" and "\<bar>n\<bar> \<le> 2 ^ 53"
  shows "stod (show_int n @ r) = Inr (Fin (of_int n))"
proof -
  have digits: "split_sign (nat_digits k @ r) = (False, nat_digits k @ r)" for k
    by (intro split_sign_digit) simp_all
  have named: "match_ci ''inf'' (nat_digits k @ r) = None" "match_ci ''nan'' (nat_digits k @ r) = None" for k
    using not_named [of "nat_digits k @ r"] by simp_all
  show ?thesis
  proof (cases "n < 0")
    case True
    then show ?thesis using to_double_of_int [OF assms(2)]
      by (simp add: stod_def show_int_def named number_value_printed [OF assms(1)])
  next
    case False
    then show ?thesis using to_double_of_int [OF assms(2)]
      by (simp add: stod_def show_int_def named digits number_value_printed [OF assms(1)])
  qed
qed

lemma llround_of_int:
  "- (2 ^ 63) \<le> n \<Longrightarrow> n < 2 ^ 63 \<Longrightarrow> llround big (Fin (of_int n)) = word_of_int n"
  by (simp add: llround_def)

end
