(* ===== verification/Ptp_Topology.thy ===== *)
theory Ptp_Topology
  imports Strtod Clock
begin

text \<open>
  \<open>src/ptp_topology.cpp\<close>: the parser of the four management data sets printed by \<open>pmc\<close> and the
  collector that runs \<open>pmc\<close> once per data set. The child process is a parameter \<open>spawn\<close> on a
  world of its own; the clock and the unspecified part of \<open>llround\<close> are the arguments \<open>now\<close> and
  \<open>big\<close>.
\<close>

section \<open>Scanning helpers\<close>

definition is_trim :: "char \<Rightarrow> bool" where
  "is_trim c \<longleftrightarrow> c \<in> {CHR '' '', CHR 0x09, CHR 0x0D, CHR 0x0A}"

definition trim :: "string \<Rightarrow> string" where
  "trim value = rev (dropWhile is_trim (rev (dropWhile is_trim value)))"

definition firstToken :: "string \<Rightarrow> string" where
  "firstToken value = fst (stream_token value)"

text \<open>The key and the value when the function returns true; the callers use the two output
  parameters in that case only.\<close>

definition parseKeyValue :: "string \<Rightarrow> (string \<times> string) option" where
  "parseKeyValue line =
     (let trimmed = trim line in
      if trimmed = [] \<or> prefix ''sending:'' trimmed then None
      else let (key, r) = stream_token trimmed in
        if key = [] then None
        else let value = trim (takeWhile (\<lambda>c. c \<noteq> newline_char) r)
          in if value = [] then None else Some (key, value))"

definition parsePortNumber :: "string \<Rightarrow> i32 option" where
  "parsePortNumber portIdentity =
     (case rfind_char (CHR ''-'') portIdentity of
        None \<Rightarrow> None
      | Some dash \<Rightarrow>
          if dash + 1 \<ge> length portIdentity then None
          else to_option (stoi (drop (dash + 1) portIdentity)))"

definition parseClockIdentity :: "string \<Rightarrow> string" where
  "parseClockIdentity portIdentity =
     (let token = firstToken portIdentity in
      case rfind_char (CHR ''-'') token of None \<Rightarrow> token | Some dash \<Rightarrow> take dash token)"

definition parseNanoseconds :: "(dbl \<Rightarrow> i64) \<Rightarrow> string \<Rightarrow> i64 option" where
  "parseNanoseconds big value =
     (let token = firstToken value in
      if token = [] then None
      else to_option (res_bind (stod token) (\<lambda>d. Inr (llround big d))))"

section \<open>PtpTopologyParser\<close>

record PtpPortSnapshot =
  portNumber :: i32
  portIdentity :: string
  port_state :: string

definition PtpPortSnapshot_init :: PtpPortSnapshot where
  "PtpPortSnapshot_init = \<lparr>portNumber = 0, portIdentity = [], port_state = []\<rparr>"

record PtpTopologySnapshotData =
  topo_timestamp_us :: u64
  localClockIdentity :: string
  parentClockIdentity :: string
  parentPortNumber :: i32
  grandmasterIdentity :: string
  stepsRemoved :: i32
  meanPathDelayNs :: i64
  childPortNumber :: i32
  ports :: "PtpPortSnapshot list"

definition PtpTopologySnapshotData_init :: PtpTopologySnapshotData where
  "PtpTopologySnapshotData_init = \<lparr>topo_timestamp_us = 0, localClockIdentity = [],
     parentClockIdentity = [], parentPortNumber = 0, grandmasterIdentity = [], stepsRemoved = 0,
     meanPathDelayNs = 0, childPortNumber = 0, ports = []\<rparr>"

text \<open>The bodies of the four loops, for a line that is a key and a value.\<close>

definition default_step :: "string \<times> string \<Rightarrow> PtpTopologySnapshotData \<Rightarrow> PtpTopologySnapshotData" where
  "default_step kv s = (case kv of (key, value) \<Rightarrow>
     if key = ''clockIdentity'' then s\<lparr>localClockIdentity := firstToken value\<rparr> else s)"

definition parent_step :: "string \<times> string \<Rightarrow> PtpTopologySnapshotData \<Rightarrow> PtpTopologySnapshotData" where
  "parent_step kv s = (case kv of (key, value) \<Rightarrow>
     if key = ''parentPortIdentity'' then
       let identity = firstToken value;
           s = s\<lparr>parentClockIdentity := parseClockIdentity identity\<rparr>
       in (case parsePortNumber identity of Some port \<Rightarrow> s\<lparr>parentPortNumber := port\<rparr> | None \<Rightarrow> s)
     else if key = ''grandmasterIdentity'' then s\<lparr>grandmasterIdentity := firstToken value\<rparr>
     else s)"

definition current_step ::
    "(dbl \<Rightarrow> i64) \<Rightarrow> string \<times> string \<Rightarrow> PtpTopologySnapshotData \<Rightarrow> PtpTopologySnapshotData" where
  "current_step big kv s = (case kv of (key, value) \<Rightarrow>
     if key = ''stepsRemoved'' then
       (case parseNanoseconds big value of
          Some steps \<Rightarrow> s\<lparr>stepsRemoved := ucast steps\<rparr> | None \<Rightarrow> s)
     else if key = ''meanPathDelay'' then
       (case parseNanoseconds big value of
          Some delay \<Rightarrow> s\<lparr>meanPathDelayNs := delay\<rparr> | None \<Rightarrow> s)
     else s)"

text \<open>The port loop carries the finished ports and the one being filled.\<close>

type_synonym port_acc = "PtpPortSnapshot list \<times> PtpPortSnapshot option"

definition flush_port :: "port_acc \<Rightarrow> PtpPortSnapshot list" where
  "flush_port acc = (case acc of (ps, None) \<Rightarrow> ps | (ps, Some p) \<Rightarrow> ps @ [p])"

definition port_step :: "string \<times> string \<Rightarrow> port_acc \<Rightarrow> port_acc" where
  "port_step kv acc = (case kv of (key, value) \<Rightarrow>
     if key = ''portIdentity'' then
       let p = PtpPortSnapshot_init\<lparr>portIdentity := firstToken value\<rparr>;
           p = (case parsePortNumber (portIdentity p) of Some n \<Rightarrow> p\<lparr>portNumber := n\<rparr> | None \<Rightarrow> p)
       in (flush_port acc, Some p)
     else if key = ''portState'' then
       (case acc of (ps, Some p) \<Rightarrow> (ps, Some (p\<lparr>port_state := firstToken value\<rparr>)) | (ps, None) \<Rightarrow> acc)
     else acc)"

fun each_line :: "(string \<times> string \<Rightarrow> 's \<Rightarrow> 's) \<Rightarrow> string list \<Rightarrow> 's \<Rightarrow> 's" where
  "each_line f [] s = s"
| "each_line f (line # ls) s =
     (case parseKeyValue line of None \<Rightarrow> each_line f ls s | Some kv \<Rightarrow> each_line f ls (f kv s))"

fun first_slave :: "PtpPortSnapshot list \<Rightarrow> i32 option" where
  "first_slave [] = None"
| "first_slave (p # ps) = (if port_state p = ''SLAVE'' then Some (portNumber p) else first_slave ps)"

definition PtpTopologyParser_parse ::
    "(dbl \<Rightarrow> i64) \<Rightarrow> i64 \<Rightarrow> string \<Rightarrow> string \<Rightarrow> string \<Rightarrow> string \<Rightarrow> PtpTopologySnapshotData option" where
  "PtpTopologyParser_parse big now defaultDataSet parentDataSet currentDataSet portDataSet =
     (let s = PtpTopologySnapshotData_init\<lparr>topo_timestamp_us := nowUs now\<rparr>;
          s = each_line default_step (lines_of defaultDataSet) s;
          s = each_line parent_step (lines_of parentDataSet) s;
          s = each_line (current_step big) (lines_of currentDataSet) s;
          s = s\<lparr>ports := flush_port (each_line port_step (lines_of portDataSet) ([], None))\<rparr>;
          s = (case first_slave (ports s) of Some n \<Rightarrow> s\<lparr>childPortNumber := n\<rparr> | None \<Rightarrow> s)
      in if localClockIdentity s = [] then None else Some s)"

section \<open>PtpTopologyCollector\<close>

record PtpTopologyConfig =
  topology_on :: bool
  pmc_path :: string
  uds_path :: string
  config_path :: string
  domain_number :: i32
  boundary_hops :: i32

definition PtpTopologyConfig_init :: PtpTopologyConfig where
  "PtpTopologyConfig_init = \<lparr>topology_on = False, pmc_path = ''/usr/sbin/pmc'',
     uds_path = ''/var/run/ptp4lro'', config_path = [], domain_number = 0, boundary_hops = 0\<rparr>"

definition PtpTopologyCollector_enabled :: "PtpTopologyConfig \<Rightarrow> bool" where
  "PtpTopologyCollector_enabled config = topology_on config"

definition buildArgs :: "PtpTopologyConfig \<Rightarrow> string \<Rightarrow> string list" where
  "buildArgs config command =
     (let args = [''-u'', ''-b'', show_int (sint (boundary_hops config)),
                  ''-d'', show_int (sint (domain_number config))];
          args = (if config_path config \<noteq> [] then args @ [''-f'', config_path config] else args);
          args = (if uds_path config \<noteq> [] then args @ [''-s'', uds_path config] else args)
      in args @ [command])"

text \<open>
  \<open>spawn path args w\<close> runs a program to its end: its output and exit code, or the exception of
  \<open>bp::child\<close>, and the world after it. The output is read line by line and every line is
  written back with a newline.
\<close>

type_synonym 'w spawner = "string \<Rightarrow> string list \<Rightarrow> 'w \<Rightarrow> (exn + (string \<times> i32)) \<times> 'w"

definition runCommand :: "'w spawner \<Rightarrow> PtpTopologyConfig \<Rightarrow> string \<Rightarrow> 'w \<Rightarrow> string option \<times> 'w" where
  "runCommand spawn config command w =
     (case spawn (pmc_path config) (buildArgs config command) w of
        (Inl e, w') \<Rightarrow> (None, w')
      | (Inr (output, exit_code), w') \<Rightarrow>
          if exit_code \<noteq> 0 then (None, w') else (Some (unlines (lines_of output)), w'))"

definition value_or_empty :: "string option \<Rightarrow> string" where
  "value_or_empty r = (case r of None \<Rightarrow> [] | Some s \<Rightarrow> s)"

definition PtpTopologyCollector_collect ::
    "'w spawner \<Rightarrow> (dbl \<Rightarrow> i64) \<Rightarrow> i64 \<Rightarrow> PtpTopologyConfig \<Rightarrow> 'w \<Rightarrow> PtpTopologySnapshotData option \<times> 'w" where
  "PtpTopologyCollector_collect spawn big now config w =
     (case runCommand spawn config ''GET DEFAULT_DATA_SET'' w of
        (None, w1) \<Rightarrow> (None, w1)
      | (Some defaultDataSet, w1) \<Rightarrow>
          (case runCommand spawn config ''GET PARENT_DATA_SET'' w1 of
             (None, w2) \<Rightarrow> (None, w2)
           | (Some parentDataSet, w2) \<Rightarrow>
               let (currentDataSet, w3) = runCommand spawn config ''GET CURRENT_DATA_SET'' w2;
                   (portDataSet, w4) = runCommand spawn config ''GET PORT_DATA_SET'' w3
               in (PtpTopologyParser_parse big now defaultDataSet parentDataSet
                     (value_or_empty currentDataSet) (value_or_empty portDataSet), w4)))"

end
