(* ===== verification/Topology_Theorems.thy ===== *)
theory Topology_Theorems
  imports Ptp_Topology
begin

text \<open>
  Correctness of the topology parser: for text laid out as \<open>pmc\<close> prints it, the snapshot is a
  function of the (key, first word) pairs of the four data sets, and a snapshot printed that way
  is read back unchanged. The last section is about the commands the collector runs.
\<close>

section \<open>Lines with a key and a value\<close>

lemma trim_space: "is_trim c \<Longrightarrow> is_space c"
  by (auto simp: is_trim_def is_space_def)

definition rstrip :: "string \<Rightarrow> string" where
  "rstrip s = rev (dropWhile is_trim (rev s))"

lemma rstrip_append:
  assumes "xs \<noteq> []" and "\<not> is_trim (last xs)"
  shows "rstrip (xs @ ys) = xs @ rstrip ys"
proof (cases "\<forall>c \<in> set ys. is_trim c")
  case True
  then have "dropWhile is_trim (rev ys) = []" by simp
  moreover have "dropWhile is_trim (rev (xs @ ys)) = dropWhile is_trim (rev xs)"
    using True dropWhile_append2 [of "rev ys" is_trim "rev xs"] by simp
  moreover have "dropWhile is_trim (rev xs) = rev xs"
    using assms by (simp add: dropWhile_eq_self_iff hd_rev)
  ultimately show ?thesis by (simp add: rstrip_def)
next
  case False
  then obtain c where "c \<in> set (rev ys)" "\<not> is_trim c" by auto
  then show ?thesis by (simp add: rstrip_def dropWhile_append1 [of c])
qed

lemma rstrip_prefix: "prefix (rstrip s) s"
  unfolding rstrip_def by (metis suffix_dropWhile suffix_to_prefix rev_rev_ident)

text \<open>A line of a data set: something without key and value, or padding, key, blanks, the first
  word of the value, and the rest of the value.\<close>

datatype ds_line = Noise string | KV string string string string string

definition blank :: "string \<Rightarrow> bool" where
  "blank s \<longleftrightarrow> (\<forall>c \<in> set s. c = CHR '' '' \<or> c = CHR 0x09)"

definition word_text :: "string \<Rightarrow> bool" where
  "word_text s \<longleftrightarrow> s \<noteq> [] \<and> (\<forall>c \<in> set s. \<not> is_space c)"

fun ds_text :: "ds_line \<Rightarrow> string" where
  "ds_text (Noise l) = l"
| "ds_text (KV pad key sep tok rest) = pad @ key @ sep @ tok @ rest"

fun ds_ok :: "ds_line \<Rightarrow> bool" where
  "ds_ok (Noise l) \<longleftrightarrow> parseKeyValue l = None \<and> newline_char \<notin> set l"
| "ds_ok (KV pad key sep tok rest) \<longleftrightarrow> blank pad \<and> word_text key \<and> \<not> prefix ''sending:'' key \<and>
     blank sep \<and> sep \<noteq> [] \<and> word_text tok \<and> (rest = [] \<or> hd rest = CHR '' '' \<or> hd rest = CHR 0x09) \<and>
     newline_char \<notin> set rest"

fun ds_entry :: "ds_line \<Rightarrow> (string \<times> string) option" where
  "ds_entry (Noise l) = None"
| "ds_entry (KV pad key sep tok rest) = Some (key, tok)"

definition entries :: "ds_line list \<Rightarrow> (string \<times> string) list" where
  "entries ls = List.map_filter ds_entry ls"

definition data_set :: "ds_line list \<Rightarrow> string" where
  "data_set ls = unlines (map ds_text ls)"

lemma entries_simps [simp]:
  "entries [] = []"
  "entries (Noise l # ls) = entries ls"
  "entries (KV pad key sep tok rest # ls) = (key, tok) # entries ls"
  by (simp_all add: entries_def map_filter_simps)

lemma word_not_trim: "word_text s \<Longrightarrow> \<not> is_trim (hd s) \<and> \<not> is_trim (last s)"
  unfolding word_text_def using trim_space hd_in_set last_in_set by blast

lemma blank_trim: "blank s \<Longrightarrow> c \<in> set s \<Longrightarrow> is_trim c"
  by (auto simp: blank_def is_trim_def)

lemma blank_no_newline: "blank s \<Longrightarrow> newline_char \<notin> set s"
  unfolding blank_def by (intro notI, drule bspec, assumption) simp

lemma newline_is_space [simp]: "is_space newline_char"
  by (simp add: is_space_def)

lemma word_no_newline: "word_text s \<Longrightarrow> newline_char \<notin> set s"
  unfolding word_text_def using newline_is_space by blast

lemma trim_padded:
  assumes "blank pad" and "word_text w"
  shows "trim (pad @ w @ r) = w @ rstrip r"
proof -
  have "dropWhile is_trim (w @ r) = w @ r"
    using word_not_trim [OF assms(2)] assms(2) by (cases w) (auto simp: word_text_def)
  then have "dropWhile is_trim (pad @ w @ r) = w @ r"
    using blank_trim [OF assms(1)] by (simp add: dropWhile_append2)
  then have "trim (pad @ w @ r) = rstrip (w @ r)" by (simp add: trim_def rstrip_def)
  also have "\<dots> = w @ rstrip r"
    using word_not_trim [OF assms(2)] assms(2) by (intro rstrip_append) (auto simp: word_text_def)
  finally show ?thesis .
qed

lemma firstToken_word:
  "word_text w \<Longrightarrow> r = [] \<or> is_space (hd r) \<Longrightarrow> firstToken (w @ r) = w"
  using stream_token_word [of w r] by (simp add: firstToken_def word_text_def)

lemma firstToken_self: "word_text w \<Longrightarrow> firstToken w = w"
  using firstToken_word [of w "[]"] by simp

lemma prefix_word:
  assumes "\<forall>c \<in> set w. \<not> is_space c" and "ys = [] \<or> is_space (hd ys)"
  shows "prefix w (key @ ys) \<longleftrightarrow> prefix w key"
proof
  assume "prefix w (key @ ys)"
  then consider "prefix w key" | us where "w = key @ us" "prefix us ys"
    by (auto simp: prefix_append)
  then show "prefix w key"
  proof cases
    case 2
    then have "us = []" using assms by (cases us; cases ys) auto
    then show ?thesis using 2 by simp
  qed
qed (simp add: prefix_prefix)

lemma sending_word: "\<forall>c \<in> set ''sending:''. \<not> is_space c"
  by (simp add: is_space_def)

lemma parseKeyValue_line:
  assumes "ds_ok (KV pad key sep tok rest)"
  shows "\<exists>v. parseKeyValue (ds_text (KV pad key sep tok rest)) = Some (key, v) \<and> firstToken v = tok"
proof -
  have ok: "blank pad" "word_text key" "blank sep" "sep \<noteq> []" "word_text tok"
    "\<not> prefix ''sending:'' key" using assms by simp_all
  define r where "r = rstrip rest"
  have r: "r = [] \<or> is_space (hd r)"
    using assms rstrip_prefix [of rest] by (cases rest; cases r) (auto simp: r_def prefix_def is_space_def)
  have rn: "newline_char \<notin> set r"
    using assms set_mono_prefix [OF rstrip_prefix [of rest]] by (auto simp: r_def)
  have sp: "hd sep = CHR '' '' \<or> hd sep = CHR 0x09" using ok(3,4) by (auto simp: blank_def)
  have t: "trim (ds_text (KV pad key sep tok rest)) = key @ sep @ tok @ r"
  proof -
    have "rstrip (sep @ tok @ rest) = (sep @ tok) @ rstrip rest"
      using rstrip_append [of "sep @ tok" rest] word_not_trim [OF ok(5)] ok(5)
      by (simp add: word_text_def)
    then show ?thesis using trim_padded [OF ok(1,2), of "sep @ tok @ rest"] by (simp add: r_def)
  qed
  note key = ok(2) [unfolded word_text_def]
  have seps: "is_space (hd (sep @ tok @ r))" using sp ok(4) by (auto simp: is_space_def)
  have send: "prefix ''sending:'' (key @ sep @ tok @ r) \<longleftrightarrow> False"
    using ok(6) unfolding prefix_word [OF sending_word disjI2 [OF seps]] by blast
  have st: "stream_token (key @ sep @ tok @ r) = (key, sep @ tok @ r)"
    by (rule stream_token_word [OF conjunct2 [OF key] conjunct1 [OF key] disjI2 [OF seps]])
  have "\<forall>c \<in> set (sep @ tok @ r). c \<noteq> newline_char"
    using rn word_no_newline [OF ok(5)] blank_no_newline [OF ok(3)] by auto
  then have tw: "takeWhile (\<lambda>c. c \<noteq> newline_char) (sep @ tok @ r) = sep @ tok @ r"
    by (simp only: takeWhile_eq_all_conv)
  have "rstrip r = r" by (simp add: r_def rstrip_def)
  then have tv: "trim (sep @ tok @ r) = tok @ r"
    using trim_padded [OF ok(3,5), of r] by simp
  have "parseKeyValue (ds_text (KV pad key sep tok rest)) = Some (key, tok @ r)"
    unfolding parseKeyValue_def t Let_def send st prod.case tw tv
    using ok(2,5) by (simp add: word_text_def)
  then show ?thesis using firstToken_word [OF ok(5) r] by blast
qed

section \<open>The loops over a data set\<close>

text \<open>A loop body that looks at the first word of the value only sees the entries.\<close>

lemma each_line_entries:
  assumes "list_all ds_ok ls" and "\<And>k v s. f (k, v) s = f (k, firstToken v) s"
  shows "each_line f (map ds_text ls) s = fold f (entries ls) s"
  using assms(1)
proof (induction ls arbitrary: s)
  case (Cons l ls)
  show ?case
  proof (cases l)
    case (Noise x)
    then show ?thesis using Cons by simp
  next
    case (KV pad key sep tok rest)
    obtain v where v: "parseKeyValue (ds_text l) = Some (key, v)" "firstToken v = tok"
      using parseKeyValue_line [of pad key sep tok rest] Cons.prems KV by auto
    have "each_line f (map ds_text (l # ls)) s = each_line f (map ds_text ls) (f (key, v) s)"
      by (simp add: v(1) del: ds_text.simps)
    also have "\<dots> = fold f (entries ls) (f (key, tok) s)"
      using Cons assms(2) [of key v] v(2) by simp
    finally show ?thesis by (simp add: KV)
  qed
qed simp

lemma ds_text_no_newline: "ds_ok l \<Longrightarrow> newline_char \<notin> set (ds_text l)"
  by (cases l) (simp_all add: blank_no_newline word_no_newline)

lemma lines_of_data_set: "list_all ds_ok ls \<Longrightarrow> lines_of (data_set ls) = map ds_text ls"
  unfolding data_set_def by (rule lines_of_unlines) (auto simp: list_all_iff ds_text_no_newline)

lemma entries_words: "list_all ds_ok ls \<Longrightarrow> (k, t) \<in> set (entries ls) \<Longrightarrow> word_text t"
proof (induction ls)
  case (Cons l ls)
  then show ?case by (cases l) auto
qed simp

lemma firstToken_idem [simp]: "firstToken (firstToken v) = firstToken v"
proof (cases "firstToken v = []")
  case True
  then show ?thesis by (simp add: firstToken_def stream_token_def)
next
  case False
  have "\<forall>c \<in> set (firstToken v). \<not> is_space c"
    by (auto simp: firstToken_def stream_token_def Let_def dest: set_takeWhileD)
  with False show ?thesis by (intro firstToken_self) (simp add: word_text_def)
qed

text \<open>The value the last entry that has one gives, else the default.\<close>

definition latest :: "('a \<Rightarrow> 'b option) \<Rightarrow> 'a list \<Rightarrow> 'b \<Rightarrow> 'b" where
  "latest f xs d = (case List.map_filter f (rev xs) of [] \<Rightarrow> d | y # _ \<Rightarrow> y)"

lemma latest_simps [simp]:
  "latest f [] d = d"
  "latest f (xs @ [x]) d = (case f x of Some y \<Rightarrow> y | None \<Rightarrow> latest f xs d)"
  by (simp_all add: latest_def map_filter_simps split: option.split)

lemma latest_Cons: "latest f (x # xs) d = latest f xs (case f x of Some y \<Rightarrow> y | None \<Rightarrow> d)"
proof (induction xs rule: rev_induct)
  case Nil
  show ?case using latest_simps(2) [of f "[]" x d] by (cases "f x") simp_all
next
  case (snoc y ys)
  show ?case using latest_simps(2) [of f "x # ys" y d] snoc by (cases "f y") simp_all
qed

definition key_word :: "string \<Rightarrow> string \<times> string \<Rightarrow> string option" where
  "key_word k e = (if fst e = k then Some (snd e) else None)"

definition key_value :: "string \<Rightarrow> (string \<Rightarrow> 'v option) \<Rightarrow> string \<times> string \<Rightarrow> 'v option" where
  "key_value k f e = (if fst e = k then f (snd e) else None)"

text \<open>The number a word of a data set stands for.\<close>

definition word_ns :: "(dbl \<Rightarrow> i64) \<Rightarrow> string \<Rightarrow> i64 option" where
  "word_ns big t = to_option (res_bind (stod t) (\<lambda>d. Inr (llround big d)))"

definition clock_part :: "string \<Rightarrow> string" where
  "clock_part t = (case rfind_char (CHR ''-'') t of None \<Rightarrow> t | Some dash \<Rightarrow> take dash t)"

lemma parseNanoseconds_word: "word_text t \<Longrightarrow> parseNanoseconds big t = word_ns big t"
  by (simp add: parseNanoseconds_def word_ns_def firstToken_self word_text_def)

lemma default_loop:
  assumes "\<forall>(k, t) \<in> set es. word_text t"
  shows "fold default_step es s =
    s\<lparr>localClockIdentity := latest (key_word ''clockIdentity'') es (localClockIdentity s)\<rparr>"
  using assms
proof (induction es rule: rev_induct)
  case (snoc e es)
  then show ?case
    by (cases e) (simp add: default_step_def key_word_def firstToken_self)
qed simp

definition parent_fields ::
    "(string \<times> string) list \<Rightarrow> PtpTopologySnapshotData \<Rightarrow> PtpTopologySnapshotData" where
  "parent_fields es s =
     s\<lparr>parentClockIdentity := latest (key_value ''parentPortIdentity'' (Some \<circ> clock_part)) es (parentClockIdentity s),
       parentPortNumber := latest (key_value ''parentPortIdentity'' parsePortNumber) es (parentPortNumber s),
       grandmasterIdentity := latest (key_word ''grandmasterIdentity'') es (grandmasterIdentity s)\<rparr>"

lemma parent_loop:
  assumes "\<forall>(k, t) \<in> set es. word_text t"
  shows "fold parent_step es s = parent_fields es s"
  using assms
proof (induction es rule: rev_induct)
  case (snoc e es)
  obtain k t where e: "e = (k, t)" by fastforce
  have t: "firstToken t = t" "parseClockIdentity t = clock_part t"
    using snoc.prems by (simp_all add: e firstToken_self parseClockIdentity_def clock_part_def)
  consider "k = ''parentPortIdentity''" | "k = ''grandmasterIdentity''"
    | "k \<noteq> ''parentPortIdentity''" "k \<noteq> ''grandmasterIdentity''" by blast
  then show ?case using snoc t
    by cases (simp_all add: e parent_fields_def parent_step_def key_value_def key_word_def Let_def
        split: option.split)
qed (simp add: parent_fields_def)

definition current_fields ::
    "(dbl \<Rightarrow> i64) \<Rightarrow> (string \<times> string) list \<Rightarrow> PtpTopologySnapshotData \<Rightarrow> PtpTopologySnapshotData" where
  "current_fields big es s =
     s\<lparr>stepsRemoved := latest (key_value ''stepsRemoved'' (map_option ucast \<circ> word_ns big)) es (stepsRemoved s),
       meanPathDelayNs := latest (key_value ''meanPathDelay'' (word_ns big)) es (meanPathDelayNs s)\<rparr>"

lemma current_loop:
  assumes "\<forall>(k, t) \<in> set es. word_text t"
  shows "fold (current_step big) es s = current_fields big es s"
  using assms
proof (induction es rule: rev_induct)
  case (snoc e es)
  obtain k t where e: "e = (k, t)" by fastforce
  have t: "parseNanoseconds big t = word_ns big t"
    using snoc.prems by (simp add: e parseNanoseconds_word)
  consider "k = ''stepsRemoved''" | "k = ''meanPathDelay''"
    | "k \<noteq> ''stepsRemoved''" "k \<noteq> ''meanPathDelay''" by blast
  then show ?case using snoc t
    by cases (simp_all add: e current_fields_def current_step_def key_value_def split: option.split)
qed (simp add: current_fields_def)

text \<open>Ports: a \<open>portIdentity\<close> entry starts one, and its state is the last \<open>portState\<close> before the
  next one. What comes before the first port is ignored.\<close>

function port_groups :: "(string \<times> string) list \<Rightarrow> PtpPortSnapshot list" where
  "port_groups [] = []"
| "port_groups (e # es) =
     (if fst e = ''portIdentity'' then
        \<lparr>portNumber = (case parsePortNumber (snd e) of Some n \<Rightarrow> n | None \<Rightarrow> 0),
         portIdentity = snd e,
         port_state = latest (key_word ''portState'') (takeWhile (\<lambda>e. fst e \<noteq> ''portIdentity'') es) []\<rparr>
        # port_groups (dropWhile (\<lambda>e. fst e \<noteq> ''portIdentity'') es)
      else port_groups es)"
  by pat_completeness auto
termination
  by (relation "measure length") (auto simp: length_dropWhile_le less_Suc_eq_le)

lemma port_loop:
  assumes "\<forall>(k, t) \<in> set es. word_text t"
  shows "flush_port (fold port_step es (ps, cur)) =
    (case cur of
       None \<Rightarrow> ps @ port_groups es
     | Some p \<Rightarrow> ps @ p\<lparr>port_state := latest (key_word ''portState'')
           (takeWhile (\<lambda>e. fst e \<noteq> ''portIdentity'') es) (port_state p)\<rparr>
         # port_groups (dropWhile (\<lambda>e. fst e \<noteq> ''portIdentity'') es))"
  using assms
proof (induction es arbitrary: ps cur)
  case Nil
  then show ?case by (simp add: flush_port_def split: option.split)
next
  case (Cons e es)
  obtain k t where e: "e = (k, t)" by fastforce
  have t: "firstToken t = t" using Cons.prems by (simp add: e firstToken_self)
  have prems: "\<forall>(k, t) \<in> set es. word_text t" using Cons.prems by simp
  note IH = Cons.IH [OF prems]
  consider "k = ''portIdentity''" | "k = ''portState''"
    | "k \<noteq> ''portIdentity''" "k \<noteq> ''portState''" by blast
  then show ?case
  proof cases
    case 1
    then show ?thesis using IH t
      by (cases "parsePortNumber t"; cases cur)
        (simp_all add: e port_step_def PtpPortSnapshot_init_def Let_def flush_port_def)
  next
    case 2
    then show ?thesis using IH t
      by (cases cur) (simp_all add: e port_step_def latest_Cons key_word_def)
  next
    case 3
    then show ?thesis using IH
      by (cases cur) (simp_all add: e port_step_def latest_Cons key_word_def)
  qed
qed

section \<open>The parser\<close>

text \<open>The reference: a snapshot as a function of the (key, word) entries of the data sets.\<close>

definition topology_of ::
    "(dbl \<Rightarrow> i64) \<Rightarrow> u64 \<Rightarrow> (string \<times> string) list \<Rightarrow> (string \<times> string) list \<Rightarrow>
     (string \<times> string) list \<Rightarrow> (string \<times> string) list \<Rightarrow> PtpTopologySnapshotData" where
  "topology_of big now d p c q =
     \<lparr>topo_timestamp_us = nowUs now,
      localClockIdentity = latest (key_word ''clockIdentity'') d [],
      parentClockIdentity = latest (key_value ''parentPortIdentity'' (Some \<circ> clock_part)) p [],
      parentPortNumber = latest (key_value ''parentPortIdentity'' parsePortNumber) p 0,
      grandmasterIdentity = latest (key_word ''grandmasterIdentity'') p [],
      stepsRemoved = latest (key_value ''stepsRemoved'' (map_option ucast \<circ> word_ns big)) c 0,
      meanPathDelayNs = latest (key_value ''meanPathDelay'' (word_ns big)) c 0,
      childPortNumber = (case find (\<lambda>p. port_state p = ''SLAVE'') (port_groups q) of
          Some p \<Rightarrow> portNumber p | None \<Rightarrow> 0),
      ports = port_groups q\<rparr>"

lemma first_slave_find: "first_slave ps = map_option portNumber (find (\<lambda>p. port_state p = ''SLAVE'') ps)"
  by (induction ps) simp_all

lemma parse_step_words:
  "default_step (k, v) s = default_step (k, firstToken v) s"
  "parent_step (k, v) s = parent_step (k, firstToken v) s"
  "current_step big (k, v) s = current_step big (k, firstToken v) s"
  "port_step (k, v) acc = port_step (k, firstToken v) acc"
  by (simp_all add: default_step_def parent_step_def current_step_def port_step_def
      parseNanoseconds_def Let_def)

lemma latest_word_nonempty:
  assumes "\<forall>(k, t) \<in> set es. word_text t"
  shows "latest (key_word x) es [] = [] \<longleftrightarrow> x \<notin> fst ` set es"
  using assms
proof (induction es rule: rev_induct)
  case (snoc e es)
  then show ?case by (cases e) (auto simp: key_word_def word_text_def)
qed simp

text \<open>C9. For output laid out as \<open>pmc\<close> prints it, the parser returns the snapshot that the last
  value of each key describes: the local clock, the two parts of the parent port, the
  grandmaster, the steps removed and the mean path delay as rounded numbers, one port per
  \<open>portIdentity\<close> with its last state, and the number of the first \<open>SLAVE\<close> port as child port.
  There is a snapshot exactly when the default data set has a \<open>clockIdentity\<close>.\<close>

theorem topology_parsed:
  assumes "list_all ds_ok d" and "list_all ds_ok p" and "list_all ds_ok c" and "list_all ds_ok q"
  shows "PtpTopologyParser_parse big now (data_set d) (data_set p) (data_set c) (data_set q) =
    (if ''clockIdentity'' \<in> fst ` set (entries d)
     then Some (topology_of big now (entries d) (entries p) (entries c) (entries q)) else None)"
proof -
  have words: "\<forall>(k, t) \<in> set (entries ls). word_text t" if "list_all ds_ok ls" for ls
    using entries_words [OF that] by auto
  have loops:
    "each_line default_step (lines_of (data_set d)) s = fold default_step (entries d) s"
    "each_line parent_step (lines_of (data_set p)) s = fold parent_step (entries p) s"
    "each_line (current_step big) (lines_of (data_set c)) s = fold (current_step big) (entries c) s"
    "each_line port_step (lines_of (data_set q)) acc = fold port_step (entries q) acc" for s acc
    by (subst lines_of_data_set [OF assms(1)], rule each_line_entries [OF assms(1)], rule parse_step_words)
      (subst lines_of_data_set [OF assms(2)], rule each_line_entries [OF assms(2)], rule parse_step_words,
       subst lines_of_data_set [OF assms(3)], rule each_line_entries [OF assms(3)], rule parse_step_words,
       subst lines_of_data_set [OF assms(4)], rule each_line_entries [OF assms(4)], rule parse_step_words)
  show ?thesis
    unfolding PtpTopologyParser_parse_def loops Let_def default_loop [OF words [OF assms(1)]]
      parent_loop [OF words [OF assms(2)]] current_loop [OF words [OF assms(3)]]
      port_loop [OF words [OF assms(4)]]
    using latest_word_nonempty [OF words [OF assms(1)], of "''clockIdentity''"]
    by (auto simp: parent_fields_def current_fields_def PtpTopologySnapshotData_init_def
        topology_of_def first_slave_find split: option.split)
qed

lemma topology_parsed_witness:
  "PtpTopologyParser_parse (\<lambda>_. 0) 7 (data_set [KV [] ''clockIdentity'' '' '' ''ab'' []])
     (data_set [KV [] ''parentPortIdentity'' '' '' ''cd-3'' []]) (data_set [])
     (data_set [KV [] ''portIdentity'' '' '' ''ab-1'' [], KV [] ''portState'' '' '' ''SLAVE'' []]) =
   Some (topology_of (\<lambda>_. 0) 7 [(''clockIdentity'', ''ab'')] [(''parentPortIdentity'', ''cd-3'')] []
     [(''portIdentity'', ''ab-1''), (''portState'', ''SLAVE'')])"
  by (subst topology_parsed) (simp_all add: blank_def word_text_def is_space_def)

section \<open>A snapshot printed by pmc is read back\<close>

definition port_id :: "string \<Rightarrow> i32 \<Rightarrow> string" where
  "port_id clock n = clock @ ''-'' @ show_int (sint n)"

text \<open>A reply: the request echoed, the sender, and one line per field.\<close>

definition reply_lines :: "string \<Rightarrow> string \<Rightarrow> ds_line list" where
  "reply_lines sender name =
     [Noise (''sending:'' @ '' GET '' @ name),
      KV [CHR 0x09] sender '' '' ''seq'' ('' 0 RESPONSE MANAGEMENT '' @ name @ '' '')]"

definition field_line :: "string \<Rightarrow> string \<Rightarrow> ds_line" where
  "field_line key v = KV [CHR 0x09, CHR 0x09] key '' '' v []"

definition pmc_default :: "PtpTopologySnapshotData \<Rightarrow> ds_line list" where
  "pmc_default s = reply_lines (port_id (localClockIdentity s) 0) ''DEFAULT_DATA_SET'' @
     [field_line ''numberPorts'' (show_int (int (length (ports s)))),
      field_line ''clockIdentity'' (localClockIdentity s)]"

definition pmc_parent :: "PtpTopologySnapshotData \<Rightarrow> ds_line list" where
  "pmc_parent s = reply_lines (port_id (localClockIdentity s) 0) ''PARENT_DATA_SET'' @
     [field_line ''parentPortIdentity'' (port_id (parentClockIdentity s) (parentPortNumber s)),
      field_line ''grandmasterIdentity'' (grandmasterIdentity s)]"

definition pmc_current :: "PtpTopologySnapshotData \<Rightarrow> ds_line list" where
  "pmc_current s = reply_lines (port_id (localClockIdentity s) 0) ''CURRENT_DATA_SET'' @
     [field_line ''stepsRemoved'' (show_int (sint (stepsRemoved s))),
      field_line ''meanPathDelay'' (show_int (sint (meanPathDelayNs s)) @ ''.0'')]"

definition pmc_port :: "PtpPortSnapshot \<Rightarrow> ds_line list" where
  "pmc_port p = reply_lines (portIdentity p) ''PORT_DATA_SET'' @
     [field_line ''portIdentity'' (portIdentity p), field_line ''portState'' (port_state p)]"

definition pmc_ports :: "PtpTopologySnapshotData \<Rightarrow> ds_line list" where
  "pmc_ports s = concat (map pmc_port (ports s))"

text \<open>Snapshots as a management tool describes them: identities and states are words, port
  numbers are not negative, a port is called by its clock and its number, the delay is within
  the integers a double holds, and the child port is the first one in the \<open>SLAVE\<close> state.\<close>

definition clock_ok :: "string \<Rightarrow> bool" where
  "clock_ok c \<longleftrightarrow> word_text c \<and> list_all (\<lambda>x. x \<noteq> CHR '':'') c"

definition port_ok :: "PtpPortSnapshot \<Rightarrow> bool" where
  "port_ok p \<longleftrightarrow> 0 \<le> sint (portNumber p) \<and> word_text (port_state p) \<and>
     (\<exists>clock. clock_ok clock \<and> portIdentity p = port_id clock (portNumber p))"

definition snapshot_ok :: "PtpTopologySnapshotData \<Rightarrow> bool" where
  "snapshot_ok s \<longleftrightarrow>
     clock_ok (localClockIdentity s) \<and> clock_ok (parentClockIdentity s) \<and>
     0 \<le> sint (parentPortNumber s) \<and> clock_ok (grandmasterIdentity s) \<and>
     \<bar>sint (meanPathDelayNs s)\<bar> \<le> 2 ^ 53 \<and> list_all port_ok (ports s) \<and>
     childPortNumber s = (case find (\<lambda>p. port_state p = ''SLAVE'') (ports s) of
        Some p \<Rightarrow> portNumber p | None \<Rightarrow> 0)"

lemma show_nat_digits: "0 \<le> sint n \<Longrightarrow> show_int (sint n) = nat_digits (nat (sint n))"
  by (simp add: show_int_def)

lemma digits_props:
  "\<forall>c \<in> set (nat_digits n). \<not> is_space c \<and> c \<noteq> CHR ''-'' \<and> c \<noteq> CHR '':''"
proof
  fix c
  assume "c \<in> set (nat_digits n)"
  then have "is_digit c" using nat_digits_digits by blast
  then show "\<not> is_space c \<and> c \<noteq> CHR ''-'' \<and> c \<noteq> CHR '':''"
    by (auto simp: is_digit_def)
qed

lemma show_int_word: "word_text (show_int i)"
  using digits_props by (auto simp: word_text_def show_int_def is_space_def [of "CHR ''-''"])

lemma word_append: "word_text a \<Longrightarrow> \<forall>c \<in> set b. \<not> is_space c \<Longrightarrow> word_text (a @ b)"
  by (auto simp: word_text_def)

lemma port_id_word: "word_text clock \<Longrightarrow> word_text (port_id clock n)"
  using show_int_word [of "sint n"] unfolding port_id_def
  by (intro word_append) (auto simp: word_text_def is_space_def [of "CHR ''-''"])

lemma port_id_dash:
  assumes "0 \<le> sint n"
  shows "rfind_char (CHR ''-'') (port_id clock n) = Some (length clock)"
  using rfind_char_last [of "CHR ''-''" "nat_digits (nat (sint n))" clock] digits_props
  by (auto simp: port_id_def show_nat_digits [OF assms])

lemma port_id_number: "0 \<le> sint n \<Longrightarrow> parsePortNumber (port_id clock n) = Some n"
  by (simp add: parsePortNumber_def port_id_dash) (simp add: port_id_def)

lemma port_id_clock: "0 \<le> sint n \<Longrightarrow> clock_part (port_id clock n) = clock"
  by (simp add: clock_part_def port_id_dash) (simp add: port_id_def)

lemma port_id_last: "is_digit (last (port_id clock n))"
proof -
  have "last (nat_digits k) \<in> set (nat_digits k)" for k by simp
  then have "is_digit (last (nat_digits k))" for k using nat_digits_digits by blast
  then show ?thesis by (simp add: port_id_def show_int_def)
qed

lemma port_id_key:
  "port_id clock n \<noteq> ''clockIdentity''" "port_id clock n \<noteq> ''parentPortIdentity''"
  "port_id clock n \<noteq> ''grandmasterIdentity''" "port_id clock n \<noteq> ''stepsRemoved''"
  "port_id clock n \<noteq> ''meanPathDelay''" "port_id clock n \<noteq> ''portIdentity''"
  "port_id clock n \<noteq> ''portState''"
  using port_id_last [of clock n] by (auto simp: is_digit_def)

lemma show_int_no_colon: "CHR '':'' \<notin> set (show_int i)"
  using digits_props [of "nat (- i)"] digits_props [of "nat i"] by (simp add: show_int_def) blast

lemma port_id_not_sending:
  assumes "clock_ok clock"
  shows "\<not> prefix ''sending:'' (port_id clock n)"
proof
  assume "prefix ''sending:'' (port_id clock n)"
  then have "set ''sending:'' \<subseteq> set (port_id clock n)" by (rule set_mono_prefix)
  moreover have "CHR '':'' \<in> set ''sending:''" by simp
  ultimately have "CHR '':'' \<in> set (port_id clock n)" by (rule subsetD)
  then have "CHR '':'' \<in> set clock" using show_int_no_colon by (simp add: port_id_def)
  then show False using assms unfolding clock_ok_def list_all_iff by blast
qed

lemma noise_ok:
  assumes "newline_char \<notin> set name"
  shows "ds_ok (Noise (''sending:'' @ '' GET '' @ name))"
proof -
  have "word_text ''sending:''" using sending_word by (simp add: word_text_def)
  then have "trim ([] @ ''sending:'' @ '' GET '' @ name) = ''sending:'' @ rstrip ('' GET '' @ name)"
    by (intro trim_padded) (simp_all add: blank_def)
  then have "parseKeyValue (''sending:'' @ '' GET '' @ name) = None"
    by (simp add: parseKeyValue_def)
  then show ?thesis using assms by simp
qed

lemma reply_ok:
  assumes "clock_ok clock" and "newline_char \<notin> set name"
  shows "list_all ds_ok (reply_lines (port_id clock n) name)"
proof -
  have "word_text ''seq''" by (simp add: word_text_def is_space_def)
  then have "ds_ok (KV [CHR 0x09] (port_id clock n) '' '' ''seq'' ('' 0 RESPONSE MANAGEMENT '' @ name @ '' ''))"
    using port_id_word [of clock n] port_id_not_sending [OF assms(1), of n] assms
    by (simp add: clock_ok_def blank_def)
  with noise_ok [OF assms(2)] show ?thesis by (simp only: reply_lines_def list.pred_inject)
qed

lemma field_ok:
  assumes "word_text key" and "\<not> prefix ''sending:'' key" and "word_text v"
  shows "ds_ok (field_line key v)"
  using assms by (simp add: field_line_def blank_def)

lemma entries_reply [simp]:
  "entries (reply_lines sender name @ ls) = (sender, ''seq'') # entries ls"
  "entries (field_line key v # ls) = (key, v) # entries ls"
  by (simp_all add: reply_lines_def field_line_def)

lemma entries_pmc_port:
  "entries (pmc_port p @ ls) = (portIdentity p, ''seq'') # (''portIdentity'', portIdentity p) #
     (''portState'', port_state p) # entries ls"
  by (simp add: pmc_port_def)

lemma literal_words:
  "word_text ''numberPorts''" "word_text ''clockIdentity''" "word_text ''parentPortIdentity''"
  "word_text ''grandmasterIdentity''" "word_text ''stepsRemoved''" "word_text ''meanPathDelay''"
  "word_text ''portIdentity''" "word_text ''portState''"
  by (simp_all add: word_text_def is_space_def)

lemma delay_word: "word_text (show_int i @ ''.0'')"
  using show_int_word by (intro word_append) (simp_all add: is_space_def)

lemma pmc_ok:
  assumes "snapshot_ok s"
  shows "list_all ds_ok (pmc_default s)" "list_all ds_ok (pmc_parent s)"
    "list_all ds_ok (pmc_current s)" "list_all ds_ok (pmc_ports s)"
proof -
  have w: "word_text (localClockIdentity s)" "word_text (parentClockIdentity s)" "word_text (grandmasterIdentity s)"
    using assms by (simp_all add: snapshot_ok_def clock_ok_def)
  have c: "clock_ok (localClockIdentity s)" using assms by (simp add: snapshot_ok_def)
  show "list_all ds_ok (pmc_default s)"
    unfolding pmc_default_def list_all_append using reply_ok [OF c] w(1) literal_words show_int_word
    by (simp add: field_ok)
  show "list_all ds_ok (pmc_parent s)"
    unfolding pmc_parent_def list_all_append using reply_ok [OF c] port_id_word w(2,3) literal_words
    by (simp add: field_ok)
  show "list_all ds_ok (pmc_current s)"
    unfolding pmc_current_def list_all_append using reply_ok [OF c] delay_word literal_words show_int_word
    by (simp add: field_ok)
  have "list_all ds_ok (pmc_port p)" if "port_ok p" for p
  proof -
    obtain clock where clock: "clock_ok clock" "portIdentity p = port_id clock (portNumber p)"
      using \<open>port_ok p\<close> by (auto simp: port_ok_def)
    then have "word_text (portIdentity p)" using port_id_word by (simp add: clock_ok_def)
    moreover have "word_text (port_state p)" using \<open>port_ok p\<close> by (simp add: port_ok_def)
    ultimately show ?thesis
      unfolding pmc_port_def list_all_append using reply_ok [OF clock(1)] literal_words clock(2)
      by (simp add: field_ok)
  qed
  then show "list_all ds_ok (pmc_ports s)"
    using assms by (auto simp: snapshot_ok_def pmc_ports_def list_all_iff)
qed

lemma port_groups_pmc:
  assumes "list_all port_ok ps"
  shows "port_groups (entries (concat (map pmc_port ps))) = ps"
  using assms
proof (induction ps)
  case (Cons p ps)
  have key: "portIdentity q \<noteq> ''portIdentity''" "portIdentity q \<noteq> ''portState''"
    "parsePortNumber (portIdentity q) = Some (portNumber q)" if "port_ok q" for q
    using that port_id_key(6,7) port_id_number unfolding port_ok_def by metis+
  have p: "port_ok p" using Cons.prems by simp
  have IH: "port_groups (entries (concat (map pmc_port ps))) = ps" using Cons by simp
  have "latest (key_word ''portState'') (takeWhile (\<lambda>e. fst e \<noteq> ''portIdentity'')
      (entries (concat (map pmc_port ps)))) d = d \<and>
    port_groups (dropWhile (\<lambda>e. fst e \<noteq> ''portIdentity'') (entries (concat (map pmc_port ps)))) = ps" for d
  proof (cases ps)
    case (Cons q qs)
    have "port_ok q" using Cons.prems Cons by simp
    then show ?thesis using IH key [of q] by (simp add: Cons entries_pmc_port latest_Cons key_word_def)
  qed simp
  then show ?case using key [OF p]
    by (simp add: entries_pmc_port latest_Cons key_word_def)
qed simp

lemma word_ns_printed:
  assumes "r = [] \<or> r = ''.0''" and "\<bar>n\<bar> \<le> 2 ^ 53"
  shows "word_ns big (show_int n @ r) = Some (word_of_int n)"
proof -
  have "- (2 ^ 63) \<le> n" and "n < 2 ^ 63" using assms(2) by simp_all
  then show ?thesis by (simp add: word_ns_def stod_printed [OF assms] llround_of_int)
qed

text \<open>C19. Round trip: the four replies that describe a topology snapshot are parsed back to the
  same snapshot, with the time of the parse: identities, port numbers, steps removed, delay,
  every port with its state, and the child port.\<close>

theorem topology_roundtrip:
  assumes "snapshot_ok s"
  shows "PtpTopologyParser_parse big now (data_set (pmc_default s)) (data_set (pmc_parent s))
      (data_set (pmc_current s)) (data_set (pmc_ports s)) = Some (s\<lparr>topo_timestamp_us := nowUs now\<rparr>)"
proof -
  have ns: "word_ns big (show_int (sint (meanPathDelayNs s)) @ ''.0'') = Some (meanPathDelayNs s)"
    using word_ns_printed [of "''.0''" "sint (meanPathDelayNs s)"] assms by (simp add: snapshot_ok_def)
  have "\<bar>sint (stepsRemoved s)\<bar> \<le> 2 ^ 53" using sint_range_32 [of "stepsRemoved s"] by simp
  then have steps: "word_ns big (show_int (sint (stepsRemoved s))) = Some (word_of_int (sint (stepsRemoved s)))"
    using word_ns_printed [of "[]" "sint (stepsRemoved s)"] by simp
  have cast: "ucast (word_of_int (sint w) :: i64) = (w :: i32)" for w
    by (rule bit_word_eqI) (simp add: bit_simps)
  have "topology_of big now (entries (pmc_default s)) (entries (pmc_parent s)) (entries (pmc_current s))
      (entries (pmc_ports s)) = s\<lparr>topo_timestamp_us := nowUs now\<rparr>"
    using assms port_groups_pmc [of "ports s"] ns steps cast [of "stepsRemoved s"]
    by (intro PtpTopologySnapshotData.equality)
      (simp_all add: topology_of_def pmc_default_def pmc_parent_def pmc_current_def pmc_ports_def
        latest_Cons key_word_def key_value_def port_id_key port_id_number port_id_clock snapshot_ok_def)
  moreover have "''clockIdentity'' \<in> fst ` set (entries (pmc_default s))"
    by (simp add: pmc_default_def)
  ultimately show ?thesis by (simp only: topology_parsed [OF pmc_ok [OF assms]] if_True)
qed

definition example_snapshot :: PtpTopologySnapshotData where
  "example_snapshot = \<lparr>topo_timestamp_us = 0, localClockIdentity = ''c46237.fffe.0d2070'',
     parentClockIdentity = ''000bab.fffe.df7a52'', parentPortNumber = 1,
     grandmasterIdentity = ''000bab.fffe.df7a52'', stepsRemoved = 1, meanPathDelayNs = 83,
     childPortNumber = 1,
     ports = [\<lparr>portNumber = 1, portIdentity = ''c46237.fffe.0d2070-1'', port_state = ''SLAVE''\<rparr>]\<rparr>"

lemma topology_roundtrip_witness:
  "PtpTopologyParser_parse (\<lambda>_. 0) 7999 (data_set (pmc_default example_snapshot))
     (data_set (pmc_parent example_snapshot)) (data_set (pmc_current example_snapshot))
     (data_set (pmc_ports example_snapshot)) = Some (example_snapshot\<lparr>topo_timestamp_us := 7\<rparr>)"
proof -
  have "show_int 1 = ''1''" by code_simp
  then have "''c46237.fffe.0d2070-1'' = port_id ''c46237.fffe.0d2070'' 1" by (simp add: port_id_def)
  moreover have "clock_ok ''c46237.fffe.0d2070''" "clock_ok ''000bab.fffe.df7a52''" "word_text ''SLAVE''"
    by (simp_all add: clock_ok_def word_text_def is_space_def)
  ultimately have ok: "snapshot_ok example_snapshot"
    unfolding snapshot_ok_def example_snapshot_def port_ok_def
    by (simp del: char.inject list.inject) blast
  have "nowUs 7999 = 7" by (simp add: nowUs_def signed_divide_int_def)
  then show ?thesis using topology_roundtrip [OF ok, where big = "\<lambda>_. 0" and now = 7999] by simp
qed

section \<open>The commands the collector runs\<close>

text \<open>A process table that answers by the arguments and keeps a log of what was started.\<close>

definition logging_spawn ::
    "(string list \<Rightarrow> exn + (string \<times> i32)) \<Rightarrow> (string \<times> string list) list spawner" where
  "logging_spawn answer path args trace = (answer args, trace @ [(path, args)])"

definition reply ::
    "(string list \<Rightarrow> exn + (string \<times> i32)) \<Rightarrow> PtpTopologyConfig \<Rightarrow> string \<Rightarrow> string option" where
  "reply answer config command = (case answer (buildArgs config command) of
       Inr (output, code) \<Rightarrow> if code = 0 then Some (unlines (lines_of output)) else None
     | Inl _ \<Rightarrow> None)"

lemma runCommand_logging:
  "runCommand (logging_spawn answer) config command trace =
     (reply answer config command, trace @ [(pmc_path config, buildArgs config command)])"
  by (simp add: runCommand_def logging_spawn_def reply_def split: sum.split prod.split)

text \<open>C31. The collector runs \<open>pmc\<close>, and nothing else, at most four times, in a fixed order and with
  the configured hops, domain, configuration and socket. It stops at the first of the two
  mandatory data sets it does not get (the program cannot be started or exits with an error);
  a missing current or port data set only leaves its fields at their defaults.\<close>

theorem topology_commands:
  "PtpTopologyCollector_collect (logging_spawn answer) big now config trace =
    (case (reply answer config ''GET DEFAULT_DATA_SET'', reply answer config ''GET PARENT_DATA_SET'') of
       (Some d, Some p) \<Rightarrow> PtpTopologyParser_parse big now d p
         (value_or_empty (reply answer config ''GET CURRENT_DATA_SET''))
         (value_or_empty (reply answer config ''GET PORT_DATA_SET''))
     | _ \<Rightarrow> None,
     trace @ map (\<lambda>c. (pmc_path config,
        [''-u'', ''-b'', show_int (sint (boundary_hops config)), ''-d'', show_int (sint (domain_number config))] @
        (if config_path config = [] then [] else [''-f'', config_path config]) @
        (if uds_path config = [] then [] else [''-s'', uds_path config]) @ [c]))
      (if reply answer config ''GET DEFAULT_DATA_SET'' = None then [''GET DEFAULT_DATA_SET'']
       else if reply answer config ''GET PARENT_DATA_SET'' = None
         then [''GET DEFAULT_DATA_SET'', ''GET PARENT_DATA_SET'']
       else [''GET DEFAULT_DATA_SET'', ''GET PARENT_DATA_SET'', ''GET CURRENT_DATA_SET'', ''GET PORT_DATA_SET'']))"
proof -
  have args: "buildArgs config c =
      [''-u'', ''-b'', show_int (sint (boundary_hops config)), ''-d'', show_int (sint (domain_number config))] @
      (if config_path config = [] then [] else [''-f'', config_path config]) @
      (if uds_path config = [] then [] else [''-s'', uds_path config]) @ [c]" for c
    by (simp add: buildArgs_def)
  show ?thesis
    unfolding args [symmetric]
    by (simp add: PtpTopologyCollector_collect_def runCommand_logging split: option.split)
qed

end
