(* ===== verification/Config_Loader.thy ===== *)
theory Config_Loader
  imports Ptp_Topology
begin

text \<open>
  \<open>include/config.h\<close> and \<open>src/config.cpp\<close>: the configuration record and \<open>ConfigLoader\<close>. The YAML
  library is the record \<open>yaml\<close> of the operations the loader calls. Integer members that C++ leaves
  uninitialised come from the argument \<open>junk\<close>.
\<close>

section \<open>The configuration\<close>

record ServiceConfig =
  svc_on :: bool
  svc_name :: string
  svc_source :: string
  svc_dev :: string

record MonitoringConfig =
  poll_timeout_ms :: i32
  sys_metric_update_freq :: i32
  log_level :: string

record ZMQConfig =
  zmq_endpoint :: string
  queue_size :: i32
  timeout_after_close_ms :: i32

record AgentConfig =
  global_node :: string
  monitorConfig :: MonitoringConfig
  service :: "ServiceConfig list"
  temperature_sensors :: "string set"
  configZMQ :: ZMQConfig
  configPtpTopology :: PtpTopologyConfig

text \<open>\<open>AgentConfig config;\<close>: strings and containers are empty, the integers are whatever they are.\<close>

record junk_ints =
  junk_poll :: i32
  junk_freq :: i32
  junk_queue :: i32
  junk_linger :: i32

definition AgentConfig_init :: "junk_ints \<Rightarrow> AgentConfig" where
  "AgentConfig_init junk = \<lparr>global_node = [],
     monitorConfig = \<lparr>poll_timeout_ms = junk_poll junk, sys_metric_update_freq = junk_freq junk, log_level = []\<rparr>,
     service = [], temperature_sensors = {},
     configZMQ = \<lparr>zmq_endpoint = [], queue_size = junk_queue junk, timeout_after_close_ms = junk_linger junk\<rparr>,
     configPtpTopology = PtpTopologyConfig_init\<rparr>"

section \<open>The YAML library\<close>

text \<open>\<open>YAML::LoadFile\<close>, \<open>node[key]\<close>, the conversion of a node to \<open>bool\<close>, \<open>as<T>()\<close>,
  \<open>as<bool>(fallback)\<close> and the iteration over a node. All but the conversion to \<open>bool\<close> and the
  \<open>as\<close> with a fallback may throw.\<close>

record 'n yaml =
  y_load :: "string \<Rightarrow> exn + 'n"
  y_get :: "'n \<Rightarrow> string \<Rightarrow> exn + 'n"
  y_defined :: "'n \<Rightarrow> bool"
  y_string :: "'n \<Rightarrow> exn + string"
  y_int :: "'n \<Rightarrow> exn + i32"
  y_bool :: "'n \<Rightarrow> exn + bool"
  y_bool_or :: "'n \<Rightarrow> bool \<Rightarrow> bool"
  y_elems :: "'n \<Rightarrow> 'n list"

text \<open>\<open>if (node[key]) { body(node[key]) }\<close>\<close>

definition if_key :: "'n yaml \<Rightarrow> 'n \<Rightarrow> string \<Rightarrow> ('n \<Rightarrow> 's \<Rightarrow> exn + 's) \<Rightarrow> 's \<Rightarrow> exn + 's" where
  "if_key y node key body s =
     res_bind (y_get y node key) (\<lambda>v. if y_defined y v then body v s else Inr s)"

text \<open>\<open>field = node.as<T>()\<close>\<close>

definition assign :: "('n \<Rightarrow> exn + 'v) \<Rightarrow> ('v \<Rightarrow> 's \<Rightarrow> 's) \<Rightarrow> 'n \<Rightarrow> 's \<Rightarrow> exn + 's" where
  "assign conv upd v s = res_bind (conv v) (\<lambda>x. Inr (upd x s))"

text \<open>One statement after the other.\<close>

fun seq_all :: "('s \<Rightarrow> exn + 's) list \<Rightarrow> 's \<Rightarrow> exn + 's" where
  "seq_all [] s = Inr s"
| "seq_all (f # fs) s = res_bind (f s) (seq_all fs)"

section \<open>ConfigLoader\<close>

definition load_global :: "'n yaml \<Rightarrow> 'n \<Rightarrow> AgentConfig \<Rightarrow> exn + AgentConfig" where
  "load_global y node =
     if_key y node ''node'' (assign (y_string y) (\<lambda>v c. c\<lparr>global_node := v\<rparr>))"

definition load_settings :: "'n yaml \<Rightarrow> 'n \<Rightarrow> AgentConfig \<Rightarrow> exn + AgentConfig" where
  "load_settings y node = seq_all
     [if_key y node ''poll_timeout_ms'' (assign (y_int y)
        (\<lambda>v c. c\<lparr>monitorConfig := (monitorConfig c)\<lparr>poll_timeout_ms := v\<rparr>\<rparr>)),
      if_key y node ''log_level'' (assign (y_string y)
        (\<lambda>v c. c\<lparr>monitorConfig := (monitorConfig c)\<lparr>log_level := v\<rparr>\<rparr>)),
      if_key y node ''sys_metric_update_freq'' (assign (y_int y)
        (\<lambda>v c. c\<lparr>monitorConfig := (monitorConfig c)\<lparr>sys_metric_update_freq := v\<rparr>\<rparr>))]"

definition load_sensor :: "'n yaml \<Rightarrow> 'n \<Rightarrow> AgentConfig \<Rightarrow> exn + AgentConfig" where
  "load_sensor y sensor =
     if_key y sensor ''name'' (assign (y_string y)
       (\<lambda>v c. c\<lparr>temperature_sensors := insert v (temperature_sensors c)\<rparr>))"

definition load_temperature :: "'n yaml \<Rightarrow> 'n \<Rightarrow> AgentConfig \<Rightarrow> exn + AgentConfig" where
  "load_temperature y node =
     if_key y node ''sensors'' (\<lambda>v. seq_all (map (load_sensor y) (y_elems y v)))"

definition load_zmq :: "'n yaml \<Rightarrow> 'n \<Rightarrow> AgentConfig \<Rightarrow> exn + AgentConfig" where
  "load_zmq y node = seq_all
     [if_key y node ''endpoint'' (assign (y_string y)
        (\<lambda>v c. c\<lparr>configZMQ := (configZMQ c)\<lparr>zmq_endpoint := v\<rparr>\<rparr>)),
      if_key y node ''queue_size'' (assign (y_int y)
        (\<lambda>v c. c\<lparr>configZMQ := (configZMQ c)\<lparr>queue_size := v\<rparr>\<rparr>)),
      if_key y node ''timeout_after_close_ms'' (assign (y_int y)
        (\<lambda>v c. c\<lparr>configZMQ := (configZMQ c)\<lparr>timeout_after_close_ms := v\<rparr>\<rparr>))]"

definition load_topology :: "'n yaml \<Rightarrow> 'n \<Rightarrow> AgentConfig \<Rightarrow> exn + AgentConfig" where
  "load_topology y node = seq_all
     [if_key y node ''on'' (assign (y_bool y)
        (\<lambda>v c. c\<lparr>configPtpTopology := (configPtpTopology c)\<lparr>topology_on := v\<rparr>\<rparr>)),
      if_key y node ''pmc_path'' (assign (y_string y)
        (\<lambda>v c. c\<lparr>configPtpTopology := (configPtpTopology c)\<lparr>pmc_path := v\<rparr>\<rparr>)),
      if_key y node ''uds_path'' (assign (y_string y)
        (\<lambda>v c. c\<lparr>configPtpTopology := (configPtpTopology c)\<lparr>uds_path := v\<rparr>\<rparr>)),
      if_key y node ''config_path'' (assign (y_string y)
        (\<lambda>v c. c\<lparr>configPtpTopology := (configPtpTopology c)\<lparr>config_path := v\<rparr>\<rparr>)),
      if_key y node ''domain_number'' (assign (y_int y)
        (\<lambda>v c. c\<lparr>configPtpTopology := (configPtpTopology c)\<lparr>domain_number := v\<rparr>\<rparr>)),
      if_key y node ''boundary_hops'' (assign (y_int y)
        (\<lambda>v c. c\<lparr>configPtpTopology := (configPtpTopology c)\<lparr>boundary_hops := v\<rparr>\<rparr>))]"

text \<open>\<open>ServiceConfig s; s.name = name; s.on = ...\<close>: the member \<open>dev\<close> is read for \<open>ppswatch\<close> only,
  before the source.\<close>

definition load_service :: "'n yaml \<Rightarrow> bool \<Rightarrow> string \<Rightarrow> 'n \<Rightarrow> AgentConfig \<Rightarrow> exn + AgentConfig" where
  "load_service y with_dev name node c =
     res_bind (y_get y node ''on'') (\<lambda>n_on.
     res_bind (if with_dev then res_bind (y_get y node ''dev'') (y_string y) else Inr []) (\<lambda>dev.
     res_bind (res_bind (y_get y node ''source'') (y_string y)) (\<lambda>source.
     Inr (c\<lparr>service := service c @
       [\<lparr>svc_on = y_bool_or y n_on False, svc_name = name, svc_source = source, svc_dev = dev\<rparr>]\<rparr>))))"

definition load_services :: "'n yaml \<Rightarrow> 'n \<Rightarrow> AgentConfig \<Rightarrow> exn + AgentConfig" where
  "load_services y node = seq_all
     [if_key y node ''ptp4l'' (load_service y False ''ptp4l''),
      if_key y node ''phc2sys'' (load_service y False ''phc2sys''),
      if_key y node ''ppswatch'' (load_service y True ''ppswatch'')]"

text \<open>The body of the \<open>try\<close> block; every exception makes \<open>load\<close> return \<open>std::nullopt\<close>.\<close>

definition load_body :: "'n yaml \<Rightarrow> junk_ints \<Rightarrow> string \<Rightarrow> exn + AgentConfig" where
  "load_body y junk path =
     res_bind (y_load y path) (\<lambda>root. seq_all
       [if_key y root ''global'' (load_global y),
        if_key y root ''settings'' (load_settings y),
        if_key y root ''temperature'' (load_temperature y),
        if_key y root ''zmq'' (load_zmq y),
        if_key y root ''ptp_topology'' (load_topology y),
        if_key y root ''services'' (load_services y)] (AgentConfig_init junk))"

definition ConfigLoader_load :: "'n yaml \<Rightarrow> junk_ints \<Rightarrow> string \<Rightarrow> AgentConfig option" where
  "ConfigLoader_load y junk path = to_option (load_body y junk path)"

definition ConfigLoader_defaultConfig :: "junk_ints \<Rightarrow> AgentConfig" where
  "ConfigLoader_defaultConfig junk =
     (let c = AgentConfig_init junk
      in c\<lparr>monitorConfig := (monitorConfig c)\<lparr>poll_timeout_ms := 1000, log_level := ''info''\<rparr>\<rparr>)"

definition ConfigLoader_loadOrDefault :: "'n yaml \<Rightarrow> junk_ints \<Rightarrow> string \<Rightarrow> AgentConfig" where
  "ConfigLoader_loadOrDefault y junk path =
     (case ConfigLoader_load y junk path of Some c \<Rightarrow> c | None \<Rightarrow> ConfigLoader_defaultConfig junk)"

end
