(* ===== verification/Config_Theorems.thy ===== *)
theory Config_Theorems
  imports Config_Loader
begin

text \<open>
  What \<open>ConfigLoader\<close> makes of a document: for the documents of the shape of \<open>configs/config.yaml\<close>
  every setting that is written is read back; the list of services has a fixed order and only \<open>ppswatch\<close> gets a
  device; a service without a source discards the whole file; and integers that are not set
  are indeterminate.
\<close>

section \<open>The documented behaviour of the YAML library\<close>

datatype ynode = YUndef | YNull | YScalar string | YSeq "ynode list" | YMap "(string \<times> ynode) list"

definition show_bool :: "bool \<Rightarrow> string" where
  "show_bool b = (if b then ''true'' else ''false'')"

definition member :: "(string \<times> ynode) list \<Rightarrow> string \<Rightarrow> ynode" where
  "member m k = (case map_of m k of Some t \<Rightarrow> t | None \<Rightarrow> YUndef)"

text \<open>\<open>tree n\<close> is the document node behind the handle \<open>n\<close>.\<close>

definition yaml_reads :: "'n yaml \<Rightarrow> ('n \<Rightarrow> ynode) \<Rightarrow> bool" where
  "yaml_reads y tree \<longleftrightarrow>
     (\<forall>n. y_defined y n \<longleftrightarrow> tree n \<noteq> YUndef) \<and>
     (\<forall>n m k. tree n = YMap m \<longrightarrow> (\<exists>v. y_get y n k = Inr v \<and> tree v = member m k)) \<and>
     (\<forall>n s. tree n = YScalar s \<longrightarrow> y_string y n = Inr s) \<and>
     (\<forall>n i. tree n = YScalar (show_int (sint i)) \<longrightarrow> y_int y n = Inr i) \<and>
     (\<forall>n b d. tree n = YScalar (show_bool b) \<longrightarrow> y_bool y n = Inr b \<and> y_bool_or y n d = b) \<and>
     (\<forall>n xs. tree n = YSeq xs \<longrightarrow> map tree (y_elems y n) = xs)"

lemma yaml_readsD:
  assumes "yaml_reads y tree"
  shows "y_defined y n \<longleftrightarrow> tree n \<noteq> YUndef"
    and "tree n = YMap m \<Longrightarrow> \<exists>v. y_get y n k = Inr v \<and> tree v = member m k"
    and "tree n = YScalar s \<Longrightarrow> y_string y n = Inr s"
    and "tree n = YScalar (show_int (sint i)) \<Longrightarrow> y_int y n = Inr i"
    and "tree n = YScalar (show_bool b) \<Longrightarrow> y_bool y n = Inr b \<and> y_bool_or y n d = b"
    and "tree n = YSeq xs \<Longrightarrow> map tree (y_elems y n) = xs"
  using assms unfolding yaml_reads_def by blast+

text \<open>A library that behaves so: handles are the nodes themselves.\<close>

definition read_int :: "string \<Rightarrow> exn + i32" where
  "read_int s = (case stoi s of Inr i \<Rightarrow> if s = show_int (sint i) then Inr i else Inl (YamlException ''bad conversion'')
     | Inl _ \<Rightarrow> Inl (YamlException ''bad conversion''))"

definition read_bool :: "string \<Rightarrow> bool option" where
  "read_bool s = (if s = ''true'' then Some True else if s = ''false'' then Some False else None)"

definition tree_yaml :: "(string \<Rightarrow> ynode option) \<Rightarrow> ynode yaml" where
  "tree_yaml files =
     \<lparr>y_load = (\<lambda>p. case files p of Some t \<Rightarrow> Inr t | None \<Rightarrow> Inl (YamlException ''bad file'')),
      y_get = (\<lambda>n k. case n of YMap m \<Rightarrow> Inr (member m k) | YScalar _ \<Rightarrow> Inl (YamlException ''bad subscript'')
                 | _ \<Rightarrow> Inr YUndef),
      y_defined = (\<lambda>n. n \<noteq> YUndef),
      y_string = (\<lambda>n. case n of YScalar s \<Rightarrow> Inr s | _ \<Rightarrow> Inl (YamlException ''bad conversion'')),
      y_int = (\<lambda>n. case n of YScalar s \<Rightarrow> read_int s | _ \<Rightarrow> Inl (YamlException ''bad conversion'')),
      y_bool = (\<lambda>n. case n of YScalar s \<Rightarrow> (case read_bool s of Some b \<Rightarrow> Inr b
                     | None \<Rightarrow> Inl (YamlException ''bad conversion''))
                 | _ \<Rightarrow> Inl (YamlException ''bad conversion'')),
      y_bool_or = (\<lambda>n d. case n of YScalar s \<Rightarrow> (case read_bool s of Some b \<Rightarrow> b | None \<Rightarrow> d) | _ \<Rightarrow> d),
      y_elems = (\<lambda>n. case n of YSeq xs \<Rightarrow> xs | _ \<Rightarrow> [])\<rparr>"

lemma tree_yaml_reads: "yaml_reads (tree_yaml files) id"
  by (simp add: yaml_reads_def tree_yaml_def read_int_def read_bool_def show_bool_def)

section \<open>Documents of a configuration\<close>

text \<open>The members of a mapping, without those that are left out.\<close>

definition written :: "string set \<Rightarrow> (string \<times> ynode) list \<Rightarrow> ynode" where
  "written omit es = YMap (filter (\<lambda>e. fst e \<notin> omit) es)"

definition doc_settings :: "string set \<Rightarrow> MonitoringConfig \<Rightarrow> ynode" where
  "doc_settings omit m = written omit
     [(''poll_timeout_ms'', YScalar (show_int (sint (poll_timeout_ms m)))),
      (''log_level'', YScalar (log_level m)),
      (''sys_metric_update_freq'', YScalar (show_int (sint (sys_metric_update_freq m))))]"

definition doc_temperature :: "string list \<Rightarrow> ynode" where
  "doc_temperature names = YMap [(''sensors'', YSeq (map (\<lambda>n. YMap [(''name'', YScalar n)]) names))]"

definition doc_zmq :: "string set \<Rightarrow> ZMQConfig \<Rightarrow> ynode" where
  "doc_zmq omit z = written omit
     [(''endpoint'', YScalar (zmq_endpoint z)),
      (''queue_size'', YScalar (show_int (sint (queue_size z)))),
      (''timeout_after_close_ms'', YScalar (show_int (sint (timeout_after_close_ms z))))]"

definition doc_topology :: "string set \<Rightarrow> PtpTopologyConfig \<Rightarrow> ynode" where
  "doc_topology omit t = written omit
     [(''on'', YScalar (show_bool (topology_on t))),
      (''pmc_path'', YScalar (pmc_path t)),
      (''uds_path'', YScalar (uds_path t)),
      (''config_path'', YScalar (config_path t)),
      (''domain_number'', YScalar (show_int (sint (domain_number t)))),
      (''boundary_hops'', YScalar (show_int (sint (boundary_hops t))))]"

definition doc_service :: "ServiceConfig \<Rightarrow> string \<times> ynode" where
  "doc_service s = (svc_name s, YMap
     [(''on'', YScalar (show_bool (svc_on s))), (''source'', YScalar (svc_source s)),
      (''dev'', YScalar (svc_dev s))])"

definition doc_config :: "string set \<Rightarrow> AgentConfig \<Rightarrow> string list \<Rightarrow> ynode" where
  "doc_config omit c names = written omit
     [(''global'', written omit [(''node'', YScalar (global_node c))]),
      (''settings'', doc_settings omit (monitorConfig c)),
      (''temperature'', doc_temperature names),
      (''zmq'', doc_zmq omit (configZMQ c)),
      (''ptp_topology'', doc_topology omit (configPtpTopology c)),
      (''services'', YMap (map doc_service (service c)))]"

text \<open>What is made of such a document: \<open>v\<close>, or \<open>d\<close> where the key or its section is left out. Only
  \<open>ppswatch\<close> keeps its device.\<close>

definition set_in :: "string set \<Rightarrow> string \<Rightarrow> string \<Rightarrow> 'v \<Rightarrow> 'v \<Rightarrow> 'v" where
  "set_in omit sec k v d = (if sec \<in> omit \<or> k \<in> omit then d else v)"

definition drop_dev :: "ServiceConfig \<Rightarrow> ServiceConfig" where
  "drop_dev s = (if svc_name s = ''ppswatch'' then s else s\<lparr>svc_dev := []\<rparr>)"

definition as_written :: "string set \<Rightarrow> junk_ints \<Rightarrow> AgentConfig \<Rightarrow> AgentConfig" where
  "as_written omit junk c = (let m = monitorConfig c; z = configZMQ c; t = configPtpTopology c in
     \<lparr>global_node = set_in omit ''global'' ''node'' (global_node c) [],
      monitorConfig = \<lparr>
        poll_timeout_ms = set_in omit ''settings'' ''poll_timeout_ms'' (poll_timeout_ms m) (junk_poll junk),
        sys_metric_update_freq =
          set_in omit ''settings'' ''sys_metric_update_freq'' (sys_metric_update_freq m) (junk_freq junk),
        log_level = set_in omit ''settings'' ''log_level'' (log_level m) []\<rparr>,
      service = (if ''services'' \<in> omit then [] else map drop_dev (service c)),
      temperature_sensors = (if ''temperature'' \<in> omit then {} else temperature_sensors c),
      configZMQ = \<lparr>
        zmq_endpoint = set_in omit ''zmq'' ''endpoint'' (zmq_endpoint z) [],
        queue_size = set_in omit ''zmq'' ''queue_size'' (queue_size z) (junk_queue junk),
        timeout_after_close_ms =
          set_in omit ''zmq'' ''timeout_after_close_ms'' (timeout_after_close_ms z) (junk_linger junk)\<rparr>,
      configPtpTopology = \<lparr>
        topology_on = set_in omit ''ptp_topology'' ''on'' (topology_on t) False,
        pmc_path = set_in omit ''ptp_topology'' ''pmc_path'' (pmc_path t) ''/usr/sbin/pmc'',
        uds_path = set_in omit ''ptp_topology'' ''uds_path'' (uds_path t) ''/var/run/ptp4lro'',
        config_path = set_in omit ''ptp_topology'' ''config_path'' (config_path t) [],
        domain_number = set_in omit ''ptp_topology'' ''domain_number'' (domain_number t) 0,
        boundary_hops = set_in omit ''ptp_topology'' ''boundary_hops'' (boundary_hops t) 0\<rparr>\<rparr>)"

text \<open>The services of a configuration that was loaded: each at most once, in this order, and only
  \<open>ppswatch\<close> with a device.\<close>

definition services_ok :: "ServiceConfig list \<Rightarrow> bool" where
  "services_ok ss \<longleftrightarrow> subseq (map svc_name ss) [''ptp4l'', ''phc2sys'', ''ppswatch''] \<and>
     (\<forall>s \<in> set ss. svc_name s \<noteq> ''ppswatch'' \<longrightarrow> svc_dev s = [])"

section \<open>Reading a document\<close>

lemma if_key_present:
  assumes "yaml_reads y tree" and "tree n = YMap m" and "member m k \<noteq> YUndef"
    and "\<And>v. tree v = member m k \<Longrightarrow> body v s = r"
  shows "if_key y n k body s = r"
  using yaml_readsD(1,2) [OF assms(1)] assms(2-4) by (fastforce simp: if_key_def)

lemma if_key_absent:
  assumes "yaml_reads y tree" and "tree n = YMap m" and "member m k = YUndef"
  shows "if_key y n k body s = Inr s"
  using yaml_readsD(1,2) [OF assms(1)] assms(2,3) by (fastforce simp: if_key_def)

lemma member_simps [simp]:
  "member [] k = YUndef"
  "member ((k, t) # m) k' = (if k = k' then t else member m k')"
  by (simp_all add: member_def)

lemma member_written: "member (filter (\<lambda>e. fst e \<notin> omit) es) k = (if k \<in> omit then YUndef else member es k)"
  by (induction es) (auto simp: member_def)

lemma written_defined [simp]: "written omit es \<noteq> YUndef"
  by (simp add: written_def)

lemma if_key_written:
  assumes "yaml_reads y tree" and "tree n = written omit es" and "member es k \<noteq> YUndef"
    and "\<And>v. tree v = member es k \<Longrightarrow> body v s = Inr s'"
  shows "if_key y n k body s = Inr (if k \<in> omit then s else s')"
proof -
  note n = assms(2) [unfolded written_def]
  show ?thesis
    using if_key_present [OF assms(1) n, of k body s "Inr s'"] if_key_absent [OF assms(1) n, of k body s] assms(3,4)
    by (simp add: member_written)
qed

lemma read_string:
  assumes "yaml_reads y tree" and "tree n = written omit es" and "member es k = YScalar v"
  shows "if_key y n k (assign (y_string y) upd) s = Inr (if k \<in> omit then s else upd v s)"
  using assms by (intro if_key_written [OF assms(1,2)]) (simp_all add: assign_def yaml_readsD(3) [OF assms(1)])

lemma read_integer:
  assumes "yaml_reads y tree" and "tree n = written omit es" and "member es k = YScalar (show_int (sint v))"
  shows "if_key y n k (assign (y_int y) upd) s = Inr (if k \<in> omit then s else upd v s)"
  using assms by (intro if_key_written [OF assms(1,2)]) (simp_all add: assign_def yaml_readsD(4) [OF assms(1)])

lemma read_boolean:
  assumes "yaml_reads y tree" and "tree n = written omit es" and "member es k = YScalar (show_bool v)"
  shows "if_key y n k (assign (y_bool y) upd) s = Inr (if k \<in> omit then s else upd v s)"
  using assms by (intro if_key_written [OF assms(1,2)]) (simp_all add: assign_def yaml_readsD(5) [OF assms(1)])

lemmas read_members = read_string read_integer read_boolean

text \<open>The sections, one after the other: what stays of the settings before, and what is read.\<close>

lemma load_settings_doc:
  assumes "yaml_reads y tree" and "tree n = doc_settings omit m"
  shows "load_settings y n c = Inr (c\<lparr>monitorConfig := \<lparr>
     poll_timeout_ms = (if ''poll_timeout_ms'' \<in> omit then poll_timeout_ms (monitorConfig c) else poll_timeout_ms m),
     sys_metric_update_freq =
       (if ''sys_metric_update_freq'' \<in> omit then sys_metric_update_freq (monitorConfig c) else sys_metric_update_freq m),
     log_level = (if ''log_level'' \<in> omit then log_level (monitorConfig c) else log_level m)\<rparr>\<rparr>)"
  unfolding load_settings_def
  by (cases c; cases "monitorConfig c") (simp add: read_members [OF assms(1) assms(2) [unfolded doc_settings_def]])

lemma load_zmq_doc:
  assumes "yaml_reads y tree" and "tree n = doc_zmq omit z"
  shows "load_zmq y n c = Inr (c\<lparr>configZMQ := \<lparr>
     zmq_endpoint = (if ''endpoint'' \<in> omit then zmq_endpoint (configZMQ c) else zmq_endpoint z),
     queue_size = (if ''queue_size'' \<in> omit then queue_size (configZMQ c) else queue_size z),
     timeout_after_close_ms =
       (if ''timeout_after_close_ms'' \<in> omit then timeout_after_close_ms (configZMQ c) else timeout_after_close_ms z)\<rparr>\<rparr>)"
  unfolding load_zmq_def
  by (cases c; cases "configZMQ c") (simp add: read_members [OF assms(1) assms(2) [unfolded doc_zmq_def]])

lemma load_topology_doc:
  assumes "yaml_reads y tree" and "tree n = doc_topology omit t"
  shows "load_topology y n c = Inr (c\<lparr>configPtpTopology := \<lparr>
     topology_on = (if ''on'' \<in> omit then topology_on (configPtpTopology c) else topology_on t),
     pmc_path = (if ''pmc_path'' \<in> omit then pmc_path (configPtpTopology c) else pmc_path t),
     uds_path = (if ''uds_path'' \<in> omit then uds_path (configPtpTopology c) else uds_path t),
     config_path = (if ''config_path'' \<in> omit then config_path (configPtpTopology c) else config_path t),
     domain_number = (if ''domain_number'' \<in> omit then domain_number (configPtpTopology c) else domain_number t),
     boundary_hops = (if ''boundary_hops'' \<in> omit then boundary_hops (configPtpTopology c) else boundary_hops t)\<rparr>\<rparr>)"
  unfolding load_topology_def
  by (cases c; cases "configPtpTopology c") (simp add: read_members [OF assms(1) assms(2) [unfolded doc_topology_def]])

lemma load_sensors_doc:
  assumes "yaml_reads y tree" and "map tree ns = map (\<lambda>n. YMap [(''name'', YScalar n)]) names"
  shows "seq_all (map (load_sensor y) ns) c =
    Inr (c\<lparr>temperature_sensors := temperature_sensors c \<union> set names\<rparr>)"
  using assms(2)
proof (induction ns arbitrary: names c)
  case (Cons n ns)
  then obtain x names' where names: "names = x # names'" and n: "tree n = YMap [(''name'', YScalar x)]"
    by (cases names) auto
  have "load_sensor y n c = Inr (c\<lparr>temperature_sensors := insert x (temperature_sensors c)\<rparr>)"
    unfolding load_sensor_def using read_string [OF assms(1), of n "{}" "[(''name'', YScalar x)]" "''name''" x] n
    by (simp add: written_def)
  then show ?case using Cons.IH [of names'] Cons.prems by (simp add: names)
qed simp

lemma load_temperature_doc:
  assumes "yaml_reads y tree" and "tree n = doc_temperature names"
  shows "load_temperature y n c = Inr (c\<lparr>temperature_sensors := temperature_sensors c \<union> set names\<rparr>)"
  unfolding load_temperature_def
  by (rule if_key_present [OF assms(1) assms(2) [unfolded doc_temperature_def]])
    (simp_all add: load_sensors_doc [OF assms(1)] yaml_readsD(6) [OF assms(1)])

lemma load_service_doc:
  assumes "yaml_reads y tree" and "tree n = snd (doc_service s)" and "with_dev \<longleftrightarrow> svc_name s = ''ppswatch''"
  shows "load_service y with_dev (svc_name s) n c = Inr (c\<lparr>service := service c @ [drop_dev s]\<rparr>)"
proof -
  note get = yaml_readsD(2) [OF assms(1) assms(2) [unfolded doc_service_def snd_conv]]
  obtain a b d where "y_get y n ''on'' = Inr a" "tree a = YScalar (show_bool (svc_on s))"
    and "y_get y n ''source'' = Inr b" "tree b = YScalar (svc_source s)"
    and "y_get y n ''dev'' = Inr d" "tree d = YScalar (svc_dev s)"
    using get [of "''on''"] get [of "''source''"] get [of "''dev''"] by auto
  then show ?thesis using assms(3)
    by (cases s) (simp add: load_service_def yaml_readsD(3,5) [OF assms(1)] drop_dev_def)
qed

text \<open>The services found under the three names, in this order.\<close>

definition find_service :: "ServiceConfig list \<Rightarrow> string \<Rightarrow> ServiceConfig list" where
  "find_service ss k = (case find (\<lambda>s. svc_name s = k) ss of Some s \<Rightarrow> [s] | None \<Rightarrow> [])"

lemma services_found:
  assumes "subseq (map svc_name ss) [''ptp4l'', ''phc2sys'', ''ppswatch'']"
  shows "find_service ss ''ptp4l'' @ find_service ss ''phc2sys'' @ find_service ss ''ppswatch'' = ss"
proof -
  have "map svc_name ss \<in> set (subseqs [''ptp4l'', ''phc2sys'', ''ppswatch''])"
    using assms unfolding in_set_subseqs by blast
  then have "map svc_name ss \<in> {[''ptp4l'', ''phc2sys'', ''ppswatch''], [''ptp4l'', ''phc2sys''],
      [''ptp4l'', ''ppswatch''], [''ptp4l''], [''phc2sys'', ''ppswatch''], [''phc2sys''], [''ppswatch''], []}"
    by (simp add: Let_def del: in_set_subseqs)
  then show ?thesis
    by (auto simp: map_eq_Cons_conv find_service_def)
qed

lemma member_services:
  "member (map doc_service ss) k = (case find_service ss k of [] \<Rightarrow> YUndef | s # _ \<Rightarrow> snd (doc_service s))"
  by (induction ss) (simp_all add: find_service_def doc_service_def)

lemma find_service_name: "s \<in> set (find_service ss k) \<Longrightarrow> svc_name s = k \<and> s \<in> set ss"
  by (induction ss) (auto simp: find_service_def split: if_splits option.splits)

lemma load_one_service:
  assumes "yaml_reads y tree" and "tree n = YMap (map doc_service ss)" and "with_dev \<longleftrightarrow> k = ''ppswatch''"
  shows "if_key y n k (load_service y with_dev k) c = Inr (c\<lparr>service := service c @ map drop_dev (find_service ss k)\<rparr>)"
proof (cases "find_service ss k")
  case Nil
  then show ?thesis using if_key_absent [OF assms(1,2), of k] by (simp add: member_services)
next
  case (Cons s r)
  then have s: "svc_name s = k" "s \<in> set ss" and "r = []"
    using find_service_name [of s ss k] by (auto simp: find_service_def split: option.splits)
  have m: "member (map doc_service ss) k = snd (doc_service s)" by (simp add: member_services Cons)
  have "load_service y with_dev k v c = Inr (c\<lparr>service := service c @ [drop_dev s]\<rparr>)"
    if "tree v = member (map doc_service ss) k" for v
    using load_service_doc [OF assms(1), of v s with_dev c] that m s assms(3) by auto
  then show ?thesis using Cons \<open>r = []\<close>
    by (intro if_key_present [OF assms(1,2)]) (simp_all add: m doc_service_def)
qed

lemma load_services_doc:
  assumes "yaml_reads y tree" and "tree n = YMap (map doc_service ss)"
    and "subseq (map svc_name ss) [''ptp4l'', ''phc2sys'', ''ppswatch'']"
  shows "load_services y n c = Inr (c\<lparr>service := service c @ map drop_dev ss\<rparr>)"
proof -
  have "map drop_dev (find_service ss ''ptp4l'' @ find_service ss ''phc2sys'' @ find_service ss ''ppswatch'') =
      map drop_dev ss" using services_found [OF assms(3)] by simp
  then show ?thesis
    unfolding load_services_def seq_all.simps by (simp add: load_one_service [OF assms(1,2)])
qed

lemma load_doc:
  assumes "yaml_reads y tree" and "y_load y path = Inr rt" and "tree rt = doc_config omit c names"
    and "temperature_sensors c = set names"
    and "subseq (map svc_name (service c)) [''ptp4l'', ''phc2sys'', ''ppswatch'']"
  shows "load_body y junk path = Inr (as_written omit junk c)"
proof -
  note sec = if_key_written [OF assms(1) assms(3) [unfolded doc_config_def]]
  note docs = doc_settings_def doc_temperature_def doc_zmq_def doc_topology_def
  have "if_key y rt ''global'' (load_global y) a = Inr (if ''global'' \<in> omit then a else
       a\<lparr>global_node := if ''node'' \<in> omit then global_node a else global_node c\<rparr>)" for a
    by (rule sec) (auto simp: load_global_def read_string [OF assms(1)])
  then have global: "if_key y rt ''global'' (load_global y) a =
      Inr (a\<lparr>global_node := set_in omit ''global'' ''node'' (global_node c) (global_node a)\<rparr>)" for a
    by (simp add: set_in_def)
  have settings: "if_key y rt ''settings'' (load_settings y) a = Inr (a\<lparr>monitorConfig := \<lparr>
      poll_timeout_ms = set_in omit ''settings'' ''poll_timeout_ms'' (poll_timeout_ms (monitorConfig c))
        (poll_timeout_ms (monitorConfig a)),
      sys_metric_update_freq = set_in omit ''settings'' ''sys_metric_update_freq''
        (sys_metric_update_freq (monitorConfig c)) (sys_metric_update_freq (monitorConfig a)),
      log_level = set_in omit ''settings'' ''log_level'' (log_level (monitorConfig c)) (log_level (monitorConfig a))\<rparr>\<rparr>)" for a
    by (cases a; cases "monitorConfig a"; cases "''settings'' \<in> omit")
      (simp_all add: sec [OF _ load_settings_doc [OF assms(1)]] docs set_in_def)
  have temperature: "if_key y rt ''temperature'' (load_temperature y) a = Inr (a\<lparr>temperature_sensors :=
      temperature_sensors a \<union> (if ''temperature'' \<in> omit then {} else set names)\<rparr>)" for a
    by (cases a; cases "''temperature'' \<in> omit")
      (simp_all add: sec [OF _ load_temperature_doc [OF assms(1)]] docs)
  have zmq: "if_key y rt ''zmq'' (load_zmq y) a = Inr (a\<lparr>configZMQ := \<lparr>
      zmq_endpoint = set_in omit ''zmq'' ''endpoint'' (zmq_endpoint (configZMQ c)) (zmq_endpoint (configZMQ a)),
      queue_size = set_in omit ''zmq'' ''queue_size'' (queue_size (configZMQ c)) (queue_size (configZMQ a)),
      timeout_after_close_ms = set_in omit ''zmq'' ''timeout_after_close_ms'' (timeout_after_close_ms (configZMQ c)) (timeout_after_close_ms (configZMQ a))\<rparr>\<rparr>)" for a
    by (cases a; cases "configZMQ a"; cases "''zmq'' \<in> omit")
      (simp_all add: sec [OF _ load_zmq_doc [OF assms(1)]] docs set_in_def)
  have topology: "if_key y rt ''ptp_topology'' (load_topology y) a = Inr (a\<lparr>configPtpTopology := \<lparr>
      topology_on = set_in omit ''ptp_topology'' ''on'' (topology_on (configPtpTopology c)) (topology_on (configPtpTopology a)),
      pmc_path = set_in omit ''ptp_topology'' ''pmc_path'' (pmc_path (configPtpTopology c)) (pmc_path (configPtpTopology a)),
      uds_path = set_in omit ''ptp_topology'' ''uds_path'' (uds_path (configPtpTopology c)) (uds_path (configPtpTopology a)),
      config_path = set_in omit ''ptp_topology'' ''config_path'' (config_path (configPtpTopology c)) (config_path (configPtpTopology a)),
      domain_number = set_in omit ''ptp_topology'' ''domain_number'' (domain_number (configPtpTopology c)) (domain_number (configPtpTopology a)),
      boundary_hops = set_in omit ''ptp_topology'' ''boundary_hops'' (boundary_hops (configPtpTopology c)) (boundary_hops (configPtpTopology a))\<rparr>\<rparr>)" for a
    by (cases a; cases "configPtpTopology a"; cases "''ptp_topology'' \<in> omit")
      (simp_all add: sec [OF _ load_topology_doc [OF assms(1)]] docs set_in_def)
  have services: "if_key y rt ''services'' (load_services y) a = Inr (a\<lparr>service :=
      service a @ (if ''services'' \<in> omit then [] else map drop_dev (service c))\<rparr>)" for a
    by (cases a; cases "''services'' \<in> omit")
      (simp_all add: sec [OF _ load_services_doc [OF assms(1) _ assms(5)]] docs)
  show ?thesis
    using assms(2,4)
    by (simp add: load_body_def global settings temperature zmq topology services AgentConfig_init_def
        PtpTopologyConfig_init_def as_written_def Let_def)
qed

text \<open>C14. Round trip. A configuration written as a document of the shape of \<open>configs/config.yaml\<close>, with any
  of its sections and settings left out, is loaded, and every setting that was written is read back as
  it was; one that was left out has the value of the new object, which for the integers of
  \<open>settings\<close> and \<open>zmq\<close> is whatever its memory held. Of the services only \<open>ppswatch\<close> keeps its device: the
  one \<open>configs/config.yaml\<close> gives \<open>ptp4l\<close> and \<open>phc2sys\<close> is dropped. A complete document whose other
  services name no device gives back the configuration itself.\<close>

theorem config_roundtrip:
  assumes "yaml_reads y tree" and "y_load y path = Inr rt" and "tree rt = doc_config omit c names"
    and "temperature_sensors c = set names"
    and "subseq (map svc_name (service c)) [''ptp4l'', ''phc2sys'', ''ppswatch'']"
  shows "ConfigLoader_load y junk path = Some (as_written omit junk c) \<and>
    ConfigLoader_loadOrDefault y junk path = as_written omit junk c \<and>
    (omit = {} \<and> map drop_dev (service c) = service c \<longrightarrow> as_written omit junk c = c)"
  using load_doc [OF assms, of junk]
  by (cases c) (simp add: ConfigLoader_load_def ConfigLoader_loadOrDefault_def as_written_def set_in_def)

text \<open>The file \<open>configs/config.yaml\<close>.\<close>

definition shipped_config :: AgentConfig where
  "shipped_config = \<lparr>global_node = ''node'',
     monitorConfig = \<lparr>poll_timeout_ms = 10000, sys_metric_update_freq = 0, log_level = ''info''\<rparr>,
     service = [\<lparr>svc_on = True, svc_name = ''ptp4l'', svc_source = ''journal'', svc_dev = ''rteth0''\<rparr>,
       \<lparr>svc_on = True, svc_name = ''phc2sys'', svc_source = ''journal'', svc_dev = ''rteth0''\<rparr>,
       \<lparr>svc_on = True, svc_name = ''ppswatch'', svc_source = ''subproccess'', svc_dev = ''/dev/stand/pps''\<rparr>],
     temperature_sensors = {''coretemp''},
     configZMQ = \<lparr>zmq_endpoint = ''tcp://armsrv:10000'', queue_size = 10000, timeout_after_close_ms = 1000\<rparr>,
     configPtpTopology = \<lparr>topology_on = True, pmc_path = ''/usr/sbin/pmc'', uds_path = ''/var/run/ptp4lro'',
       config_path = [], domain_number = 0, boundary_hops = 0\<rparr>\<rparr>"

definition shipped_yaml :: "ynode yaml" where
  "shipped_yaml = tree_yaml [''config.yaml'' \<mapsto>
     doc_config {''sys_metric_update_freq'', ''config_path''} shipped_config [''coretemp'']]"

definition some_junk :: junk_ints where
  "some_junk = \<lparr>junk_poll = 17, junk_freq = 23, junk_queue = - 3, junk_linger = 9\<rparr>"

theorem config_roundtrip_witness:
  "ConfigLoader_load shipped_yaml some_junk ''config.yaml'' = Some (shipped_config
     \<lparr>monitorConfig := \<lparr>poll_timeout_ms = 10000, sys_metric_update_freq = 23, log_level = ''info''\<rparr>,
      service := [\<lparr>svc_on = True, svc_name = ''ptp4l'', svc_source = ''journal'', svc_dev = []\<rparr>,
        \<lparr>svc_on = True, svc_name = ''phc2sys'', svc_source = ''journal'', svc_dev = []\<rparr>,
        \<lparr>svc_on = True, svc_name = ''ppswatch'', svc_source = ''subproccess'', svc_dev = ''/dev/stand/pps''\<rparr>]\<rparr>)"
proof -
  let ?omit = "{''sys_metric_update_freq'', ''config_path''}"
  have "y_load shipped_yaml ''config.yaml'' = Inr (doc_config ?omit shipped_config [''coretemp''])"
    by (simp add: shipped_yaml_def tree_yaml_def)
  from config_roundtrip [OF _ this, of id ?omit shipped_config "[''coretemp'']" some_junk] show ?thesis
    by (simp add: shipped_yaml_def tree_yaml_reads shipped_config_def as_written_def set_in_def drop_dev_def some_junk_def)
qed

section \<open>Any document\<close>

text \<open>A statement of the loader that leaves a part of the configuration alone.\<close>

definition keeps :: "('s \<Rightarrow> 'p) \<Rightarrow> ('s \<Rightarrow> exn + 's) \<Rightarrow> bool" where
  "keeps f body \<longleftrightarrow> (\<forall>s s'. body s = Inr s' \<longrightarrow> f s' = f s)"

lemma keepsD: "keeps f body \<Longrightarrow> body s = Inr s' \<Longrightarrow> f s' = f s"
  by (simp add: keeps_def)

lemma keeps_assign: "(\<And>v s. f (upd v s) = f s) \<Longrightarrow> keeps f (assign conv upd n)"
  by (auto simp: keeps_def assign_def)

lemma keeps_if_key: "(\<And>v. keeps f (body v)) \<Longrightarrow> keeps f (if_key y n k body)"
  by (auto simp: keeps_def if_key_def split: if_splits)

lemma keeps_seq_all: "list_all (keeps f) fs \<Longrightarrow> keeps f (seq_all fs)"
proof (induction fs)
  case (Cons g gs)
  show ?case unfolding keeps_def
  proof (intro allI impI)
    fix s s'
    assume "seq_all (g # gs) s = Inr s'"
    then obtain t where t: "g s = Inr t" "seq_all gs t = Inr s'" by (auto simp del: not_None_eq)
    have "keeps f g" and "keeps f (seq_all gs)" using Cons by simp_all
    from keepsD [OF this(1) t(1)] keepsD [OF this(2) t(2)] show "f s' = f s" by simp
  qed
qed (simp add: keeps_def)

lemma load_body_steps:
  assumes "load_body y junk path = Inr c"
  shows "\<exists>rt a. y_load y path = Inr rt \<and>
    seq_all [if_key y rt ''global'' (load_global y), if_key y rt ''settings'' (load_settings y),
      if_key y rt ''temperature'' (load_temperature y), if_key y rt ''zmq'' (load_zmq y),
      if_key y rt ''ptp_topology'' (load_topology y)] (AgentConfig_init junk) = Inr a \<and>
    if_key y rt ''services'' (load_services y) a = Inr c"
  using assms unfolding load_body_def res_bind_eq_Inr seq_all.simps by blast

lemmas keeps_intros = keeps_if_key keeps_assign keeps_seq_all

lemma keeps_sections:
  "(\<And>v s. f (s\<lparr>global_node := v\<rparr>) = f s) \<Longrightarrow> keeps f (load_global y n)"
  "(\<And>v s. f (s\<lparr>monitorConfig := v\<rparr>) = f s) \<Longrightarrow> keeps f (load_settings y n)"
  "(\<And>v s. f (s\<lparr>temperature_sensors := v\<rparr>) = f s) \<Longrightarrow> keeps f (load_temperature y n)"
  "(\<And>v s. f (s\<lparr>configZMQ := v\<rparr>) = f s) \<Longrightarrow> keeps f (load_zmq y n)"
  "(\<And>v s. f (s\<lparr>configPtpTopology := v\<rparr>) = f s) \<Longrightarrow> keeps f (load_topology y n)"
  by (simp_all add: load_global_def load_settings_def load_temperature_def load_zmq_def
      load_topology_def load_sensor_def list_all_iff keeps_intros)

lemma keeps_service:
  "(\<And>v s. f (s\<lparr>service := v\<rparr>) = f s) \<Longrightarrow> keeps f (load_service y d k n)"
  by (auto simp: keeps_def load_service_def)

lemma keeps_services:
  "(\<And>v s. f (s\<lparr>service := v\<rparr>) = f s) \<Longrightarrow> keeps f (load_services y n)"
  by (simp add: load_services_def keeps_intros keeps_service)

text \<open>A service entry appends at most one service, under its name.\<close>

lemma if_key_service:
  assumes "if_key y n k (load_service y d k) c = Inr c'"
  shows "\<exists>ss. service c' = service c @ ss \<and> (ss = [] \<or> (\<exists>s. ss = [s] \<and> svc_name s = k \<and> (\<not> d \<longrightarrow> svc_dev s = [])))"
  using assms by (auto simp: if_key_def load_service_def split: if_splits)

text \<open>C32. Whatever the document, a configuration that was loaded has each service at most once, in
  the order \<open>ptp4l\<close>, \<open>phc2sys\<close>, \<open>ppswatch\<close>, and no service but \<open>ppswatch\<close> ever gets a device: the
  interface of \<open>ptp4l\<close> and the clock of \<open>phc2sys\<close> cannot be configured.\<close>

theorem loaded_services:
  assumes "ConfigLoader_load y junk path = Some c"
  shows "services_ok (service c)"
proof -
  have "load_body y junk path = Inr c" using assms by (simp add: ConfigLoader_load_def)
  from load_body_steps [OF this] obtain rt a where first: "seq_all [if_key y rt ''global'' (load_global y),
      if_key y rt ''settings'' (load_settings y), if_key y rt ''temperature'' (load_temperature y),
      if_key y rt ''zmq'' (load_zmq y), if_key y rt ''ptp_topology'' (load_topology y)]
      (AgentConfig_init junk) = Inr a"
    and last: "if_key y rt ''services'' (load_services y) a = Inr c"
    by (elim exE conjE) (rule that)
  have "keeps service (seq_all [if_key y rt ''global'' (load_global y),
      if_key y rt ''settings'' (load_settings y), if_key y rt ''temperature'' (load_temperature y),
      if_key y rt ''zmq'' (load_zmq y), if_key y rt ''ptp_topology'' (load_topology y)])"
    by (simp add: keeps_intros keeps_sections)
  from keepsD [OF this first] have a: "service a = []" by (simp add: AgentConfig_init_def)
  show ?thesis
  proof (cases "\<exists>v. y_get y rt ''services'' = Inr v \<and> y_defined y v")
    case True
    then obtain v where "load_services y v a = Inr c" using last by (auto simp: if_key_def)
    then obtain b1 b2 where "if_key y v ''ptp4l'' (load_service y False ''ptp4l'') a = Inr b1"
      "if_key y v ''phc2sys'' (load_service y False ''phc2sys'') b1 = Inr b2"
      "if_key y v ''ppswatch'' (load_service y True ''ppswatch'') b2 = Inr c"
      by (auto simp: load_services_def)
    note steps = this [THEN if_key_service]
    from steps(1) obtain s1 where s1: "service b1 = service a @ s1"
      "s1 = [] \<or> (\<exists>s. s1 = [s] \<and> svc_name s = ''ptp4l'' \<and> svc_dev s = [])" by auto
    from steps(2) obtain s2 where s2: "service b2 = service b1 @ s2"
      "s2 = [] \<or> (\<exists>s. s2 = [s] \<and> svc_name s = ''phc2sys'' \<and> svc_dev s = [])" by auto
    from steps(3) obtain s3 where s3: "service c = service b2 @ s3"
      "s3 = [] \<or> (\<exists>s. s3 = [s] \<and> svc_name s = ''ppswatch'')" by auto
    have "service c = s1 @ s2 @ s3" using a s1(1) s2(1) s3(1) by simp
    with s1(2) s2(2) s3(2)
    show ?thesis by (auto simp: services_ok_def)
  next
    case False
    then have "c = a" using last by (auto simp: if_key_def split: if_splits)
    then show ?thesis using a by (simp add: services_ok_def)
  qed
qed

lemma loaded_services_witness:
  "services_ok [\<lparr>svc_on = False, svc_name = ''ptp4l'', svc_source = ''journal'', svc_dev = []\<rparr>]"
proof -
  have "ConfigLoader_load (tree_yaml [''d'' \<mapsto> YMap [(''services'', YMap [(''ptp4l'', YMap [(''source'', YScalar ''journal'')])])]])
      some_junk ''d'' = Some ((AgentConfig_init some_junk)\<lparr>service :=
        [\<lparr>svc_on = False, svc_name = ''ptp4l'', svc_source = ''journal'', svc_dev = []\<rparr>]\<rparr>)"
    by (simp add: ConfigLoader_load_def load_body_def if_key_def load_services_def load_service_def
        tree_yaml_def AgentConfig_init_def)
  from loaded_services [OF this] show ?thesis by simp
qed

lemma load_body_states:
  assumes "load_body y junk path = Inr c" and "y_load y path = Inr rt"
  shows "\<exists>c1 c2 c3 c4 c5.
      if_key y rt ''global'' (load_global y) (AgentConfig_init junk) = Inr c1 \<and>
      if_key y rt ''settings'' (load_settings y) c1 = Inr c2 \<and>
      if_key y rt ''temperature'' (load_temperature y) c2 = Inr c3 \<and>
      if_key y rt ''zmq'' (load_zmq y) c3 = Inr c4 \<and>
      if_key y rt ''ptp_topology'' (load_topology y) c4 = Inr c5 \<and>
      if_key y rt ''services'' (load_services y) c5 = Inr c"
  using assms(1) unfolding load_body_def assms(2) res_bind_simps seq_all.simps res_bind_eq_Inr sum.inject
  by blast

text \<open>Members a document does not set. A key is unset in a section when the section or the key is missing.\<close>

definition unset :: "'n yaml \<Rightarrow> 'n \<Rightarrow> string \<Rightarrow> string \<Rightarrow> bool" where
  "unset y rt sec k \<longleftrightarrow> (\<exists>v. y_get y rt sec = Inr v \<and>
     (\<not> y_defined y v \<or> (\<exists>u. y_get y v k = Inr u \<and> \<not> y_defined y u)))"

lemma keeps_undefined: "y_get y n k = Inr u \<Longrightarrow> \<not> y_defined y u \<Longrightarrow> keeps f (if_key y n k body)"
  by (simp add: keeps_def if_key_def)

lemma keeps_at: "(\<And>v. y_get y n k = Inr v \<Longrightarrow> y_defined y v \<Longrightarrow> keeps f (body v)) \<Longrightarrow> keeps f (if_key y n k body)"
  by (auto simp: keeps_def if_key_def split: if_splits)

lemma keeps_unset:
  assumes "unset y rt sec k" and "\<And>v u. y_get y v k = Inr u \<Longrightarrow> \<not> y_defined y u \<Longrightarrow> keeps f (body v)"
  shows "keeps f (if_key y rt sec body)"
  using assms(1) unfolding unset_def by (intro keeps_at) (auto intro: assms(2))

lemma keeps_settings:
  shows "y_get y n ''poll_timeout_ms'' = Inr u \<Longrightarrow> \<not> y_defined y u \<Longrightarrow> keeps (\<lambda>c. poll_timeout_ms (monitorConfig c)) (load_settings y n)"
    and "y_get y n ''sys_metric_update_freq'' = Inr u \<Longrightarrow> \<not> y_defined y u \<Longrightarrow> keeps (\<lambda>c. sys_metric_update_freq (monitorConfig c)) (load_settings y n)"
  unfolding load_settings_def by (intro keeps_seq_all, simp add: keeps_undefined keeps_if_key keeps_assign)+

lemma keeps_zmq:
  shows "y_get y n ''queue_size'' = Inr u \<Longrightarrow> \<not> y_defined y u \<Longrightarrow> keeps (\<lambda>c. queue_size (configZMQ c)) (load_zmq y n)"
    and "y_get y n ''timeout_after_close_ms'' = Inr u \<Longrightarrow> \<not> y_defined y u \<Longrightarrow> keeps (\<lambda>c. timeout_after_close_ms (configZMQ c)) (load_zmq y n)"
  unfolding load_zmq_def by (intro keeps_seq_all, simp add: keeps_undefined keeps_if_key keeps_assign)+

lemma body_keeps:
  assumes "load_body y junk path = Inr c" and "y_load y path = Inr rt"
    and "keeps f (if_key y rt ''settings'' (load_settings y))" and "keeps f (if_key y rt ''zmq'' (load_zmq y))"
    and "\<And>a v. f (a\<lparr>global_node := v\<rparr>) = f a" and "\<And>a v. f (a\<lparr>temperature_sensors := v\<rparr>) = f a"
    and "\<And>a v. f (a\<lparr>configPtpTopology := v\<rparr>) = f a" and "\<And>a v. f (a\<lparr>service := v\<rparr>) = f a"
  shows "f c = f (AgentConfig_init junk)"
proof -
  have "keeps f (seq_all [if_key y rt ''global'' (load_global y), if_key y rt ''settings'' (load_settings y),
      if_key y rt ''temperature'' (load_temperature y), if_key y rt ''zmq'' (load_zmq y),
      if_key y rt ''ptp_topology'' (load_topology y), if_key y rt ''services'' (load_services y)])"
    by (intro keeps_seq_all) (simp add: assms(3-8) keeps_if_key keeps_sections keeps_services)
  moreover have "seq_all [if_key y rt ''global'' (load_global y), if_key y rt ''settings'' (load_settings y),
      if_key y rt ''temperature'' (load_temperature y), if_key y rt ''zmq'' (load_zmq y),
      if_key y rt ''ptp_topology'' (load_topology y), if_key y rt ''services'' (load_services y)]
      (AgentConfig_init junk) = Inr c"
    using assms(1) by (simp only: load_body_def assms(2) res_bind_simps)
  ultimately show ?thesis by (rule keepsD)
qed

text \<open>Whether a statement of the loader succeeds does not depend on the configuration so far.\<close>

definition blind :: "('s \<Rightarrow> exn + 's) \<Rightarrow> bool" where
  "blind body \<longleftrightarrow> (\<forall>s t. (\<exists>s'. body s = Inr s') \<longrightarrow> (\<exists>t'. body t = Inr t'))"

lemma blind_assign: "blind (assign conv upd n)"
  by (auto simp: blind_def assign_def)

lemma blind_service: "blind (load_service y d k n)"
  by (auto simp: blind_def load_service_def)

lemma blind_if_key:
  assumes "\<And>v. blind (body v)"
  shows "blind (if_key y n k body)"
proof (cases "y_get y n k")
  case (Inr v)
  then show ?thesis using assms [of v] by (cases "y_defined y v") (simp_all add: blind_def if_key_def)
qed (simp add: blind_def if_key_def)

lemma blind_seq_all: "list_all blind fs \<Longrightarrow> blind (seq_all fs)"
proof (induction fs)
  case (Cons f fs)
  then have f: "blind f" and fs: "blind (seq_all fs)" by simp_all
  show ?case unfolding blind_def
  proof (intro allI impI)
    fix s t
    assume "\<exists>s'. seq_all (f # fs) s = Inr s'"
    then obtain a s' where "f s = Inr a" "seq_all fs a = Inr s'" by (auto simp del: not_None_eq)
    moreover then obtain b where "f t = Inr b" using f unfolding blind_def by blast
    ultimately show "\<exists>t'. seq_all (f # fs) t = Inr t'" using fs unfolding blind_def by fastforce
  qed
qed (simp add: blind_def)

lemma blind_sections:
  "blind (load_global y n)" "blind (load_settings y n)" "blind (load_temperature y n)" "blind (load_zmq y n)"
  "blind (load_topology y n)" "blind (load_services y n)"
  by (simp_all add: load_global_def load_settings_def load_temperature_def load_zmq_def load_topology_def
      load_services_def load_sensor_def list_all_iff blind_assign blind_if_key blind_seq_all blind_service)

lemma loads_whatever:
  assumes "ConfigLoader_load y junk path = Some c"
  shows "\<exists>c'. load_body y junk' path = Inr c'"
proof -
  have l: "load_body y junk path = Inr c" using assms by (simp add: ConfigLoader_load_def)
  then obtain rt where rt: "y_load y path = Inr rt" by (auto simp: load_body_def simp del: seq_all.simps)
  have "blind (seq_all [if_key y rt ''global'' (load_global y), if_key y rt ''settings'' (load_settings y),
      if_key y rt ''temperature'' (load_temperature y), if_key y rt ''zmq'' (load_zmq y),
      if_key y rt ''ptp_topology'' (load_topology y), if_key y rt ''services'' (load_services y)])"
    by (intro blind_seq_all) (simp add: blind_if_key blind_sections)
  with l show ?thesis unfolding load_body_def rt res_bind_simps blind_def by blast
qed

text \<open>C39. Integers that are not set are indeterminate. Whether a document can be loaded does not depend on
  what the memory of the new configuration held; and where it does not set the poll interval, the
  update frequency, the queue size or the linger time, because the key or its section is missing, the
  loaded configuration has there just what that memory held. The default configuration sets the poll
  interval only and leaves the other three open.\<close>

theorem unset_integers_indeterminate:
  assumes "ConfigLoader_load y junk path = Some c" and "y_load y path = Inr rt"
  shows "(\<exists>c'. ConfigLoader_load y junk' path = Some c' \<and>
      (unset y rt ''settings'' ''poll_timeout_ms'' \<longrightarrow> poll_timeout_ms (monitorConfig c') = junk_poll junk') \<and>
      (unset y rt ''settings'' ''sys_metric_update_freq'' \<longrightarrow>
         sys_metric_update_freq (monitorConfig c') = junk_freq junk') \<and>
      (unset y rt ''zmq'' ''queue_size'' \<longrightarrow> queue_size (configZMQ c') = junk_queue junk') \<and>
      (unset y rt ''zmq'' ''timeout_after_close_ms'' \<longrightarrow> timeout_after_close_ms (configZMQ c') = junk_linger junk')) \<and>
    poll_timeout_ms (monitorConfig (ConfigLoader_defaultConfig junk')) = 1000 \<and>
    sys_metric_update_freq (monitorConfig (ConfigLoader_defaultConfig junk')) = junk_freq junk' \<and>
    queue_size (configZMQ (ConfigLoader_defaultConfig junk')) = junk_queue junk' \<and>
    timeout_after_close_ms (configZMQ (ConfigLoader_defaultConfig junk')) = junk_linger junk'"
proof -
  obtain c' where l: "load_body y junk' path = Inr c'" using loads_whatever [OF assms(1)] by blast
  note body = body_keeps [OF l assms(2)]
  note sections = keeps_if_key [OF keeps_sections(2)] keeps_if_key [OF keeps_sections(4)]
  have "poll_timeout_ms (monitorConfig c') = junk_poll junk'" if "unset y rt ''settings'' ''poll_timeout_ms''"
    using body [of "\<lambda>c. poll_timeout_ms (monitorConfig c)", OF keeps_unset [OF that keeps_settings(1)] sections(2)]
    by (simp add: AgentConfig_init_def)
  moreover have "sys_metric_update_freq (monitorConfig c') = junk_freq junk'"
    if "unset y rt ''settings'' ''sys_metric_update_freq''"
    using body [of "\<lambda>c. sys_metric_update_freq (monitorConfig c)", OF keeps_unset [OF that keeps_settings(2)] sections(2)]
    by (simp add: AgentConfig_init_def)
  moreover have "queue_size (configZMQ c') = junk_queue junk'" if "unset y rt ''zmq'' ''queue_size''"
    using body [of "\<lambda>c. queue_size (configZMQ c)", OF sections(1) keeps_unset [OF that keeps_zmq(1)]]
    by (simp add: AgentConfig_init_def)
  moreover have "timeout_after_close_ms (configZMQ c') = junk_linger junk'"
    if "unset y rt ''zmq'' ''timeout_after_close_ms''"
    using body [of "\<lambda>c. timeout_after_close_ms (configZMQ c)", OF sections(1) keeps_unset [OF that keeps_zmq(2)]]
    by (simp add: AgentConfig_init_def)
  moreover have "ConfigLoader_load y junk' path = Some c'" using l by (simp add: ConfigLoader_load_def)
  ultimately show ?thesis by (auto simp: ConfigLoader_defaultConfig_def AgentConfig_init_def)
qed

text \<open>A file without a section \<open>zmq\<close>, otherwise that of \<open>configs/config.yaml\<close>.\<close>

theorem unset_integers_indeterminate_witness:
  "\<exists>c c'. ConfigLoader_load (tree_yaml [''d'' \<mapsto> doc_config {''zmq''} shipped_config [''coretemp'']]) some_junk ''d'' = Some c \<and>
     ConfigLoader_load (tree_yaml [''d'' \<mapsto> doc_config {''zmq''} shipped_config [''coretemp'']])
       (some_junk\<lparr>junk_queue := 500\<rparr>) ''d'' = Some c' \<and>
     queue_size (configZMQ c) = - 3 \<and> queue_size (configZMQ c') = 500"
proof -
  let ?rt = "doc_config {''zmq''} shipped_config [''coretemp'']"
  let ?y = "tree_yaml [''d'' \<mapsto> ?rt]"
  have l: "y_load ?y ''d'' = Inr ?rt" by (simp add: tree_yaml_def)
  have u: "unset ?y ?rt ''zmq'' ''queue_size''"
    by (simp add: unset_def tree_yaml_def doc_config_def written_def)
  have "ConfigLoader_load ?y some_junk ''d'' = Some (as_written {''zmq''} some_junk shipped_config)"
    using load_doc [OF tree_yaml_reads l, of "{''zmq''}" shipped_config "[''coretemp'']"]
    by (simp add: ConfigLoader_load_def shipped_config_def)
  note all = unset_integers_indeterminate [OF this l]
  from all [of some_junk] all [of "some_junk\<lparr>junk_queue := 500\<rparr>"] show ?thesis
    using u by (auto simp: some_junk_def)
qed

lemma seq_all_member:
  "seq_all fs s = Inr s' \<Longrightarrow> f \<in> set fs \<Longrightarrow> \<exists>a b. f a = Inr b"
proof (induction fs arbitrary: s)
  case (Cons g gs)
  then obtain t where "g s = Inr t" "seq_all gs t = Inr s'" by (auto simp del: not_None_eq)
  with Cons show ?case by auto
qed simp

lemma load_service_source: "load_service y d k n c = Inr c' \<Longrightarrow> \<exists>u x. y_get y n ''source'' = Inr u \<and> y_string y u = Inr x"
  by (auto simp: load_service_def split: if_splits)

lemma service_in_list:
  assumes "load_services y n c = Inr c'" and "k \<in> {''ptp4l'', ''phc2sys'', ''ppswatch''}"
  shows "\<exists>d a b. if_key y n k (load_service y d k) a = Inr b"
  using assms(2) seq_all_member [OF assms(1) [unfolded load_services_def]]
  by (elim insertE emptyE) (simp_all, blast+)

text \<open>C38. One listed service without a readable \<open>source\<close> discards the whole file: loading yields
  nothing, and the agent then runs with the default configuration, which has no service at all
  and no endpoint to send to.\<close>

theorem service_without_source_discards_config:
  assumes "y_load y path = Inr rt" and "y_get y rt ''services'' = Inr n" and "y_defined y n"
    and "k \<in> {''ptp4l'', ''phc2sys'', ''ppswatch''}" and "y_get y n k = Inr v" and "y_defined y v"
    and "\<forall>u. y_get y v ''source'' = Inr u \<longrightarrow> (\<exists>e. y_string y u = Inl e)"
  shows "ConfigLoader_load y junk path = None \<and>
    ConfigLoader_loadOrDefault y junk path = ConfigLoader_defaultConfig junk \<and>
    service (ConfigLoader_loadOrDefault y junk path) = [] \<and>
    zmq_endpoint (configZMQ (ConfigLoader_loadOrDefault y junk path)) = []"
proof -
  have "ConfigLoader_load y junk path = None"
  proof (rule ccontr)
    assume "ConfigLoader_load y junk path \<noteq> None"
    then obtain c where "load_body y junk path = Inr c" by (auto simp: ConfigLoader_load_def)
    from load_body_states [OF this assms(1)] obtain a where
      "if_key y rt ''services'' (load_services y) a = Inr c" by blast
    then have "load_services y n a = Inr c" using assms(2,3) by (simp add: if_key_def)
    from service_in_list [OF this assms(4)] obtain d b b' where
      "if_key y n k (load_service y d k) b = Inr b'" by blast
    then have "load_service y d k v b = Inr b'" using assms(5,6) by (simp add: if_key_def)
    from load_service_source [OF this] show False using assms(7) by auto
  qed
  then show ?thesis
    by (simp add: ConfigLoader_loadOrDefault_def ConfigLoader_defaultConfig_def AgentConfig_init_def)
qed

lemma service_without_source_discards_config_witness:
  "ConfigLoader_load (tree_yaml [''d'' \<mapsto> YMap [(''services'', YMap [(''ptp4l'', YMap [(''on'', YScalar ''true'')])])]])
     some_junk ''d'' = None"
  using service_without_source_discards_config [of "tree_yaml [''d'' \<mapsto>
      YMap [(''services'', YMap [(''ptp4l'', YMap [(''on'', YScalar ''true'')])])]]" "''d''"
      "YMap [(''services'', YMap [(''ptp4l'', YMap [(''on'', YScalar ''true'')])])]"
      "YMap [(''ptp4l'', YMap [(''on'', YScalar ''true'')])]" "''ptp4l''" "YMap [(''on'', YScalar ''true'')]" some_junk]
  by (simp add: tree_yaml_def)

end
