(* ===== verification/Adapter_Zmq.thy ===== *)
theory Adapter_Zmq
  imports Collector_Parsers Sys_Metrics Config_Loader "HOL-Library.Signed_Division"
begin

text \<open>
  \<open>src/adapter.cpp\<close>, \<open>include/adapter.h\<close> and \<open>include/timestamp_utils.h\<close>: the converters to
  protobuf messages and the ZMQ adapter. The generated protobuf classes and the ZMQ library are
  records of the operations the code calls, a field of a message being named by its path from
  the wrapper; the six \<open>send_\<close> methods of \<open>IAdapter\<close> are one function on the type \<open>metric\<close>.
\<close>

section \<open>The protobuf classes\<close>

datatype step = F string | I nat

type_synonym path = "step list"

text \<open>A value given to a setter, with its C++ type.\<close>

datatype pval = PI64 i64 | PI32 i32 | PU64 u64 | PF64 rat | PStr string | PEnum string

text \<open>\<open>set_x\<close>, \<open>mutable_x\<close>, \<open>add_x\<close> and \<open>SerializeToString\<close>; \<open>x\<close>, \<open>has_x\<close> and \<open>x_size\<close> for the
  reader. \<open>pb_add\<close> returns the path of the new element.\<close>

record 'm pb =
  pb_new :: 'm
  pb_set :: "path \<Rightarrow> pval \<Rightarrow> 'm \<Rightarrow> 'm"
  pb_mutable :: "path \<Rightarrow> 'm \<Rightarrow> 'm"
  pb_add :: "path \<Rightarrow> 'm \<Rightarrow> path \<times> 'm"
  pb_serialize :: "'m \<Rightarrow> string option"
  pb_get :: "path \<Rightarrow> 'm \<Rightarrow> pval option"
  pb_has :: "path \<Rightarrow> 'm \<Rightarrow> bool"
  pb_count :: "path \<Rightarrow> 'm \<Rightarrow> nat"

text \<open>Several setters in a row.\<close>

fun set_all :: "'m pb \<Rightarrow> path \<Rightarrow> (string \<times> pval) list \<Rightarrow> 'm \<Rightarrow> 'm" where
  "set_all api p [] m = m"
| "set_all api p ((f, v) # fs) m = set_all api p fs (pb_set api (p @ [F f]) v m)"

section \<open>Timestamps\<close>

text \<open>\<open>timestamp_utils::from_us\<close>: the argument is converted to \<open>int64_t\<close> and divided with
  truncation towards zero; the nanoseconds are converted to the field's \<open>int32\<close>.\<close>

definition from_us :: "i64 \<Rightarrow> i64 \<times> i32" where
  "from_us us = (word_of_int (sint us sdiv 1000000), word_of_int (sint us smod 1000000 * 1000))"

section \<open>Converters\<close>

definition set_header :: "'m pb \<Rightarrow> string \<Rightarrow> string \<Rightarrow> u64 \<Rightarrow> 'm \<Rightarrow> 'm" where
  "set_header api kind node us m =
     (let m = pb_set api [F ''type''] (PEnum kind) m;
          m = pb_set api [F ''node_name''] (PStr node) m;
          m = pb_mutable api [F ''timestamp''] m;
          (seconds, nanos) = from_us us
      in set_all api [F ''timestamp''] [(''seconds'', PI64 seconds), (''nanos'', PI32 nanos)] m)"

definition to_ptp4l_metrics :: "'m pb \<Rightarrow> Ptp4lStats \<Rightarrow> string \<Rightarrow> 'm" where
  "to_ptp4l_metrics api internal node =
     (let m = set_header api ''MESSAGE_TYPE_PTP4L'' node (ptp_timestamp_us internal) (pb_new api);
          m = pb_mutable api [F ''ptp4l''] m
      in set_all api [F ''ptp4l'']
        [(''path_delay'', PI64 (ptp_path_delay internal)), (''frequency'', PI64 (ptp_freq internal)),
         (''offset_ns'', PI64 (ptp_offset internal)), (''state'', PI32 (ptp_state internal))] m)"

definition to_phc2sys_metrics :: "'m pb \<Rightarrow> Phc2SysStats \<Rightarrow> string \<Rightarrow> 'm" where
  "to_phc2sys_metrics api internal node =
     (let m = set_header api ''MESSAGE_TYPE_PHC2SYS'' node (phc_timestamp_us internal) (pb_new api);
          m = pb_mutable api [F ''phc2sys''] m
      in set_all api [F ''phc2sys'']
        [(''path_delay'', PI64 (phc_path_delay internal)), (''frequency'', PI64 (phc_freq internal)),
         (''offset_ns'', PI64 (phc_offset internal)), (''state'', PI32 (phc_state internal))] m)"

definition set_cpu :: "'m pb \<Rightarrow> CpuStats \<Rightarrow> 'm \<Rightarrow> 'm" where
  "set_cpu api s m = (let p = [F ''system'', F ''cpu_stats''] in
     set_all api p
       [(''usage_percent'', PF64 (usage_percent s)), (''context_switches'', PU64 (context_switches s)),
        (''interrupts'', PU64 (interrupts s)), (''softirqs'', PU64 (softirqs s))] (pb_mutable api p m))"

definition set_memory :: "'m pb \<Rightarrow> MemoryStats \<Rightarrow> 'm \<Rightarrow> 'm" where
  "set_memory api s m = (let p = [F ''system'', F ''memory_stats''] in
     set_all api p
       [(''mem_available_kb'', PU64 (mem_available_kb s)), (''mem_free_kb'', PU64 (mem_free_kb s)),
        (''swap_total_kb'', PU64 (swap_total_kb s)), (''swap_free_kb'', PU64 (swap_free_kb s)),
        (''buffers_kb'', PU64 (buffers_kb s))] (pb_mutable api p m))"

definition set_network :: "'m pb \<Rightarrow> NetworkStats \<Rightarrow> 'm \<Rightarrow> 'm" where
  "set_network api s m = (let p = [F ''system'', F ''network_stats''] in
     set_all api p
       [(''rx_packets'', PU64 (rx_packets s)), (''tx_packets'', PU64 (tx_packets s)),
        (''rx_dropped'', PU64 (rx_dropped s)), (''tx_dropped'', PU64 (tx_dropped s)),
        (''rx_errors'', PU64 (rx_errors s)), (''tx_errors'', PU64 (tx_errors s)),
        (''collisions'', PU64 (collisions s))] (pb_mutable api p m))"

fun add_each :: "'m pb \<Rightarrow> path \<Rightarrow> (string \<times> pval) list list \<Rightarrow> 'm \<Rightarrow> 'm" where
  "add_each api p [] m = m"
| "add_each api p (fs # fss) m =
     (let (q, m1) = pb_add api p m in add_each api p fss (set_all api q fs m1))"

definition set_temperature :: "'m pb \<Rightarrow> TemperatureMetric list \<Rightarrow> 'm \<Rightarrow> 'm" where
  "set_temperature api zones m = (let p = [F ''system'', F ''temperature_stats''] in
     add_each api (p @ [F ''zones_readings''])
       (map (\<lambda>z. [(''sensor'', PStr (tm_sensor z)), (''label'', PStr (tm_label z)),
          (''temperature'', PI32 (tm_temperature z))]) zones)
       (pb_mutable api p m))"

definition if_some :: "'v option \<Rightarrow> ('v \<Rightarrow> 'm \<Rightarrow> 'm) \<Rightarrow> 'm \<Rightarrow> 'm" where
  "if_some x f m = (case x of Some v \<Rightarrow> f v m | None \<Rightarrow> m)"

definition to_system_metrics :: "'m pb \<Rightarrow> SystemStats \<Rightarrow> string \<Rightarrow> 'm" where
  "to_system_metrics api internal node =
     (let m = set_header api ''MESSAGE_TYPE_SYSTEM'' node (ss_timestamp_us internal) (pb_new api);
          m = pb_mutable api [F ''system''] m;
          m = if_some (cpuStats internal) (set_cpu api) m;
          m = if_some (memoryStats internal) (set_memory api) m;
          m = if_some (networkStats internal) (set_network api) m
      in if_some (temperatureStats internal) (set_temperature api) m)"

definition to_pps_metrics :: "'m pb \<Rightarrow> PPSStats \<Rightarrow> string \<Rightarrow> 'm" where
  "to_pps_metrics api internal node =
     (let m = set_header api ''MESSAGE_TYPE_PPS'' node (pps_timestamp_us internal) (pb_new api);
          m = pb_mutable api [F ''pps''] m
      in set_all api [F ''pps''] [(''offset_ns'', PI64 (pps_offset internal))] m)"

definition to_port_event :: "'m pb \<Rightarrow> PortEvent \<Rightarrow> string \<Rightarrow> 'm" where
  "to_port_event api internal node =
     (let m = set_header api ''MESSAGE_TYPE_PTP4L_PORT_EVENT'' node (pe_timestamp_us internal) (pb_new api);
          m = pb_mutable api [F ''ptp4l_port_event''] m
      in set_all api [F ''ptp4l_port_event'']
        [(''port'', PI32 (pe_portNumber internal)), (''interface'', PStr (pe_portName internal)),
         (''from_state'', PStr (pe_fromState internal)), (''to_state'', PStr (pe_toState internal)),
         (''adapter_name'', PStr (pe_adapterName internal)), (''event_trigger'', PStr (pe_trigger internal))] m)"

definition to_ptp_topology_snapshot :: "'m pb \<Rightarrow> PtpTopologySnapshotData \<Rightarrow> string \<Rightarrow> 'm" where
  "to_ptp_topology_snapshot api internal node =
     (let m = set_header api ''MESSAGE_TYPE_PTP_TOPOLOGY'' node (topo_timestamp_us internal) (pb_new api);
          m = pb_mutable api [F ''ptp_topology''] m;
          m = set_all api [F ''ptp_topology'']
            [(''local_clock_identity'', PStr (localClockIdentity internal)),
             (''parent_clock_identity'', PStr (parentClockIdentity internal)),
             (''parent_port'', PI32 (parentPortNumber internal)),
             (''grandmaster_identity'', PStr (grandmasterIdentity internal)),
             (''steps_removed'', PI32 (stepsRemoved internal)),
             (''mean_path_delay_ns'', PI64 (meanPathDelayNs internal)),
             (''child_port'', PI32 (childPortNumber internal))] m
      in add_each api [F ''ptp_topology'', F ''ports'']
        (map (\<lambda>p. [(''port'', PI32 (portNumber p)), (''port_identity'', PStr (portIdentity p)),
           (''state'', PStr (port_state p))]) (ports internal)) m)"

section \<open>IAdapter\<close>

datatype metric =
    MPtp4l Ptp4lStats
  | MPhc2Sys Phc2SysStats
  | MPps PPSStats
  | MSys SystemStats
  | MPortEvent PortEvent
  | MTopology PtpTopologySnapshotData

definition to_wrapper :: "'m pb \<Rightarrow> metric \<Rightarrow> string \<Rightarrow> 'm" where
  "to_wrapper api mt node = (case mt of
       MPtp4l s \<Rightarrow> to_ptp4l_metrics api s node
     | MPhc2Sys s \<Rightarrow> to_phc2sys_metrics api s node
     | MPps s \<Rightarrow> to_pps_metrics api s node
     | MSys s \<Rightarrow> to_system_metrics api s node
     | MPortEvent e \<Rightarrow> to_port_event api e node
     | MTopology t \<Rightarrow> to_ptp_topology_snapshot api t node)"

section \<open>ZMQAdapter\<close>

datatype sockopt = Sndhwm | Linger

text \<open>The calls of the ZMQ library on a world of its own; each of them may throw. \<open>z_send\<close> is called
  with \<open>send_flags::none\<close> and blocks while the queue is full: it is nothing in a world in which it does
  not return, and takes effect in the world in which it does.\<close>

record 'z zmq =
  z_context :: "'z \<Rightarrow> (exn + unit) \<times> 'z"
  z_socket :: "'z \<Rightarrow> (exn + unit) \<times> 'z"
  z_set :: "sockopt \<Rightarrow> i32 \<Rightarrow> 'z \<Rightarrow> (exn + unit) \<times> 'z"
  z_connect :: "string \<Rightarrow> 'z \<Rightarrow> (exn + unit) \<times> 'z"
  z_message :: "nat \<Rightarrow> 'z \<Rightarrow> (exn + unit) \<times> 'z"
  z_send :: "string \<Rightarrow> 'z \<Rightarrow> ((exn + nat option) \<times> 'z) option"
  z_close :: "'z \<Rightarrow> (exn + unit) \<times> 'z"
  z_shutdown :: "'z \<Rightarrow> (exn + unit) \<times> 'z"

record ZMQAdapter =
  has_context :: bool
  has_sender :: bool

text \<open>One call after the other, an exception leaving the constructor.\<close>

fun z_all :: "('z \<Rightarrow> (exn + unit) \<times> 'z) list \<Rightarrow> 'z \<Rightarrow> (exn + unit) \<times> 'z" where
  "z_all [] z = (Inr (), z)"
| "z_all (f # fs) z = (case f z of (Inl e, z') \<Rightarrow> (Inl e, z') | (Inr _, z') \<Rightarrow> z_all fs z')"

definition ZMQAdapter_new :: "'z zmq \<Rightarrow> ZMQConfig \<Rightarrow> 'z \<Rightarrow> (exn + ZMQAdapter) \<times> 'z" where
  "ZMQAdapter_new zmq config z =
     (case z_all [z_context zmq, z_socket zmq, z_set zmq Sndhwm (queue_size config),
                  z_set zmq Linger (timeout_after_close_ms config), z_connect zmq (zmq_endpoint config)] z of
        (Inl e, z') \<Rightarrow> (Inl e, z')
      | (Inr _, z') \<Rightarrow> (Inr \<lparr>has_context = True, has_sender = True\<rparr>, z'))"

text \<open>Nothing when the call blocks.\<close>

definition send_impl :: "'m pb \<Rightarrow> 'z zmq \<Rightarrow> ZMQAdapter \<Rightarrow> 'm \<Rightarrow> 'z \<Rightarrow> ((exn + bool) \<times> 'z) option" where
  "send_impl api zmq a msg z =
     (if \<not> has_sender a then Some (Inr False, z)
      else (case pb_serialize api msg of
          None \<Rightarrow> Some (Inr False, z)
        | Some bytes \<Rightarrow>
            (case z_message zmq (length bytes) z of
               (Inl (ZmqError e), z1) \<Rightarrow> Some (Inr False, z1)
             | (Inl e, z1) \<Rightarrow> Some (Inl e, z1)
             | (Inr _, z1) \<Rightarrow>
                 (case z_send zmq bytes z1 of
                    None \<Rightarrow> None
                  | Some (Inl (ZmqError e), z2) \<Rightarrow> Some (Inr False, z2)
                  | Some (Inl e, z2) \<Rightarrow> Some (Inl e, z2)
                  | Some (Inr None, z2) \<Rightarrow> Some (Inr False, z2)
                  | Some (Inr (Some _), z2) \<Rightarrow> Some (Inr True, z2)))))"

definition ZMQAdapter_send :: "'m pb \<Rightarrow> 'z zmq \<Rightarrow> ZMQAdapter \<Rightarrow> metric \<Rightarrow> string \<Rightarrow> 'z \<Rightarrow> ((exn + bool) \<times> 'z) option" where
  "ZMQAdapter_send api zmq a mt node z = send_impl api zmq a (to_wrapper api mt node) z"

text \<open>The destructor: nothing that is thrown leaves it. An exception that is not a ZMQ error skips
  the rest; what was not reset there is destroyed with the members.\<close>

definition ZMQAdapter_destroy :: "'z zmq \<Rightarrow> ZMQAdapter \<Rightarrow> 'z \<Rightarrow> ZMQAdapter \<times> 'z" where
  "ZMQAdapter_destroy zmq a z =
     (let (ok, a, z) = (if has_sender a then (case z_close zmq z of
                            (Inl (ZmqError e), z') \<Rightarrow> (True, a\<lparr>has_sender := False\<rparr>, z')
                          | (Inl e, z') \<Rightarrow> (False, a, z')
                          | (Inr _, z') \<Rightarrow> (True, a\<lparr>has_sender := False\<rparr>, z'))
                        else (True, a, z));
          (a, z) = (if ok \<and> has_context a then (case z_shutdown zmq z of
                            (Inl (ZmqError e), z') \<Rightarrow> (a\<lparr>has_context := False\<rparr>, z')
                          | (Inl e, z') \<Rightarrow> (a, z')
                          | (Inr _, z') \<Rightarrow> (a\<lparr>has_context := False\<rparr>, z'))
                    else (a, z))
      in (a, z))"

end
