(* ===== verification/Adapter_Theorems.thy ===== *)
theory Adapter_Theorems
  imports Adapter_Zmq
begin

text \<open>
  What the receiver gets: for protobuf classes that store what is set, every message decodes to
  the metric it was made from (the unit name is not sent). What \<open>ZMQAdapter\<close> promises: it
  returns true exactly for the messages ZMQ accepted, and no ZMQ error ever leaves a send.
\<close>

section \<open>Timestamps\<close>

lemma from_us_spec:
  "case from_us us of (seconds, nanos) \<Rightarrow>
     sint seconds * 1000000 + sint nanos div 1000 = sint us \<and> 1000 dvd sint nanos \<and>
     (sint us < 0 \<or> (0 \<le> sint seconds \<and> 0 \<le> sint nanos \<and> sint nanos < 1000000000))"
proof -
  define a where "a = sint us"
  define q where "q = a sdiv 1000000"
  define r where "r = a smod 1000000"
  have a: "- (2 ^ 63) \<le> a" "a < 2 ^ 63" using sint_range_64 [of us] by (simp_all add: a_def)
  have "q * 1000000 + r = a \<and> \<bar>r\<bar> < 1000000 \<and> (0 \<le> a \<longrightarrow> 0 \<le> r \<and> 0 \<le> q) \<and> \<bar>q\<bar> \<le> \<bar>a\<bar>"
  proof (cases "0 \<le> a")
    case True
    then have "q = a div 1000000" "r = a mod 1000000"
      by (auto simp: q_def r_def signed_divide_int_def signed_modulo_int_def sgn_if)
    moreover have "a div 1000000 * 1000000 + a mod 1000000 = a" "0 \<le> a mod 1000000" "a mod 1000000 < 1000000"
      by simp_all
    ultimately show ?thesis using True by linarith
  next
    case False
    then have "q = - ((- a) div 1000000)" "r = - ((- a) mod 1000000)"
      by (auto simp: q_def r_def signed_divide_int_def signed_modulo_int_def sgn_if)
    moreover have "(- a) div 1000000 * 1000000 + (- a) mod 1000000 = - a"
      "0 \<le> (- a) mod 1000000" "(- a) mod 1000000 < 1000000" by simp_all
    ultimately show ?thesis using False by linarith
  qed
  then have qr: "q * 1000000 + r = a" "\<bar>r\<bar> < 1000000" "0 \<le> a \<Longrightarrow> 0 \<le> r \<and> 0 \<le> q" "\<bar>q\<bar> \<le> \<bar>a\<bar>"
    by simp_all
  have "\<bar>q\<bar> \<le> 2 ^ 62" using qr(1,2) a by (simp add: abs_le_iff abs_less_iff)
  then have s1: "sint (word_of_int q :: i64) = q" by (intro sint_word_of_int_64) simp_all
  have s2: "sint (word_of_int (r * 1000) :: i32) = r * 1000"
    using qr(2) by (intro sint_word_of_int_32) (simp_all add: abs_less_iff)
  have f: "from_us us = (word_of_int q, word_of_int (r * 1000))"
    by (simp only: from_us_def q_def r_def a_def)
  have "q * 1000000 + r * 1000 div 1000 = a" using qr(1) by simp
  moreover have "a < 0 \<or> (0 \<le> q \<and> 0 \<le> r * 1000 \<and> r * 1000 < 1000000000)"
    using qr(2,3) by (auto simp: abs_less_iff)
  ultimately show ?thesis
    unfolding f prod.case s1 s2 a_def [symmetric] by (simp only: dvd_triv_right simp_thms)
qed

text \<open>C33. The time on the wire. For every reading of the clock since 1970 the timestamp of a message
  stamped with \<open>now_us\<close> is that time with the nanoseconds below a microsecond cut off: seconds and
  nanoseconds are normalised, nothing overflows up to the last reading a signed 64-bit clock has,
  and a later reading never gives an earlier timestamp.\<close>

theorem clock_on_the_wire:
  assumes "0 \<le> sint clock" and "sint clock \<le> sint later"
  shows "case from_us (now_us clock) of (seconds, nanos) \<Rightarrow>
     sint seconds * 1000000000 + sint nanos = sint clock - sint clock mod 1000 \<and>
     0 \<le> sint seconds \<and> 0 \<le> sint nanos \<and> sint nanos < 1000000000 \<and>
     (case from_us (now_us later) of (seconds', nanos') \<Rightarrow>
        sint seconds * 1000000000 + sint nanos \<le> sint seconds' * 1000000000 + sint nanos')"
proof -
  have wire: "case from_us (now_us c) of (seconds, nanos) \<Rightarrow>
      sint seconds * 1000000000 + sint nanos = sint c - sint c mod 1000 \<and>
      0 \<le> sint seconds \<and> 0 \<le> sint nanos \<and> sint nanos < 1000000000" if "0 \<le> sint c" for c
  proof -
    obtain seconds nanos where f: "from_us (now_us c) = (seconds, nanos)" by fastforce
    have us: "sint (now_us c) = sint c div 1000" "0 \<le> sint (now_us c)"
      using now_us_nonneg [OF that] that by simp_all
    have wire: "sint seconds * 1000000 + sint nanos div 1000 = sint c div 1000" "1000 dvd sint nanos"
        "0 \<le> sint seconds" "0 \<le> sint nanos" "sint nanos < 1000000000"
      using from_us_spec [of "now_us c"] f us by auto
    then obtain k where k: "sint nanos = 1000 * k" by blast
    have "sint c - sint c mod 1000 = 1000 * (sint c div 1000)" by (simp add: minus_mod_eq_mult_div)
    also have "\<dots> = 1000 * (sint seconds * 1000000 + k)" using wire(1) k by simp
    finally have "sint seconds * 1000000000 + sint nanos = sint c - sint c mod 1000" using k by simp
    with wire show ?thesis unfolding f by simp
  qed
  have "sint x - sint x mod 1000 = 1000 * (sint x div 1000)" for x :: i64 by (simp add: minus_mod_eq_mult_div)
  then have "sint clock - sint clock mod 1000 \<le> sint later - sint later mod 1000"
    using zdiv_mono1 [OF assms(2), of 1000] by simp
  then show ?thesis using wire [OF assms(1)] wire [of later] assms by (auto split: prod.splits)
qed

theorem clock_on_the_wire_witness:
  "from_us (now_us 1700000000123456789) = (1700000000, 123456000) \<and>
   1700000000 * 1000000000 + (123456000 :: int) = 1700000000123456789 - 1700000000123456789 mod 1000"
proof -
  have "from_us (now_us 1700000000123456789) = (1700000000, 123456000)"
    by (simp add: from_us_def now_us_def signed_divide_int_def signed_modulo_int_def)
  then show ?thesis using clock_on_the_wire [of 1700000000123456789 1700000000123456789] by simp
qed

section \<open>Protobuf classes store what is set\<close>

text \<open>
  The generated classes as documented: a setter stores its value and nothing else; \<open>mutable_x\<close>
  creates the submessage and keeps every other field, except that creating a member of the payload
  may clear another member of the payload; \<open>add_x\<close> appends one
  element.
\<close>

definition header_fields :: "step list" where
  "header_fields = [F ''type'', F ''node_name'', F ''timestamp'']"

definition pb_set_law :: "'m pb \<Rightarrow> bool" where
  "pb_set_law api \<longleftrightarrow> (\<forall>p q v m.
     pb_get api q (pb_set api p v m) = (if q = p then Some v else pb_get api q m) \<and>
     pb_has api q (pb_set api p v m) = pb_has api q m \<and>
     pb_count api q (pb_set api p v m) = pb_count api q m)"

definition pb_mutable_law :: "'m pb \<Rightarrow> bool" where
  "pb_mutable_law api \<longleftrightarrow> (\<forall>p q m. hd q = hd p \<or> {hd p, hd q} \<inter> set header_fields \<noteq> {} \<longrightarrow>
     pb_get api q (pb_mutable api p m) = pb_get api q m \<and>
     (pb_has api q (pb_mutable api p m) \<longleftrightarrow> q = p \<or> pb_has api q m) \<and>
     pb_count api q (pb_mutable api p m) = pb_count api q m)"

definition pb_add_law :: "'m pb \<Rightarrow> bool" where
  "pb_add_law api \<longleftrightarrow> (\<forall>p q m.
     fst (pb_add api p m) = p @ [I (pb_count api p m)] \<and>
     pb_count api q (snd (pb_add api p m)) = (if q = p then Suc (pb_count api p m) else pb_count api q m) \<and>
     pb_get api q (snd (pb_add api p m)) = pb_get api q m \<and>
     pb_has api q (snd (pb_add api p m)) = pb_has api q m)"

definition pb_stores :: "'m pb \<Rightarrow> bool" where
  "pb_stores api \<longleftrightarrow> pb_set_law api \<and> pb_mutable_law api \<and> pb_add_law api \<and>
     (\<forall>p. pb_count api p (pb_new api) = 0 \<and> \<not> pb_has api p (pb_new api))"

lemma pb_storesD:
  assumes "pb_stores api"
  shows "pb_get api q (pb_set api p v m) = (if q = p then Some v else pb_get api q m)"
    and "pb_has api q (pb_set api p v m) = pb_has api q m"
    and "pb_count api q (pb_set api p v m) = pb_count api q m"
    and "hd q = hd p \<or> {hd p, hd q} \<inter> set header_fields \<noteq> {} \<Longrightarrow> pb_get api q (pb_mutable api p m) = pb_get api q m"
    and "hd q = hd p \<or> {hd p, hd q} \<inter> set header_fields \<noteq> {} \<Longrightarrow>
      pb_has api q (pb_mutable api p m) \<longleftrightarrow> q = p \<or> pb_has api q m"
    and "hd q = hd p \<or> {hd p, hd q} \<inter> set header_fields \<noteq> {} \<Longrightarrow> pb_count api q (pb_mutable api p m) = pb_count api q m"
    and "fst (pb_add api p m) = p @ [I (pb_count api p m)]"
    and "pb_count api q (snd (pb_add api p m)) =
        (if q = p then Suc (pb_count api p m) else pb_count api q m)"
    and "pb_get api q (snd (pb_add api p m)) = pb_get api q m"
    and "pb_has api q (snd (pb_add api p m)) = pb_has api q m"
    and "pb_count api q (pb_new api) = 0" and "\<not> pb_has api q (pb_new api)"
proof -
  have laws: "pb_set_law api" "pb_mutable_law api" "pb_add_law api"
    using assms unfolding pb_stores_def by blast+
  show "pb_get api q (pb_set api p v m) = (if q = p then Some v else pb_get api q m)"
    "pb_has api q (pb_set api p v m) = pb_has api q m"
    "pb_count api q (pb_set api p v m) = pb_count api q m"
    using laws(1) unfolding pb_set_law_def by blast+
  show "hd q = hd p \<or> {hd p, hd q} \<inter> set header_fields \<noteq> {} \<Longrightarrow> pb_get api q (pb_mutable api p m) = pb_get api q m"
    "hd q = hd p \<or> {hd p, hd q} \<inter> set header_fields \<noteq> {} \<Longrightarrow>
      pb_has api q (pb_mutable api p m) \<longleftrightarrow> q = p \<or> pb_has api q m"
    "hd q = hd p \<or> {hd p, hd q} \<inter> set header_fields \<noteq> {} \<Longrightarrow> pb_count api q (pb_mutable api p m) = pb_count api q m"
    using laws(2) unfolding pb_mutable_law_def by metis+
  show "fst (pb_add api p m) = p @ [I (pb_count api p m)]"
    "pb_count api q (snd (pb_add api p m)) = (if q = p then Suc (pb_count api p m) else pb_count api q m)"
    "pb_get api q (snd (pb_add api p m)) = pb_get api q m"
    "pb_has api q (snd (pb_add api p m)) = pb_has api q m"
    using laws(3) unfolding pb_add_law_def by blast+
  show "pb_count api q (pb_new api) = 0" "\<not> pb_has api q (pb_new api)"
    using assms unfolding pb_stores_def by blast+
qed

text \<open>Classes that behave so: a message is the values set, the submessages created and the sizes
  of its repeated fields.\<close>

definition map_pb :: "((path \<Rightarrow> pval option) \<times> path list \<times> (path \<Rightarrow> nat)) pb" where
  "map_pb = \<lparr>pb_new = (Map.empty, [], \<lambda>_. 0),
     pb_set = (\<lambda>p v (g, h, c). (g(p \<mapsto> v), h, c)),
     pb_mutable = (\<lambda>p (g, h, c). (g, p # h, c)),
     pb_add = (\<lambda>p (g, h, c). (p @ [I (c p)], (g, h, c(p := Suc (c p))))),
     pb_serialize = (\<lambda>_. Some ''bytes''),
     pb_get = (\<lambda>p (g, h, c). g p),
     pb_has = (\<lambda>p (g, h, c). p \<in> set h),
     pb_count = (\<lambda>p (g, h, c). c p)\<rparr>"

lemma map_pb_stores: "pb_stores map_pb"
  by (auto simp: pb_stores_def pb_set_law_def pb_mutable_law_def pb_add_law_def map_pb_def split_beta)

lemma set_all_get:
  assumes "pb_stores api" and "distinct (map fst fs)"
  shows "pb_get api q (set_all api p fs m) =
    (if \<exists>f v. (f, v) \<in> set fs \<and> q = p @ [F f]
     then map_of fs (case last q of F f \<Rightarrow> f | I _ \<Rightarrow> []) else pb_get api q m)"
  using assms(2)
proof (induction fs arbitrary: m)
  case (Cons fv fs)
  obtain f v where fv: "fv = (f, v)" by fastforce
  then have "f \<notin> fst ` set fs" using Cons.prems by simp
  then show ?case using Cons by (force simp: fv pb_storesD(1) [OF assms(1)])
qed simp

lemma set_all_frame:
  assumes "pb_stores api"
  shows "pb_has api q (set_all api p fs m) = pb_has api q m"
    and "pb_count api q (set_all api p fs m) = pb_count api q m"
  by (induction fs arbitrary: m) (auto simp: pb_storesD(2,3) [OF assms])

section \<open>Decoding a message\<close>

text \<open>The reader of a message, over the getters.\<close>

definition at_i64 :: "'m pb \<Rightarrow> 'm \<Rightarrow> path \<Rightarrow> string \<Rightarrow> i64" where
  "at_i64 api m p f = (case pb_get api (p @ [F f]) m of Some (PI64 v) \<Rightarrow> v | _ \<Rightarrow> 0)"

definition at_i32 :: "'m pb \<Rightarrow> 'm \<Rightarrow> path \<Rightarrow> string \<Rightarrow> i32" where
  "at_i32 api m p f = (case pb_get api (p @ [F f]) m of Some (PI32 v) \<Rightarrow> v | _ \<Rightarrow> 0)"

definition at_u64 :: "'m pb \<Rightarrow> 'm \<Rightarrow> path \<Rightarrow> string \<Rightarrow> u64" where
  "at_u64 api m p f = (case pb_get api (p @ [F f]) m of Some (PU64 v) \<Rightarrow> v | _ \<Rightarrow> 0)"

definition at_f64 :: "'m pb \<Rightarrow> 'm \<Rightarrow> path \<Rightarrow> string \<Rightarrow> rat" where
  "at_f64 api m p f = (case pb_get api (p @ [F f]) m of Some (PF64 v) \<Rightarrow> v | _ \<Rightarrow> 0)"

definition at_str :: "'m pb \<Rightarrow> 'm \<Rightarrow> path \<Rightarrow> string \<Rightarrow> string" where
  "at_str api m p f = (case pb_get api (p @ [F f]) m of Some (PStr v) \<Rightarrow> v | _ \<Rightarrow> [])"

definition at_time :: "'m pb \<Rightarrow> 'm \<Rightarrow> u64" where
  "at_time api m = word_of_int (sint (at_i64 api m [F ''timestamp''] ''seconds'') * 1000000 +
     sint (at_i32 api m [F ''timestamp''] ''nanos'') div 1000)"

definition at_elems :: "'m pb \<Rightarrow> 'm \<Rightarrow> path \<Rightarrow> path list" where
  "at_elems api m p = map (\<lambda>i. p @ [I i]) [0..<pb_count api p m]"

definition read_system :: "'m pb \<Rightarrow> 'm \<Rightarrow> SystemStats" where
  "read_system api m =
     (let cpu = [F ''system'', F ''cpu_stats'']; mem = [F ''system'', F ''memory_stats''];
          net = [F ''system'', F ''network_stats'']; temp = [F ''system'', F ''temperature_stats''] in
      \<lparr>ss_timestamp_us = at_time api m,
       temperatureStats = (if pb_has api temp m then Some (map (\<lambda>q.
           \<lparr>tm_sensor = at_str api m q ''sensor'', tm_label = at_str api m q ''label'',
            tm_temperature = at_i32 api m q ''temperature''\<rparr>) (at_elems api m (temp @ [F ''zones_readings'']))) else None),
       networkStats = (if pb_has api net m then Some
           \<lparr>rx_packets = at_u64 api m net ''rx_packets'', tx_packets = at_u64 api m net ''tx_packets'',
            rx_dropped = at_u64 api m net ''rx_dropped'', tx_dropped = at_u64 api m net ''tx_dropped'',
            rx_errors = at_u64 api m net ''rx_errors'', tx_errors = at_u64 api m net ''tx_errors'',
            collisions = at_u64 api m net ''collisions''\<rparr> else None),
       cpuStats = (if pb_has api cpu m then Some
           \<lparr>usage_percent = at_f64 api m cpu ''usage_percent'', context_switches = at_u64 api m cpu ''context_switches'',
            interrupts = at_u64 api m cpu ''interrupts'', softirqs = at_u64 api m cpu ''softirqs''\<rparr> else None),
       memoryStats = (if pb_has api mem m then Some
           \<lparr>mem_available_kb = at_u64 api m mem ''mem_available_kb'', mem_free_kb = at_u64 api m mem ''mem_free_kb'',
            swap_total_kb = at_u64 api m mem ''swap_total_kb'', swap_free_kb = at_u64 api m mem ''swap_free_kb'',
            buffers_kb = at_u64 api m mem ''buffers_kb''\<rparr> else None)\<rparr>)"

definition read_topology :: "'m pb \<Rightarrow> 'm \<Rightarrow> PtpTopologySnapshotData" where
  "read_topology api m = (let p = [F ''ptp_topology''] in
     \<lparr>topo_timestamp_us = at_time api m,
      localClockIdentity = at_str api m p ''local_clock_identity'',
      parentClockIdentity = at_str api m p ''parent_clock_identity'',
      parentPortNumber = at_i32 api m p ''parent_port'',
      grandmasterIdentity = at_str api m p ''grandmaster_identity'',
      stepsRemoved = at_i32 api m p ''steps_removed'',
      meanPathDelayNs = at_i64 api m p ''mean_path_delay_ns'',
      childPortNumber = at_i32 api m p ''child_port'',
      ports = map (\<lambda>q. \<lparr>portNumber = at_i32 api m q ''port'', portIdentity = at_str api m q ''port_identity'',
        port_state = at_str api m q ''state''\<rparr>) (at_elems api m [F ''ptp_topology'', F ''ports''])\<rparr>)"

definition read_metric :: "'m pb \<Rightarrow> 'm \<Rightarrow> metric option" where
  "read_metric api m = (case pb_get api [F ''type''] m of
     Some (PEnum k) \<Rightarrow>
       if k = ''MESSAGE_TYPE_PTP4L'' then let p = [F ''ptp4l''] in Some (MPtp4l
         \<lparr>ptp_unit = [], ptp_timestamp_us = at_time api m, ptp_offset = at_i64 api m p ''offset_ns'',
          ptp_freq = at_i64 api m p ''frequency'', ptp_path_delay = at_i64 api m p ''path_delay'',
          ptp_state = at_i32 api m p ''state''\<rparr>)
       else if k = ''MESSAGE_TYPE_PHC2SYS'' then let p = [F ''phc2sys''] in Some (MPhc2Sys
         \<lparr>phc_unit = [], phc_timestamp_us = at_time api m, phc_offset = at_i64 api m p ''offset_ns'',
          phc_freq = at_i64 api m p ''frequency'', phc_path_delay = at_i64 api m p ''path_delay'',
          phc_state = at_i32 api m p ''state''\<rparr>)
       else if k = ''MESSAGE_TYPE_PPS'' then Some (MPps
         \<lparr>pps_unit = [], pps_timestamp_us = at_time api m, pps_offset = at_i64 api m [F ''pps''] ''offset_ns''\<rparr>)
       else if k = ''MESSAGE_TYPE_SYSTEM'' then Some (MSys (read_system api m))
       else if k = ''MESSAGE_TYPE_PTP4L_PORT_EVENT'' then let p = [F ''ptp4l_port_event''] in Some (MPortEvent
         \<lparr>pe_unit = [], pe_timestamp_us = at_time api m, pe_portNumber = at_i32 api m p ''port'',
          pe_portName = at_str api m p ''interface'', pe_adapterName = at_str api m p ''adapter_name'',
          pe_fromState = at_str api m p ''from_state'', pe_toState = at_str api m p ''to_state'',
          pe_trigger = at_str api m p ''event_trigger''\<rparr>)
       else if k = ''MESSAGE_TYPE_PTP_TOPOLOGY'' then Some (MTopology (read_topology api m))
       else None
   | _ \<Rightarrow> None)"

text \<open>What is not sent: the name of the unit.\<close>

fun without_unit :: "metric \<Rightarrow> metric" where
  "without_unit (MPtp4l s) = MPtp4l (s\<lparr>ptp_unit := []\<rparr>)"
| "without_unit (MPhc2Sys s) = MPhc2Sys (s\<lparr>phc_unit := []\<rparr>)"
| "without_unit (MPps s) = MPps (s\<lparr>pps_unit := []\<rparr>)"
| "without_unit (MSys s) = MSys s"
| "without_unit (MPortEvent e) = MPortEvent (e\<lparr>pe_unit := []\<rparr>)"
| "without_unit (MTopology t) = MTopology t"

text \<open>Setters of a list with different names.\<close>

lemma set_all_here:
  assumes "pb_stores api" and "distinct (map fst fs)" and "(f, v) \<in> set fs"
  shows "pb_get api (p @ [F f]) (set_all api p fs m) = Some v"
  using assms by (auto simp: set_all_get)

lemma set_all_elsewhere:
  assumes "pb_stores api" and "length q \<noteq> Suc (length p) \<or> butlast q \<noteq> p"
  shows "pb_get api q (set_all api p fs m) = pb_get api q m"
proof (induction fs arbitrary: m)
  case (Cons fv fs)
  then show ?case using assms(2) by (cases fv) (auto simp: pb_storesD(1) [OF assms(1)])
qed simp

lemma add_each_frame:
  assumes "pb_stores api"
  shows "\<not> strict_prefix p q \<Longrightarrow> pb_get api q (add_each api p fss m) = pb_get api q m"
    and "pb_has api q (add_each api p fss m) = pb_has api q m"
    and "pb_count api p (add_each api p fss m) = pb_count api p m + length fss"
proof (induction fss arbitrary: m)
  case (Cons fs fss)
  note D = pb_storesD [OF assms]
  {
    case 1
    let ?m = "set_all api (fst (pb_add api p m)) fs (snd (pb_add api p m))"
    have e: "length q \<noteq> Suc (length (fst (pb_add api p m))) \<or> butlast q \<noteq> fst (pb_add api p m)"
    proof (rule ccontr)
      assume "\<not> ?thesis"
      then have "butlast q = p @ [I (pb_count api p m)]" and "q \<noteq> []" by (auto simp: D(7))
      then have "q = p @ [I (pb_count api p m), last q]" by (metis append.assoc append_Cons append_Nil append_butlast_last_id)
      then have "strict_prefix p q" by (metis strict_prefixI' list.distinct(1) strict_prefix_def prefixI append_Nil2 same_append_eq)
      with 1 show False by simp
    qed
    have "pb_get api q (add_each api p (fs # fss) m) = pb_get api q (add_each api p fss ?m)"
      by (simp add: split_beta Let_def)
    also have "\<dots> = pb_get api q ?m" by (rule Cons.IH(1) [OF 1])
    also have "\<dots> = pb_get api q (snd (pb_add api p m))" by (rule set_all_elsewhere [OF assms e])
    also have "\<dots> = pb_get api q m" by (rule D(9))
    finally show ?case .
  next
    case 2
    let ?m = "set_all api (fst (pb_add api p m)) fs (snd (pb_add api p m))"
    show ?case using Cons.IH(2) [of ?m]
      by (simp add: split_beta Let_def set_all_frame [OF assms] D(10))
  next
    case 3
    let ?m = "set_all api (fst (pb_add api p m)) fs (snd (pb_add api p m))"
    show ?case using Cons.IH(3) [of ?m]
      by (simp add: split_beta Let_def set_all_frame [OF assms] D(8))
  }
qed simp_all

lemma add_each_elem:
  assumes "pb_stores api" and "\<forall>fs \<in> set fss. distinct (map fst fs)" and "i < length fss"
    and "(f, v) \<in> set (fss ! i)"
  shows "pb_get api (p @ [I (pb_count api p m + i), F f]) (add_each api p fss m) = Some v"
  using assms(2-4)
proof (induction fss arbitrary: m i)
  case (Cons fs fss)
  note D = pb_storesD [OF assms(1)]
  let ?m = "set_all api (fst (pb_add api p m)) fs (snd (pb_add api p m))"
  have c: "pb_count api p ?m = Suc (pb_count api p m)"
    by (simp add: set_all_frame [OF assms(1)] D(8))
  show ?case
  proof (cases i)
    case (Suc j)
    then show ?thesis using Cons.IH [of j ?m] Cons.prems c by (simp add: split_beta Let_def)
  next
    case 0
    have keep: "pb_get api (p @ [I n, F f]) (add_each api p gss m') = pb_get api (p @ [I n, F f]) m'"
      if "n < pb_count api p m'" for n gss m'
      using that
    proof (induction gss arbitrary: m')
      case (Cons gs gss)
      let ?m' = "set_all api (fst (pb_add api p m')) gs (snd (pb_add api p m'))"
      have "pb_count api p ?m' = Suc (pb_count api p m')" by (simp add: set_all_frame [OF assms(1)] D(8))
      then have "pb_get api (p @ [I n, F f]) (add_each api p gss ?m') = pb_get api (p @ [I n, F f]) ?m'"
        using Cons by simp
      also have "\<dots> = pb_get api (p @ [I n, F f]) m'"
        using Cons.prems by (simp add: set_all_elsewhere [OF assms(1)] D(7,9) butlast_append)
      finally show ?case by (simp add: split_beta Let_def)
    qed simp
    have "pb_get api ((p @ [I (pb_count api p m)]) @ [F f]) ?m = Some v"
      using Cons.prems 0 by (simp only: D(7), intro set_all_here [OF assms(1)]) simp_all
    then show ?thesis using keep [of "pb_count api p m" ?m fss] c 0 by (simp add: split_beta Let_def)
  qed
qed simp

text \<open>The header, and what it leaves alone.\<close>

lemma header_read:
  assumes "pb_stores api"
  shows "pb_get api [F ''type''] (set_header api kind node us m) = Some (PEnum kind)"
    and "pb_get api [F ''node_name''] (set_header api kind node us m) = Some (PStr node)"
    and "pb_get api [F ''timestamp'', F ''seconds''] (set_header api kind node us m) = Some (PI64 (fst (from_us us)))"
    and "pb_get api [F ''timestamp'', F ''nanos''] (set_header api kind node us m) = Some (PI32 (snd (from_us us)))"
  by (simp_all add: set_header_def Let_def split_beta pb_storesD [OF assms] header_fields_def)

lemma at_time_header:
  assumes "pb_get api [F ''timestamp'', F ''seconds''] m = Some (PI64 (fst (from_us us)))"
    and "pb_get api [F ''timestamp'', F ''nanos''] m = Some (PI32 (snd (from_us us)))"
  shows "at_time api m = us"
  using from_us_spec [of us] assms
  by (simp add: at_time_def at_i64_def at_i32_def split_beta)

lemma read_ptp4l:
  assumes "pb_stores api"
  shows "read_metric api (to_ptp4l_metrics api s node) = Some (without_unit (MPtp4l s))"
proof -
  define m where "m = to_ptp4l_metrics api s node"
  note D = pb_storesD [OF assms] header_fields_def
  have "at_time api m = ptp_timestamp_us s"
    by (rule at_time_header) (simp_all add: m_def to_ptp4l_metrics_def Let_def D header_read [OF assms])
  moreover have "pb_get api [F ''type''] m = Some (PEnum ''MESSAGE_TYPE_PTP4L'')"
    by (simp add: m_def to_ptp4l_metrics_def Let_def D header_read [OF assms])
  moreover have "at_i64 api m [F ''ptp4l''] ''path_delay'' = ptp_path_delay s"
    "at_i64 api m [F ''ptp4l''] ''frequency'' = ptp_freq s" "at_i64 api m [F ''ptp4l''] ''offset_ns'' = ptp_offset s"
    "at_i32 api m [F ''ptp4l''] ''state'' = ptp_state s"
    by (simp_all add: at_i64_def at_i32_def m_def to_ptp4l_metrics_def Let_def D)
  ultimately show ?thesis by (simp add: read_metric_def Let_def flip: m_def)
qed

lemma read_phc2sys:
  assumes "pb_stores api"
  shows "read_metric api (to_phc2sys_metrics api s node) = Some (without_unit (MPhc2Sys s))"
proof -
  define m where "m = to_phc2sys_metrics api s node"
  note D = pb_storesD [OF assms] header_fields_def
  have "at_time api m = phc_timestamp_us s"
    by (rule at_time_header) (simp_all add: m_def to_phc2sys_metrics_def Let_def D header_read [OF assms])
  moreover have "pb_get api [F ''type''] m = Some (PEnum ''MESSAGE_TYPE_PHC2SYS'')"
    by (simp add: m_def to_phc2sys_metrics_def Let_def D header_read [OF assms])
  moreover have "at_i64 api m [F ''phc2sys''] ''path_delay'' = phc_path_delay s"
    "at_i64 api m [F ''phc2sys''] ''frequency'' = phc_freq s" "at_i64 api m [F ''phc2sys''] ''offset_ns'' = phc_offset s"
    "at_i32 api m [F ''phc2sys''] ''state'' = phc_state s"
    by (simp_all add: at_i64_def at_i32_def m_def to_phc2sys_metrics_def Let_def D)
  ultimately show ?thesis by (simp add: read_metric_def Let_def flip: m_def)
qed

lemma read_pps:
  assumes "pb_stores api"
  shows "read_metric api (to_pps_metrics api s node) = Some (without_unit (MPps s))"
proof -
  define m where "m = to_pps_metrics api s node"
  note D = pb_storesD [OF assms] header_fields_def
  have "at_time api m = pps_timestamp_us s"
    by (rule at_time_header) (simp_all add: m_def to_pps_metrics_def Let_def D header_read [OF assms])
  moreover have "pb_get api [F ''type''] m = Some (PEnum ''MESSAGE_TYPE_PPS'')"
    by (simp add: m_def to_pps_metrics_def Let_def D header_read [OF assms])
  moreover have "at_i64 api m [F ''pps''] ''offset_ns'' = pps_offset s"
    by (simp add: at_i64_def m_def to_pps_metrics_def Let_def D)
  ultimately show ?thesis by (simp add: read_metric_def Let_def flip: m_def)
qed

lemma read_port_event:
  assumes "pb_stores api"
  shows "read_metric api (to_port_event api e node) = Some (without_unit (MPortEvent e))"
proof -
  define m where "m = to_port_event api e node"
  note D = pb_storesD [OF assms] header_fields_def
  have "at_time api m = pe_timestamp_us e"
    by (rule at_time_header) (simp_all add: m_def to_port_event_def Let_def D header_read [OF assms])
  moreover have "pb_get api [F ''type''] m = Some (PEnum ''MESSAGE_TYPE_PTP4L_PORT_EVENT'')"
    by (simp add: m_def to_port_event_def Let_def D header_read [OF assms])
  moreover have "at_i32 api m [F ''ptp4l_port_event''] ''port'' = pe_portNumber e"
    "at_str api m [F ''ptp4l_port_event''] ''interface'' = pe_portName e"
    "at_str api m [F ''ptp4l_port_event''] ''from_state'' = pe_fromState e"
    "at_str api m [F ''ptp4l_port_event''] ''to_state'' = pe_toState e"
    "at_str api m [F ''ptp4l_port_event''] ''adapter_name'' = pe_adapterName e"
    "at_str api m [F ''ptp4l_port_event''] ''event_trigger'' = pe_trigger e"
    by (simp_all add: at_i32_def at_str_def m_def to_port_event_def Let_def D)
  ultimately show ?thesis by (simp add: read_metric_def Let_def flip: m_def)
qed

text \<open>Repeated submessages, for a message in which the field was still empty.\<close>

lemma elems_read:
  assumes "pb_stores api" and "pb_count api p m = 0"
    and "\<And>x. x \<in> set xs \<Longrightarrow> distinct (map fst (enc x))"
    and "\<And>q x. (\<And>f v. (f, v) \<in> set (enc x) \<Longrightarrow>
        pb_get api (q @ [F f]) (add_each api p (map enc xs) m) = Some v) \<Longrightarrow> dec q = x"
  shows "map dec (at_elems api (add_each api p (map enc xs) m) p) = xs"
proof (rule nth_equalityI)
  show "length (map dec (at_elems api (add_each api p (map enc xs) m) p)) = length xs"
    by (simp add: at_elems_def add_each_frame(3) [OF assms(1)] assms(2))
  fix i
  assume "i < length (map dec (at_elems api (add_each api p (map enc xs) m) p))"
  then have i: "i < length xs" by (simp add: at_elems_def add_each_frame(3) [OF assms(1)] assms(2))
  have "dec (p @ [I i]) = xs ! i"
  proof (rule assms(4))
    fix f v
    assume "(f, v) \<in> set (enc (xs ! i))"
    then show "pb_get api ((p @ [I i]) @ [F f]) (add_each api p (map enc xs) m) = Some v"
      using add_each_elem [OF assms(1), of "map enc xs" i f v p m] assms(2,3) i by simp
  qed
  then show "map dec (at_elems api (add_each api p (map enc xs) m) p) ! i = xs ! i"
    using i by (simp add: at_elems_def add_each_frame(3) [OF assms(1)] assms(2))
qed

lemma read_topology_message:
  assumes "pb_stores api"
  shows "read_metric api (to_ptp_topology_snapshot api t node) = Some (without_unit (MTopology t))"
proof -
  define enc where "enc = (\<lambda>p :: PtpPortSnapshot. [(''port'', PI32 (portNumber p)), (''port_identity'', PStr (portIdentity p)),
           (''state'', PStr (port_state p))])"
  define pp where "pp = [F ''ptp_topology'', F ''ports'']"
  define m0 where "m0 = set_all api [F ''ptp_topology'']
            [(''local_clock_identity'', PStr (localClockIdentity t)),
             (''parent_clock_identity'', PStr (parentClockIdentity t)),
             (''parent_port'', PI32 (parentPortNumber t)),
             (''grandmaster_identity'', PStr (grandmasterIdentity t)),
             (''steps_removed'', PI32 (stepsRemoved t)),
             (''mean_path_delay_ns'', PI64 (meanPathDelayNs t)),
             (''child_port'', PI32 (childPortNumber t))]
      (pb_mutable api [F ''ptp_topology''] (set_header api ''MESSAGE_TYPE_PTP_TOPOLOGY'' node (topo_timestamp_us t) (pb_new api)))"
  define m where "m = to_ptp_topology_snapshot api t node"
  have m: "m = add_each api pp (map enc (ports t)) m0"
    by (simp add: m_def to_ptp_topology_snapshot_def Let_def m0_def enc_def pp_def)
  note D = pb_storesD [OF assms] header_fields_def
  have frame: "\<not> strict_prefix pp q \<Longrightarrow> pb_get api q m = pb_get api q m0" for q
    unfolding m by (rule add_each_frame(1) [OF assms])
  have "at_time api m = topo_timestamp_us t"
    by (rule at_time_header) (simp_all add: frame pp_def strict_prefix_def m0_def D header_read [OF assms])
  moreover have "pb_get api [F ''type''] m = Some (PEnum ''MESSAGE_TYPE_PTP_TOPOLOGY'')"
    by (simp add: frame pp_def strict_prefix_def m0_def D header_read [OF assms])
  moreover have "at_str api m [F ''ptp_topology''] ''local_clock_identity'' = localClockIdentity t"
    "at_str api m [F ''ptp_topology''] ''parent_clock_identity'' = parentClockIdentity t"
    "at_i32 api m [F ''ptp_topology''] ''parent_port'' = parentPortNumber t"
    "at_str api m [F ''ptp_topology''] ''grandmaster_identity'' = grandmasterIdentity t"
    "at_i32 api m [F ''ptp_topology''] ''steps_removed'' = stepsRemoved t"
    "at_i64 api m [F ''ptp_topology''] ''mean_path_delay_ns'' = meanPathDelayNs t"
    "at_i32 api m [F ''ptp_topology''] ''child_port'' = childPortNumber t"
    by (simp_all add: at_i64_def at_i32_def at_str_def frame pp_def strict_prefix_def m0_def D)
  moreover have "map (\<lambda>q. \<lparr>portNumber = at_i32 api m q ''port'', portIdentity = at_str api m q ''port_identity'',
        port_state = at_str api m q ''state''\<rparr>) (at_elems api m pp) = ports t"
    unfolding m
  proof (rule elems_read [OF assms])
    show "pb_count api pp m0 = 0"
      by (simp add: m0_def set_all_frame [OF assms] set_header_def Let_def split_beta pp_def D)
  qed (simp_all add: enc_def at_i32_def at_str_def)
  ultimately show ?thesis
    by (simp add: read_metric_def read_topology_def Let_def flip: m_def pp_def)
qed

text \<open>The groups of a system snapshot: a submessage with its fields, when the group is there.\<close>

definition set_group :: "'m pb \<Rightarrow> path \<Rightarrow> ('v \<Rightarrow> (string \<times> pval) list) \<Rightarrow> 'v option \<Rightarrow> 'm \<Rightarrow> 'm" where
  "set_group api p enc x = if_some x (\<lambda>v m. set_all api p (enc v) (pb_mutable api p m))"

definition cpu_fields :: "CpuStats \<Rightarrow> (string \<times> pval) list" where
  "cpu_fields s =
     [(''usage_percent'', PF64 (usage_percent s)), (''context_switches'', PU64 (context_switches s)),
      (''interrupts'', PU64 (interrupts s)), (''softirqs'', PU64 (softirqs s))]"

definition memory_fields :: "MemoryStats \<Rightarrow> (string \<times> pval) list" where
  "memory_fields s =
     [(''mem_available_kb'', PU64 (mem_available_kb s)), (''mem_free_kb'', PU64 (mem_free_kb s)),
      (''swap_total_kb'', PU64 (swap_total_kb s)), (''swap_free_kb'', PU64 (swap_free_kb s)),
      (''buffers_kb'', PU64 (buffers_kb s))]"

definition network_fields :: "NetworkStats \<Rightarrow> (string \<times> pval) list" where
  "network_fields s =
     [(''rx_packets'', PU64 (rx_packets s)), (''tx_packets'', PU64 (tx_packets s)),
      (''rx_dropped'', PU64 (rx_dropped s)), (''tx_dropped'', PU64 (tx_dropped s)),
      (''rx_errors'', PU64 (rx_errors s)), (''tx_errors'', PU64 (tx_errors s)),
      (''collisions'', PU64 (collisions s))]"

lemma set_groups:
  "if_some x (set_cpu api) = set_group api [F ''system'', F ''cpu_stats''] cpu_fields x"
  "if_some y (set_memory api) = set_group api [F ''system'', F ''memory_stats''] memory_fields y"
  "if_some z (set_network api) = set_group api [F ''system'', F ''network_stats''] network_fields z"
  by (auto simp: fun_eq_iff set_group_def if_some_def set_cpu_def set_memory_def set_network_def
      cpu_fields_def memory_fields_def network_fields_def Let_def split: option.splits)

lemma group_frame:
  assumes "pb_stores api" and "hd q = hd p \<or> {hd p, hd q} \<inter> set header_fields \<noteq> {}"
  shows "butlast q \<noteq> p \<Longrightarrow> pb_get api q (set_group api p enc x m) = pb_get api q m"
    and "pb_has api q (set_group api p enc x m) \<longleftrightarrow> q = p \<and> x \<noteq> None \<or> pb_has api q m"
    and "pb_count api q (set_group api p enc x m) = pb_count api q m"
  using pb_storesD(4,5,6) [OF assms] set_all_elsewhere [OF assms(1)] set_all_frame [OF assms(1)]
  by (auto simp: set_group_def if_some_def split: option.splits)

lemma group_here:
  assumes "pb_stores api" and "distinct (map fst (enc v))" and "(f, w) \<in> set (enc v)"
  shows "pb_get api (p @ [F f]) (set_group api p enc (Some v) m) = Some w"
  by (simp add: set_group_def if_some_def set_all_here [OF assms])

definition zone_fields :: "TemperatureMetric \<Rightarrow> (string \<times> pval) list" where
  "zone_fields z = [(''sensor'', PStr (tm_sensor z)), (''label'', PStr (tm_label z)),
     (''temperature'', PI32 (tm_temperature z))]"

abbreviation temp_path :: path where "temp_path \<equiv> [F ''system'', F ''temperature_stats'']"
abbreviation zones_path :: path where
  "zones_path \<equiv> [F ''system'', F ''temperature_stats'', F ''zones_readings'']"

lemma set_temperature_fields:
  "set_temperature api zs m = add_each api zones_path (map zone_fields zs) (pb_mutable api temp_path m)"
  by (simp add: set_temperature_def Let_def zone_fields_def [abs_def])

lemma temperature_frame:
  assumes "pb_stores api" and "{hd q} \<inter> set (F ''system'' # header_fields) \<noteq> {}"
  shows "\<not> strict_prefix zones_path q \<Longrightarrow> pb_get api q (if_some x (set_temperature api) m) = pb_get api q m"
    and "pb_has api q (if_some x (set_temperature api) m) \<longleftrightarrow> q = temp_path \<and> x \<noteq> None \<or> pb_has api q m"
  using pb_storesD(4,5) [OF assms(1), of q temp_path] assms(2) add_each_frame(1,2) [OF assms(1)]
  by (auto simp: if_some_def set_temperature_fields header_fields_def split: option.splits)

lemma read_zones_message:
  assumes "pb_stores api" and "pb_count api zones_path m = 0"
  shows "map (\<lambda>q. \<lparr>tm_sensor = at_str api (set_temperature api zs m) q ''sensor'',
           tm_label = at_str api (set_temperature api zs m) q ''label'',
           tm_temperature = at_i32 api (set_temperature api zs m) q ''temperature''\<rparr>)
         (at_elems api (set_temperature api zs m) zones_path) = zs"
  unfolding set_temperature_fields
proof (rule elems_read [OF assms(1)])
  show "pb_count api zones_path (pb_mutable api temp_path m) = 0"
    by (simp add: pb_storesD(6) [OF assms(1)] assms(2))
qed (simp_all add: zone_fields_def at_i32_def at_str_def)

lemma read_system_message:
  assumes "pb_stores api"
  shows "read_metric api (to_system_metrics api s node) = Some (without_unit (MSys s))"
proof -
  define m0 where "m0 = pb_mutable api [F ''system'']
      (set_header api ''MESSAGE_TYPE_SYSTEM'' node (ss_timestamp_us s) (pb_new api))"
  define m3 where "m3 = set_group api [F ''system'', F ''network_stats''] network_fields (networkStats s)
      (set_group api [F ''system'', F ''memory_stats''] memory_fields (memoryStats s)
      (set_group api [F ''system'', F ''cpu_stats''] cpu_fields (cpuStats s) m0))"
  define m where "m = if_some (temperatureStats s) (set_temperature api) m3"
  have m: "to_system_metrics api s node = m"
    by (simp add: to_system_metrics_def Let_def set_groups m_def m3_def m0_def)
  note D = pb_storesD [OF assms] header_fields_def
  note frames = group_frame [OF assms] temperature_frame [OF assms] header_fields_def
  have "at_time api m = ss_timestamp_us s"
    by (rule at_time_header)
      (simp_all add: m_def m3_def frames strict_prefix_def m0_def D header_read [OF assms])
  moreover have "pb_get api [F ''type''] m = Some (PEnum ''MESSAGE_TYPE_SYSTEM'')"
    by (simp add: m_def m3_def frames strict_prefix_def m0_def D header_read [OF assms])
  moreover have has: "pb_has api (F ''system'' # q # qs) m0 = False" "pb_count api (F ''system'' # q # qs) m0 = 0" for q qs
    by (simp_all add: m0_def set_header_def Let_def split_beta set_all_frame [OF assms] D)
  have "pb_has api temp_path m \<longleftrightarrow> temperatureStats s \<noteq> None"
    "pb_has api [F ''system'', F ''network_stats''] m \<longleftrightarrow> networkStats s \<noteq> None"
    "pb_has api [F ''system'', F ''cpu_stats''] m \<longleftrightarrow> cpuStats s \<noteq> None"
    "pb_has api [F ''system'', F ''memory_stats''] m \<longleftrightarrow> memoryStats s \<noteq> None"
    by (simp_all add: m_def m3_def frames has)
  moreover have "at_f64 api m [F ''system'', F ''cpu_stats''] ''usage_percent'' = usage_percent v"
    "at_u64 api m [F ''system'', F ''cpu_stats''] ''context_switches'' = context_switches v"
    "at_u64 api m [F ''system'', F ''cpu_stats''] ''interrupts'' = interrupts v"
    "at_u64 api m [F ''system'', F ''cpu_stats''] ''softirqs'' = softirqs v"
    if "cpuStats s = Some v" for v
    using group_here [OF assms, of cpu_fields v _ _ "[F ''system'', F ''cpu_stats'']" m0]
    by (simp_all add: that at_f64_def at_u64_def m_def m3_def frames strict_prefix_def cpu_fields_def)
  moreover have "at_u64 api m [F ''system'', F ''memory_stats''] ''mem_available_kb'' = mem_available_kb v"
    "at_u64 api m [F ''system'', F ''memory_stats''] ''mem_free_kb'' = mem_free_kb v"
    "at_u64 api m [F ''system'', F ''memory_stats''] ''swap_total_kb'' = swap_total_kb v"
    "at_u64 api m [F ''system'', F ''memory_stats''] ''swap_free_kb'' = swap_free_kb v"
    "at_u64 api m [F ''system'', F ''memory_stats''] ''buffers_kb'' = buffers_kb v"
    if "memoryStats s = Some v" for v
    using group_here [OF assms, of memory_fields v _ _ "[F ''system'', F ''memory_stats'']"]
    by (simp_all add: that at_u64_def m_def m3_def frames strict_prefix_def memory_fields_def)
  moreover have "at_u64 api m [F ''system'', F ''network_stats''] ''rx_packets'' = rx_packets v"
    "at_u64 api m [F ''system'', F ''network_stats''] ''tx_packets'' = tx_packets v"
    "at_u64 api m [F ''system'', F ''network_stats''] ''rx_dropped'' = rx_dropped v"
    "at_u64 api m [F ''system'', F ''network_stats''] ''tx_dropped'' = tx_dropped v"
    "at_u64 api m [F ''system'', F ''network_stats''] ''rx_errors'' = rx_errors v"
    "at_u64 api m [F ''system'', F ''network_stats''] ''tx_errors'' = tx_errors v"
    "at_u64 api m [F ''system'', F ''network_stats''] ''collisions'' = collisions v"
    if "networkStats s = Some v" for v
    using group_here [OF assms, of network_fields v _ _ "[F ''system'', F ''network_stats'']"]
    by (simp_all add: that at_u64_def m_def m3_def frames strict_prefix_def network_fields_def)
  moreover have "map (\<lambda>q. \<lparr>tm_sensor = at_str api m q ''sensor'', tm_label = at_str api m q ''label'',
      tm_temperature = at_i32 api m q ''temperature''\<rparr>) (at_elems api m zones_path) = zs"
    if "temperatureStats s = Some zs" for zs
  proof -
    have "pb_count api zones_path m3 = 0" by (simp add: m3_def frames has)
    from read_zones_message [OF assms this] show ?thesis by (simp add: m_def if_some_def that)
  qed
  ultimately have "read_system api m = s"
    by (cases "cpuStats s"; cases "memoryStats s"; cases "networkStats s"; cases "temperatureStats s")
      (simp_all add: read_system_def Let_def)
  with \<open>pb_get api [F ''type''] m = _\<close> show ?thesis by (simp add: m read_metric_def)
qed

section \<open>Round trip of a message\<close>

lemma node_sent:
  assumes "pb_stores api"
  shows "pb_get api [F ''node_name''] (to_wrapper api mt node) = Some (PStr node)"
proof -
  note simps = to_wrapper_def Let_def header_read [OF assms] pb_storesD [OF assms] header_fields_def
  show ?thesis
    by (cases mt)
      (simp_all add: simps to_ptp4l_metrics_def to_phc2sys_metrics_def to_pps_metrics_def to_port_event_def
        to_system_metrics_def set_groups group_frame [OF assms] temperature_frame [OF assms]
        to_ptp_topology_snapshot_def add_each_frame(1) [OF assms] strict_prefix_def)
qed

lemma message_decoded:
  assumes "pb_stores api"
  shows "read_metric api (to_wrapper api mt node) = Some (without_unit mt) \<and>
    pb_get api [F ''node_name''] (to_wrapper api mt node) = Some (PStr node)"
proof
  show "read_metric api (to_wrapper api mt node) = Some (without_unit mt)"
    by (cases mt) (simp_all add: to_wrapper_def read_ptp4l [OF assms] read_phc2sys [OF assms]
      read_pps [OF assms] read_system_message [OF assms] read_port_event [OF assms]
      read_topology_message [OF assms] del: without_unit.simps)
qed (rule node_sent [OF assms])

text \<open>C8. Round trip: for protobuf classes that store what is set, every message the adapter makes,
  of any of the six kinds and for any node name, decodes to the metric it was made from and to
  the node name; only the unit name of the sample is not sent. An absent group of a system
  snapshot is absent in the message, and the lists of zones and ports keep length and order.\<close>

theorem metric_roundtrip:
  assumes "pb_stores api"
  shows "read_metric api (to_wrapper api mt node) = Some (without_unit mt) \<and>
    pb_get api [F ''node_name''] (to_wrapper api mt node) = Some (PStr node)"
  using assms by (rule message_decoded)

theorem metric_roundtrip_witness:
  "read_metric map_pb (to_wrapper map_pb (MSys \<lparr>ss_timestamp_us = 1700000000123456,
       temperatureStats = Some [\<lparr>tm_sensor = ''coretemp'', tm_label = ''Core 0'', tm_temperature = 42000\<rparr>],
       networkStats = None, cpuStats = None, memoryStats = None\<rparr>) ''node-1'') =
     Some (MSys \<lparr>ss_timestamp_us = 1700000000123456,
       temperatureStats = Some [\<lparr>tm_sensor = ''coretemp'', tm_label = ''Core 0'', tm_temperature = 42000\<rparr>],
       networkStats = None, cpuStats = None, memoryStats = None\<rparr>)"
  using metric_roundtrip [OF map_pb_stores] by simp

end
