(* ===== verification/Zmq_Theorems.thy ===== *)
theory Zmq_Theorems
  imports Adapter_Zmq
begin

text \<open>
  What \<open>ZMQAdapter\<close> promises: a send that returns returns true exactly when the socket queued the
  message, it blocks only where the socket does, no ZMQ error leaves a send, construction stops at the first call that fails and destruction closes
  the socket before the context whatever the calls do.
\<close>

section \<open>Sending\<close>

text \<open>The socket as documented: a send that returns reports the size of a message it queued and nothing
  when it did not queue it; every call queues at most that one message and fails with a ZMQ error
  only. \<open>queued\<close>: all messages the socket took so far, whether they were transmitted or not.\<close>

definition zmq_push :: "'z zmq \<Rightarrow> ('z \<Rightarrow> string list) \<Rightarrow> bool" where
  "zmq_push zmq queued \<longleftrightarrow>
     (\<forall>n z. queued (snd (z_message zmq n z)) = queued z \<and>
        (\<forall>e. fst (z_message zmq n z) = Inl e \<longrightarrow> (\<exists>t. e = ZmqError t))) \<and>
     (\<forall>bytes z r z'. z_send zmq bytes z = Some (r, z') \<longrightarrow>
        queued z' = (case r of Inr (Some _) \<Rightarrow> queued z @ [bytes] | _ \<Rightarrow> queued z) \<and>
        (\<forall>e. r = Inl e \<longrightarrow> (\<exists>t. e = ZmqError t)))"

text \<open>Several sends in a row, up to one that blocks, with their results.\<close>

fun send_each :: "'m pb \<Rightarrow> 'z zmq \<Rightarrow> ZMQAdapter \<Rightarrow> (metric \<times> string) list \<Rightarrow> 'z \<Rightarrow> (exn + bool) list \<times> 'z" where
  "send_each api zmq a [] z = ([], z)"
| "send_each api zmq a ((mt, node) # ms) z =
     (case ZMQAdapter_send api zmq a mt node z of
        None \<Rightarrow> ([], z)
      | Some (r, z1) \<Rightarrow> (let (rs, z2) = send_each api zmq a ms z1 in (r # rs, z2)))"

definition accepted :: "'m pb \<Rightarrow> (metric \<times> string) list \<Rightarrow> (exn + bool) list \<Rightarrow> string list" where
  "accepted api ms rs = List.map_filter (\<lambda>((mt, node), r).
     if r = Inr True then pb_serialize api (to_wrapper api mt node) else None) (zip ms rs)"

fun opt_list :: "'a option \<Rightarrow> 'a list" where
  "opt_list None = []"
| "opt_list (Some x) = [x]"

lemma accepted_simps [simp]:
  "accepted api [] rs = []"
  "accepted api ms [] = []"
  "accepted api ((mt, node) # ms) (r # rs) =
     (if r = Inr True then opt_list (pb_serialize api (to_wrapper api mt node)) else []) @ accepted api ms rs"
  by (cases "pb_serialize api (to_wrapper api mt node)"; auto simp: accepted_def List.map_filter_def)+

lemma send_one:
  assumes "zmq_push zmq queued"
    and "ZMQAdapter_send api zmq a mt node z = Some (r, z')"
  shows "(r = Inr True \<or> r = Inr False) \<and>
     queued z' = queued z @ (if r = Inr True then opt_list (pb_serialize api (to_wrapper api mt node)) else []) \<and>
     (r = Inr True \<longrightarrow> has_sender a \<and> pb_serialize api (to_wrapper api mt node) \<noteq> None)"
proof (cases "has_sender a")
  case True
  show ?thesis
  proof (cases "pb_serialize api (to_wrapper api mt node)")
    case (Some bytes)
    obtain r1 z1 where m: "z_message zmq (length bytes) z = (r1, z1)" by fastforce
    have q1: "queued z1 = queued z" and e1: "\<And>e. r1 = Inl e \<Longrightarrow> \<exists>t. e = ZmqError t"
      using assms m unfolding zmq_push_def by (metis fst_conv snd_conv)+
    have q2: "queued z2 = (case r2 of Inr (Some _) \<Rightarrow> queued z1 @ [bytes] | _ \<Rightarrow> queued z1)"
      and e2: "\<And>e. r2 = Inl e \<Longrightarrow> \<exists>t. e = ZmqError t" if "z_send zmq bytes z1 = Some (r2, z2)" for r2 z2
      using assms(1) that unfolding zmq_push_def by blast+
    show ?thesis using assms(2) True Some m q1 q2 e1 e2
      by (auto simp: ZMQAdapter_send_def send_impl_def split: sum.splits option.splits exn.splits prod.splits)
  qed (use assms(2) True in \<open>auto simp: ZMQAdapter_send_def send_impl_def\<close>)
qed (use assms(2) in \<open>auto simp: ZMQAdapter_send_def send_impl_def\<close>)

text \<open>It blocks only where the socket does.\<close>

lemma send_blocks:
  assumes "ZMQAdapter_send api zmq a mt node z = None"
  shows "has_sender a \<and> (\<exists>bytes. pb_serialize api (to_wrapper api mt node) = Some bytes \<and>
    z_send zmq bytes (snd (z_message zmq (length bytes) z)) = None)"
proof (cases "has_sender a \<and> pb_serialize api (to_wrapper api mt node) \<noteq> None")
  case True
  then obtain bytes where b: "pb_serialize api (to_wrapper api mt node) = Some bytes" by blast
  obtain r1 z1 where m: "z_message zmq (length bytes) z = (r1, z1)" by fastforce
  have "z_send zmq bytes z1 = None"
  proof (rule ccontr)
    assume "z_send zmq bytes z1 \<noteq> None"
    then obtain r2 z2 where "z_send zmq bytes z1 = Some (r2, z2)" by fastforce
    then have "ZMQAdapter_send api zmq a mt node z \<noteq> None" using True b m
      by (cases r1; cases r2) (simp_all add: ZMQAdapter_send_def send_impl_def split: exn.split option.split)
    then show False using assms by blast
  qed
  then show ?thesis using True b m by simp
qed (use assms in \<open>auto simp: ZMQAdapter_send_def send_impl_def split: if_splits\<close>)

lemma send_returns: "(\<And>bytes z. z_send zmq bytes z \<noteq> None) \<Longrightarrow> ZMQAdapter_send api zmq a mt node z \<noteq> None"
  using send_blocks [of api zmq a mt node z] by blast

text \<open>The socket blocks on a message, with these messages taken before.\<close>

definition blocks_on :: "'m pb \<Rightarrow> 'z zmq \<Rightarrow> ('z \<Rightarrow> string list) \<Rightarrow> metric \<times> string \<Rightarrow> string list \<Rightarrow> bool" where
  "blocks_on api zmq queued m q \<longleftrightarrow> (\<exists>bytes z. pb_serialize api (to_wrapper api (fst m) (snd m)) = Some bytes \<and>
     queued z = q \<and> z_send zmq bytes z = None)"

text \<open>C18. \<open>send_*\<close> keeps the promise of \<open>IAdapter\<close>, over any sequence of sends: each that returns returns
  true or false and lets no exception out, and the messages queued meanwhile are exactly the
  serialised metrics whose send returned true, in the order of the calls. The sequence ends early
  only in a send that never returns, because the socket itself blocks on its message. An adapter
  without a socket returns false every time and does nothing.\<close>

theorem true_iff_accepted:
  assumes "zmq_push zmq queued"
  shows "case send_each api zmq a ms z of (rs, z') \<Rightarrow>
     length rs \<le> length ms \<and> set rs \<subseteq> {Inr True, Inr False} \<and>
     queued z' = queued z @ accepted api ms rs \<and>
     (length rs < length ms \<longrightarrow> has_sender a \<and> blocks_on api zmq queued (ms ! length rs) (queued z')) \<and>
     (\<not> has_sender a \<longrightarrow> z' = z \<and> set rs \<subseteq> {Inr False})"
proof (induction ms arbitrary: z)
  case (Cons m ms)
  obtain mt node where m: "m = (mt, node)" by fastforce
  show ?case
  proof (cases "ZMQAdapter_send api zmq a mt node z")
    case None
    then have sender: "has_sender a" and "\<exists>bytes. pb_serialize api (to_wrapper api mt node) = Some bytes \<and>
        z_send zmq bytes (snd (z_message zmq (length bytes) z)) = None" using send_blocks [OF None] by simp_all
    then obtain bytes where "pb_serialize api (to_wrapper api mt node) = Some bytes"
        "z_send zmq bytes (snd (z_message zmq (length bytes) z)) = None" by blast
    moreover have "queued (snd (z_message zmq (length bytes) z)) = queued z" using assms by (simp add: zmq_push_def)
    ultimately have "blocks_on api zmq queued m (queued z)" unfolding blocks_on_def m by auto
    then show ?thesis using sender None by (simp add: m)
  next
    case (Some p)
    obtain r z1 where s: "ZMQAdapter_send api zmq a mt node z = Some (r, z1)" using Some by (cases p) simp
    obtain rs z2 where ss: "send_each api zmq a ms z1 = (rs, z2)" by fastforce
    have none: "\<not> has_sender a \<Longrightarrow> r = Inr False \<and> z1 = z"
      using s by (auto simp: ZMQAdapter_send_def send_impl_def)
    show ?thesis using send_one [OF assms s] Cons [of z1] none
      by (auto simp: m s ss)
  qed
qed simp

text \<open>A socket whose queue holds two messages, at the other end of which nobody reads.\<close>

definition small_zmq :: "string list zmq" where
  "small_zmq = \<lparr>z_context = (\<lambda>q. (Inr (), q)), z_socket = (\<lambda>q. (Inr (), q)),
     z_set = (\<lambda>_ _ q. (Inr (), q)), z_connect = (\<lambda>_ q. (Inr (), q)),
     z_message = (\<lambda>_ q. (Inr (), q)),
     z_send = (\<lambda>bytes q. if length q < 2 then Some (Inr (Some (length bytes)), q @ [bytes]) else None),
     z_close = (\<lambda>q. (Inr (), q)), z_shutdown = (\<lambda>q. (Inr (), q))\<rparr>"

definition pps_pb :: "string pb" where
  "pps_pb = \<lparr>pb_new = [], pb_set = (\<lambda>_ v m. (case v of PStr s \<Rightarrow> s | _ \<Rightarrow> m)), pb_mutable = (\<lambda>_ m. m),
     pb_add = (\<lambda>p m. (p, m)), pb_serialize = (\<lambda>m. if m = [] then None else Some m),
     pb_get = (\<lambda>_ _. None), pb_has = (\<lambda>_ _. False), pb_count = (\<lambda>_ _. 0)\<rparr>"

theorem true_iff_accepted_witness:
  "case send_each pps_pb small_zmq \<lparr>has_context = True, has_sender = True\<rparr>
      [(MPps (PPSStats_init 0), ''a''), (MPps (PPSStats_init 0), []), (MPps (PPSStats_init 0), ''b''),
       (MPps (PPSStats_init 0), ''c'')] [] of
     (rs, z') \<Rightarrow> rs = [Inr True, Inr False, Inr True] \<and> z' = [''a'', ''b'']"
proof -
  have push: "zmq_push small_zmq (\<lambda>q. q)" by (auto simp: zmq_push_def small_zmq_def)
  define ms where "ms = [(MPps (PPSStats_init 0), ''a''), (MPps (PPSStats_init 0), []),
      (MPps (PPSStats_init 0), ''b''), (MPps (PPSStats_init 0), ''c'')]"
  obtain rs z' where s: "send_each pps_pb small_zmq \<lparr>has_context = True, has_sender = True\<rparr> ms [] = (rs, z')"
    by fastforce
  have eval: "to_wrapper pps_pb (MPps (PPSStats_init 0)) n = n" for n
    by (simp add: to_wrapper_def to_pps_metrics_def set_header_def Let_def split_beta pps_pb_def)
  have one: "ZMQAdapter_send pps_pb small_zmq \<lparr>has_context = True, has_sender = True\<rparr> (MPps (PPSStats_init 0)) n q =
      (if n = [] then Some (Inr False, q) else if length q < 2 then Some (Inr True, q @ [n]) else None)" for n q
    by (simp add: ZMQAdapter_send_def send_impl_def eval) (simp add: small_zmq_def pps_pb_def)
  have rs: "rs = [Inr True, Inr False, Inr True]"
    using s by (simp add: ms_def one)
  have "z' = accepted pps_pb ms rs"
    using true_iff_accepted [OF push, where api = pps_pb and a = "\<lparr>has_context = True, has_sender = True\<rparr>"
        and ms = ms and z = "[]"] s by simp
  also have "\<dots> = [''a'', ''b'']" by (simp add: rs ms_def eval) (simp add: pps_pb_def)
  finally show ?thesis using s rs by (simp add: ms_def)
qed

section \<open>Construction and destruction\<close>

text \<open>ZMQ calls that are recorded; \<open>fails\<close> says which of them throw, and what.\<close>

datatype zcall = ZContext | ZSocket | ZSet sockopt i32 | ZConnect string | ZMessage nat | ZSend string
  | ZClose | ZShutdown

definition call :: "(zcall \<Rightarrow> exn option) \<Rightarrow> zcall \<Rightarrow> 'r \<Rightarrow> zcall list \<Rightarrow> (exn + 'r) \<times> zcall list" where
  "call fails c r z = (case fails c of Some e \<Rightarrow> (Inl e, z @ [c]) | None \<Rightarrow> (Inr r, z @ [c]))"

definition traced :: "(zcall \<Rightarrow> exn option) \<Rightarrow> zcall list zmq" where
  "traced fails = \<lparr>z_context = call fails ZContext (), z_socket = call fails ZSocket (),
     z_set = (\<lambda>opt v. call fails (ZSet opt v) ()), z_connect = (\<lambda>p. call fails (ZConnect p) ()),
     z_message = (\<lambda>n. call fails (ZMessage n) ()), z_send = (\<lambda>b z. Some (call fails (ZSend b) (Some (length b)) z)),
     z_close = call fails ZClose (), z_shutdown = call fails ZShutdown ()\<rparr>"

definition setup_calls :: "ZMQConfig \<Rightarrow> zcall list" where
  "setup_calls config = [ZContext, ZSocket, ZSet Sndhwm (queue_size config),
     ZSet Linger (timeout_after_close_ms config), ZConnect (zmq_endpoint config)]"

definition is_zmq_error :: "exn option \<Rightarrow> bool" where
  "is_zmq_error r = (case r of None \<Rightarrow> True | Some (ZmqError _) \<Rightarrow> True | Some _ \<Rightarrow> False)"

lemma z_all_calls:
  "z_all (map (\<lambda>c. call fails c ()) cs) z =
     (case find (\<lambda>c. fails c \<noteq> None) cs of
        None \<Rightarrow> (Inr (), z @ cs)
      | Some c \<Rightarrow> (Inl (the (fails c)), z @ takeWhile (\<lambda>c. fails c = None) cs @ [c]))"
  by (induction cs arbitrary: z) (auto simp: call_def split: option.splits)

lemma new_calls:
  "ZMQAdapter_new (traced fails) config z =
     (case find (\<lambda>c. fails c \<noteq> None) (setup_calls config) of
        None \<Rightarrow> (Inr \<lparr>has_context = True, has_sender = True\<rparr>, z @ setup_calls config)
      | Some c \<Rightarrow> (Inl (the (fails c)), z @ takeWhile (\<lambda>c. fails c = None) (setup_calls config) @ [c]))"
  using z_all_calls [of fails "setup_calls config" z]
  by (simp add: ZMQAdapter_new_def traced_def setup_calls_def split: option.splits)

lemma destroy_calls:
  "case ZMQAdapter_destroy (traced fails) \<lparr>has_context = True, has_sender = True\<rparr> z of (a, z') \<Rightarrow>
     z' = z @ [ZClose] @ (if is_zmq_error (fails ZClose) then [ZShutdown] else []) \<and>
     (has_sender a \<longleftrightarrow> \<not> is_zmq_error (fails ZClose)) \<and>
     (has_context a \<longleftrightarrow> \<not> (is_zmq_error (fails ZClose) \<and> is_zmq_error (fails ZShutdown)))"
  by (auto simp: ZMQAdapter_destroy_def traced_def call_def is_zmq_error_def Let_def
      split: option.splits exn.splits)

text \<open>C27. The life of an adapter, for any ZMQ calls that fail and any exceptions they raise. The
  constructor creates the context and the socket, sets the two options and connects, in this
  order, and lets the first exception out without a further call. The destructor of an adapter
  that was constructed lets nothing out: it closes the socket and then shuts the context down, also
  when closing failed with a ZMQ error; only another exception skips the shutdown.\<close>

theorem zmq_lifecycle:
  "case ZMQAdapter_new (traced fails) config [] of
     (Inl e, calls) \<Rightarrow> (\<exists>i < 5. fails (setup_calls config ! i) = Some e \<and>
        calls = take (Suc i) (setup_calls config) \<and> list_all (\<lambda>c. fails c = None) (take i (setup_calls config)))
   | (Inr a, calls) \<Rightarrow> calls = setup_calls config \<and> list_all (\<lambda>c. fails c = None) calls \<and>
       (case ZMQAdapter_destroy (traced fails) a calls of (a', calls') \<Rightarrow>
          calls' = calls @ [ZClose] @ (if is_zmq_error (fails ZClose) then [ZShutdown] else []) \<and>
          (has_sender a' \<longleftrightarrow> \<not> is_zmq_error (fails ZClose)) \<and>
          (has_context a' \<longleftrightarrow> \<not> (is_zmq_error (fails ZClose) \<and> is_zmq_error (fails ZShutdown))))"
proof (cases "find (\<lambda>c. fails c \<noteq> None) (setup_calls config)")
  case None
  then have "list_all (\<lambda>c. fails c = None) (setup_calls config)"
    by (auto simp: find_None_iff list_all_iff)
  moreover have "ZMQAdapter_new (traced fails) config [] =
      (Inr \<lparr>has_context = True, has_sender = True\<rparr>, setup_calls config)"
    by (simp only: new_calls None option.case append_Nil)
  ultimately show ?thesis using destroy_calls [of "setup_calls config" fails] by simp
next
  case (Some c)
  then obtain i where i: "i < length (setup_calls config)" "fails (setup_calls config ! i) \<noteq> None"
      "c = setup_calls config ! i" "\<forall>j < i. fails (setup_calls config ! j) = None"
    by (auto simp: find_Some_iff)
  have t: "takeWhile (\<lambda>c. fails c = None) (setup_calls config) = take i (setup_calls config)"
    by (rule takeWhile_eq_take_P_nth) (use i in auto)
  have "ZMQAdapter_new (traced fails) config [] =
      (Inl (the (fails c)), take i (setup_calls config) @ [setup_calls config ! i])"
    by (simp only: new_calls Some t i(3) option.case append_Nil)
  moreover have "list_all (\<lambda>c. fails c = None) (take i (setup_calls config))"
    using i by (auto simp: list_all_length)
  moreover have "i < 5" using i(1) by (simp add: setup_calls_def)
  ultimately show ?thesis using i
    by (auto simp: take_Suc_conv_app_nth intro!: exI [of _ i])
qed

end
