(* ===== verification/Nic_Resolver.thy ===== *)
theory Nic_Resolver
  imports Log_Lines
begin

text \<open>
  \<open>src/network_adapter_resolver.cpp\<close>: from the name of a network interface to the name of its PCI
  adapter. The socket calls and the PCI library are records of the operations the code calls, on
  one world. The lemmas say what is returned for every outcome of these calls and that the socket,
  the device and the access handle are released on every path.
\<close>

section \<open>The system calls and the PCI library\<close>

type_synonym u16 = "16 word"
type_synonym u8 = "8 word"

text \<open>\<open>n_ioctl fd name\<close> is the driver query for the interface \<open>name\<close>: the member \<open>bus_info\<close> of the
  answer, or nothing on an error; \<open>n_strerror\<close> is \<open>strerror(errno)\<close>.\<close>

record 'w netdev =
  n_socket :: "'w \<Rightarrow> i32 \<times> 'w"
  n_ioctl :: "i32 \<Rightarrow> string \<Rightarrow> 'w \<Rightarrow> string option \<times> 'w"
  n_close :: "i32 \<Rightarrow> 'w \<Rightarrow> 'w"
  n_strerror :: "'w \<Rightarrow> string"

record PciAddress =
  pci_domain :: u32
  pci_bus :: u32
  pci_device :: u32
  pci_function :: u32

text \<open>\<open>p_alloc\<close> and \<open>p_get_dev\<close> tell whether the pointer they return is not null, \<open>p_fill\<close> returns
  the flags of the fields it filled, \<open>p_ident\<close> the vendor, device and revision numbers.\<close>

record 'w pcilib =
  p_alloc :: "'w \<Rightarrow> bool \<times> 'w"
  p_init :: "'w \<Rightarrow> 'w"
  p_get_dev :: "PciAddress \<Rightarrow> 'w \<Rightarrow> bool \<times> 'w"
  p_FILL_IDENT :: i32
  p_fill :: "i32 \<Rightarrow> 'w \<Rightarrow> i32 \<times> 'w"
  p_ident :: "'w \<Rightarrow> u16 \<times> u16 \<times> u8"
  p_lookup_vendor :: "u16 \<Rightarrow> 'w \<Rightarrow> string \<times> 'w"
  p_lookup_device :: "u16 \<Rightarrow> u16 \<Rightarrow> 'w \<Rightarrow> string \<times> 'w"
  p_free_dev :: "'w \<Rightarrow> 'w"
  p_cleanup :: "'w \<Rightarrow> 'w"

section \<open>Bus information\<close>

text \<open>\<open>FileDescriptor\<close>: the destructor closes a descriptor that is not negative.\<close>

record FileDescriptor =
  raw_fd :: i32

definition FileDescriptor_destroy :: "'w netdev \<Rightarrow> FileDescriptor \<Rightarrow> 'w \<Rightarrow> 'w" where
  "FileDescriptor_destroy net d w = (if 0 \<le> sint (raw_fd d) then n_close net (raw_fd d) w else w)"

text \<open>\<open>strncpy(ifr_name, name, IFNAMSIZ - 1)\<close> into a zeroed array of \<open>IFNAMSIZ = 16\<close> characters. Every
  way out of the function destroys \<open>socketFd\<close>.\<close>

definition getBusInfo :: "'w netdev \<Rightarrow> string \<Rightarrow> 'w \<Rightarrow> (exn + string) \<times> 'w" where
  "getBusInfo net interfaceName w =
     (let (fd, w1) = n_socket net w;
          socketFd = \<lparr>raw_fd = fd\<rparr>;
          (r, w') =
            (if sint (raw_fd socketFd) < 0
             then (Inl (RuntimeError (''socket() failed: '' @ n_strerror net w1)), w1)
             else
               (case n_ioctl net (raw_fd socketFd) (take 15 (c_str interfaceName)) w1 of
                  (None, w2) \<Rightarrow> (Inl (RuntimeError (''ioctl(SIOCETHTOOL) failed for '' @ [CHR 0x27] @ interfaceName @
                    [CHR 0x27] @ '': '' @ n_strerror net w2)), w2)
                | (Some info, w2) \<Rightarrow>
                    let busInfo = c_str info in
                    if busInfo = [] \<or> busInfo = ''N/A''
                    then (Inl (RuntimeError (''bus-info is empty or unsupported for interface '' @ [CHR 0x27] @
                      interfaceName @ [CHR 0x27])), w2)
                    else (Inr busInfo, w2)))
      in (r, FileDescriptor_destroy net socketFd w'))"

text \<open>The descriptor is closed exactly when there is one.\<close>

lemma getBusInfo_closes:
  "getBusInfo net interfaceName w =
     (let (fd, w1) = n_socket net w in
      if sint fd < 0 then (Inl (RuntimeError (''socket() failed: '' @ n_strerror net w1)), w1)
      else
        let (bus_info, w2) = n_ioctl net fd (take 15 (c_str interfaceName)) w1;
            r = (case bus_info of
                None \<Rightarrow> Inl (RuntimeError (''ioctl(SIOCETHTOOL) failed for '' @ [CHR 0x27] @ interfaceName @
                  [CHR 0x27] @ '': '' @ n_strerror net w2))
              | Some info \<Rightarrow>
                  let busInfo = c_str info in
                  if busInfo = [] \<or> busInfo = ''N/A''
                  then Inl (RuntimeError (''bus-info is empty or unsupported for interface '' @ [CHR 0x27] @
                    interfaceName @ [CHR 0x27]))
                  else Inr busInfo)
        in (r, n_close net fd w2))"
  by (auto simp: getBusInfo_def FileDescriptor_destroy_def Let_def split: prod.splits option.splits)

section \<open>PCI address\<close>

definition fmt_pci_address :: string where
  "fmt_pci_address = ''%x:%x:%x.%x''"

definition parsePciAddress :: "string \<Rightarrow> exn + PciAddress" where
  "parsePciAddress busInfo =
     (let vs = sscanf busInfo fmt_pci_address in
      if length vs \<noteq> 4
      then Inl (RuntimeError (''failed to parse PCI address from bus-info '' @ [CHR 0x27] @ busInfo @ [CHR 0x27]))
      else Inr \<lparr>pci_domain = as_u32 (vs ! 0), pci_bus = as_u32 (vs ! 1), pci_device = as_u32 (vs ! 2),
        pci_function = as_u32 (vs ! 3)\<rparr>)"

section \<open>Adapter name\<close>

definition hex_char :: "nat \<Rightarrow> char" where
  "hex_char d = (if d < 10 then char_of (48 + d) else char_of (87 + d))"

fun hex_digits :: "nat \<Rightarrow> string" where
  "hex_digits n = (if n < 16 then [hex_char n] else hex_digits (n div 16) @ [hex_char (n mod 16)])"

declare hex_digits.simps [simp del]

text \<open>\<open>std::setw(n) << std::setfill('0')\<close>\<close>

definition zero_padded :: "nat \<Rightarrow> string \<Rightarrow> string" where
  "zero_padded n s = replicate (n - length s) CHR ''0'' @ s"

text \<open>The access handle is released by the \<open>unique_ptr\<close>, after the device.\<close>

definition lookupAdapterName :: "'w pcilib \<Rightarrow> string \<Rightarrow> 'w \<Rightarrow> (exn + string) \<times> 'w" where
  "lookupAdapterName pci busInfo w =
     (case parsePciAddress busInfo of
        Inl e \<Rightarrow> (Inl e, w)
      | Inr address \<Rightarrow>
          let (ok, w1) = p_alloc pci w in
          if \<not> ok then (Inl (RuntimeError ''pci_alloc() failed''), w1)
          else
            let w2 = p_init pci w1;
                (found, w3) = p_get_dev pci address w2;
                (r, w4) = (if \<not> found
                  then (Inl (RuntimeError (''pci_get_dev() failed for '' @ [CHR 0x27] @ busInfo @ [CHR 0x27])), w3)
                  else
                    let (fillResult, w4) = p_fill pci (p_FILL_IDENT pci) w3 in
                    if and fillResult (p_FILL_IDENT pci) = 0
                    then (Inl (RuntimeError (''pci_fill_info() failed for '' @ [CHR 0x27] @ busInfo @ [CHR 0x27])),
                      p_free_dev pci w4)
                    else
                      let (vendor_id, device_id, rev_id) = p_ident pci w4;
                          (vendorName, w5) = p_lookup_vendor pci vendor_id w4;
                          (deviceName, w6) = p_lookup_device pci vendor_id device_id w5
                      in (Inr (c_str vendorName @ '' '' @ c_str deviceName @ '' (rev '' @
                            zero_padded 2 (hex_digits (unat rev_id)) @ '')''), p_free_dev pci w6))
            in (r, p_cleanup pci w4))"

definition resolve :: "'w netdev \<Rightarrow> 'w pcilib \<Rightarrow> string \<Rightarrow> 'w \<Rightarrow> string \<times> 'w" where
  "resolve net pci interfaceName w =
     (case getBusInfo net interfaceName w of
        (Inl e, w1) \<Rightarrow> ([], w1)
      | (Inr busInfo, w1) \<Rightarrow>
          (case lookupAdapterName pci busInfo w1 of
             (Inl e, w2) \<Rightarrow> ([], w2)
           | (Inr name, w2) \<Rightarrow> (name, w2)))"

section \<open>Hexadecimal numbers\<close>

lemma hex_char_xdigit:
  assumes "d < 16"
  shows "is_xdigit (hex_char d)" and "xdigit_val (hex_char d) = d" and "\<not> is_space (hex_char d)"
    and "hex_char d \<noteq> CHR 0x00" and "to_lower (hex_char d) \<noteq> CHR ''x''"
    and "hex_char d \<noteq> CHR ''-''" and "hex_char d \<noteq> CHR ''+''"
proof -
  have code: "of_char (hex_char d) = (if d < 10 then 48 + d else 87 + d :: nat)"
    using assms by (simp add: hex_char_def)
  have ne: "hex_char d \<noteq> c" if "of_char c \<noteq> (if d < 10 then 48 + d else 87 + d :: nat)" for c
    using code that by auto
  show "is_xdigit (hex_char d)" "xdigit_val (hex_char d) = d"
    using assms by (auto simp: is_xdigit_def is_digit_def xdigit_val_def code Let_def)
  show "\<not> is_space (hex_char d)" using assms by (simp add: is_space_def ne)
  have "to_lower (hex_char d) = hex_char d" using assms by (simp add: to_lower_def code)
  moreover have "hex_char d \<noteq> CHR ''x''" by (rule ne) (use assms in simp)
  ultimately show "to_lower (hex_char d) \<noteq> CHR ''x''" by simp
  show "hex_char d \<noteq> CHR 0x00" "hex_char d \<noteq> CHR ''-''" "hex_char d \<noteq> CHR ''+''"
    by (rule ne; use assms in simp)+
qed

definition hex_text :: "string \<Rightarrow> bool" where
  "hex_text s \<longleftrightarrow> s \<noteq> [] \<and> (\<forall>c \<in> set s. \<exists>d < 16. c = hex_char d)"

lemma hex_textD:
  assumes "hex_text s" and "c \<in> set s"
  shows "is_xdigit c" and "\<not> is_space c" and "c \<noteq> CHR 0x00" and "to_lower c \<noteq> CHR ''x''"
    and "c \<noteq> CHR ''-''" and "c \<noteq> CHR ''+''"
proof -
  from assms(1) have "\<forall>c \<in> set s. \<exists>d < 16. c = hex_char d" by (simp add: hex_text_def)
  from bspec [OF this assms(2)] obtain d where d: "d < 16" "c = hex_char d" by (elim exE conjE)
  show "is_xdigit c" "\<not> is_space c" "c \<noteq> CHR 0x00" "to_lower c \<noteq> CHR ''x''" "c \<noteq> CHR ''-''" "c \<noteq> CHR ''+''"
    unfolding d(2) using hex_char_xdigit [OF d(1)] by simp_all
qed

lemma hex_char_0: "CHR ''0'' = hex_char 0"
  by code_simp

lemma hex_digits_text: "hex_text (hex_digits n)"
proof (induction n rule: hex_digits.induct)
  case (1 n)
  then show ?case
    by (subst hex_digits.simps) (auto simp: hex_text_def, metis mod_less_divisor zero_less_numeral)
qed

lemma hex_val_snoc: "hex_val (ds @ [c]) = 16 * hex_val ds + xdigit_val c"
  by (simp add: hex_val_def)

lemma hex_val_digits: "hex_val (hex_digits n) = n"
proof (induction n rule: hex_digits.induct)
  case (1 n)
  then show ?case
    by (subst hex_digits.simps)
      (auto simp: hex_val_snoc hex_char_xdigit(2), simp add: hex_val_def hex_char_xdigit(2))
qed

lemma hex_val_zeros: "hex_val (replicate k CHR ''0'' @ s) = hex_val s"
proof (induction k)
  case (Suc k)
  have "foldl (\<lambda>a c. 16 * a + xdigit_val c) 0 (CHR ''0'' # ds) = foldl (\<lambda>a c. 16 * a + xdigit_val c) 0 ds" for ds
    by (simp add: hex_char_0 hex_char_xdigit(2))
  with Suc show ?case by (simp add: hex_val_def)
qed simp

lemma padded_text: "hex_text s \<Longrightarrow> hex_text (zero_padded n s)"
  unfolding hex_text_def zero_padded_def hex_char_0
  by (auto intro: exI [of _ "0 :: nat"])

lemma scan_hex_text:
  assumes "hex_text s" and "hex_val s < 2 ^ 64" and "r = [] \<or> \<not> is_xdigit (hd r) \<and> to_lower (hd r) \<noteq> CHR ''x''"
  shows "scan_hex (s @ r) = Some (word_of_int (int (hex_val s)), r)"
proof -
  obtain c cs where s: "s = c # cs" using assms(1) by (cases s) (auto simp: hex_text_def)
  have "c \<in> set s" by (simp add: s)
  note c = hex_textD [OF assms(1) this]
  have xd: "\<forall>c \<in> set s. is_xdigit c" and nx: "\<forall>c \<in> set s. to_lower c \<noteq> CHR ''x''"
    using hex_textD(1,4) [OF assms(1)] by simp_all
  have sign: "split_sign (s @ r) = (False, s @ r)" using c(5,6) by (simp add: split_sign_def s)
  have drop: "dropWhile is_space (s @ r) = s @ r" using c(2) by (simp add: s)
  have pre: "\<not> hex_prefix (s @ r)"
  proof (cases cs)
    case Nil
    then show ?thesis using assms(3) by (cases r) (auto simp: hex_prefix_def s)
  next
    case (Cons c' cs')
    then show ?thesis using nx by (simp add: hex_prefix_def s)
  qed
  have split: "takeWhile is_xdigit (s @ r) = s" "dropWhile is_xdigit (s @ r) = r"
    using takeWhile_dropWhile_split [OF xd, of r] assms(3) by auto
  have "s \<noteq> []" by (simp add: s)
  then show ?thesis
    using assms(2) by (simp add: scan_hex_def drop sign pre split apply_sign_def)
qed

section \<open>A printed address is read back\<close>

definition pci_text :: "PciAddress \<Rightarrow> string" where
  "pci_text a = zero_padded 4 (hex_digits (unat (pci_domain a))) @ '':'' @
     zero_padded 2 (hex_digits (unat (pci_bus a))) @ '':'' @ zero_padded 2 (hex_digits (unat (pci_device a))) @
     ''.'' @ hex_digits (unat (pci_function a))"

lemma parse_pci_address: "parse_format fmt_pci_address =
   [DHex False, DLit CHR '':'', DHex False, DLit CHR '':'', DHex False, DLit CHR ''.'', DHex False]"
  by (simp add: fmt_pci_address_def parse_conv_def parse_letter_def parse_width_def is_digit_def is_space_def
      digits_val_def digit_val_def Let_def)

lemma zero_padded_0: "zero_padded 0 s = s"
  by (simp add: zero_padded_def)

lemma scan_hex_number:
  assumes "r = [] \<or> \<not> is_xdigit (hd r) \<and> to_lower (hd r) \<noteq> CHR ''x''"
  shows "scan_hex (zero_padded k (hex_digits (unat (w :: u32))) @ r) = Some (w, r)"
proof -
  have v: "hex_val (zero_padded k (hex_digits (unat w))) = unat w"
    by (simp add: zero_padded_def hex_val_zeros hex_val_digits)
  have "unat w < 2 ^ 32" using unsigned_less [of w] by simp
  then have "unat w < 2 ^ 64" by simp
  then show ?thesis
    using scan_hex_text [OF padded_text [OF hex_digits_text [of "unat w"]], of k r] assms v
    by simp
qed

lemma scan_hex_last: "scan_hex (hex_digits (unat (w :: u32))) = Some (w, [])"
  using scan_hex_number [of "[]" 0 w] by (simp add: zero_padded_0)

lemma pci_text_no_nul: "c_str (pci_text a) = pci_text a"
proof -
  have z: "c_str (s @ r) = s @ c_str r" if "hex_text s" for s r
    by (intro c_str_append ballI hex_textD(3) [OF that])
  have e: "c_str s = s" if "hex_text s" for s
    using z [OF that, of "[]"] by (simp add: c_str_def)
  show ?thesis
    by (simp add: pci_text_def z e padded_text hex_digits_text c_str_simps(2))
qed

text \<open>Round trip: the bus address of a PCI device as the kernel prints it (\<open>0000:04:00.0\<close>) is
  parsed back to its four numbers, for all values of 32 bits.\<close>

lemma pci_address_roundtrip:
  "parsePciAddress (pci_text a) = Inr a"
proof -
  have sep: "\<not> is_xdigit CHR '':''" "\<not> is_xdigit CHR ''.''" "to_lower CHR '':'' \<noteq> CHR ''x''" "to_lower CHR ''.'' \<noteq> CHR ''x''"
    by (simp_all add: is_xdigit_def is_digit_def to_lower_def)
  have "sscanf (pci_text a) fmt_pci_address =
      [VU32 (pci_domain a), VU32 (pci_bus a), VU32 (pci_device a), VU32 (pci_function a)]"
    unfolding sscanf_def parse_pci_address pci_text_no_nul
    unfolding pci_text_def
    by (simp add: scan_hex_number scan_hex_last sep)
  then show ?thesis by (simp add: parsePciAddress_def)
qed

section \<open>Every outcome of the calls\<close>

text \<open>What the calls return in one run, and the calls that were made.\<close>

record nic_outcome =
  o_socket :: i32
  o_bus_info :: "string option"
  o_alloc :: bool
  o_dev :: bool
  o_fill :: i32
  o_ident :: "u16 \<times> u16 \<times> u8"
  o_vendor :: string
  o_device :: string

datatype nic_call = Socket bool | Ioctl string | Close | Alloc bool | Init | GetDev bool PciAddress
  | Fill | LookupVendor u16 | LookupDevice u16 u16 | FreeDev | Cleanup

definition run_net :: "nic_outcome \<Rightarrow> nic_call list netdev" where
  "run_net out = \<lparr>n_socket = (\<lambda>w. (o_socket out, w @ [Socket (0 \<le> sint (o_socket out))])),
     n_ioctl = (\<lambda>_ name w. (o_bus_info out, w @ [Ioctl name])), n_close = (\<lambda>_ w. w @ [Close]),
     n_strerror = (\<lambda>_. ''error'')\<rparr>"

definition run_pci :: "nic_outcome \<Rightarrow> nic_call list pcilib" where
  "run_pci out = \<lparr>p_alloc = (\<lambda>w. (o_alloc out, w @ [Alloc (o_alloc out)])), p_init = (\<lambda>w. w @ [Init]),
     p_get_dev = (\<lambda>a w. (o_dev out, w @ [GetDev (o_dev out) a])), p_FILL_IDENT = 1,
     p_fill = (\<lambda>_ w. (o_fill out, w @ [Fill])), p_ident = (\<lambda>_. o_ident out),
     p_lookup_vendor = (\<lambda>v w. (o_vendor out, w @ [LookupVendor v])),
     p_lookup_device = (\<lambda>v d w. (o_device out, w @ [LookupDevice v d])),
     p_free_dev = (\<lambda>w. w @ [FreeDev]), p_cleanup = (\<lambda>w. w @ [Cleanup])\<rparr>"

text \<open>The resources held after the calls, the latest first; nothing when a call uses a resource
  that is not held or releases one that is not the latest.\<close>

datatype nic_resource = HeldSocket | HeldAccess | HeldDevice

fun held_after :: "nic_call list \<Rightarrow> nic_resource list \<Rightarrow> nic_resource list option" where
  "held_after [] rs = Some rs"
| "held_after (Socket ok # cs) rs = held_after cs (if ok then HeldSocket # rs else rs)"
| "held_after (Ioctl _ # cs) rs = (if HeldSocket \<in> set rs then held_after cs rs else None)"
| "held_after (Close # cs) rs = (case rs of HeldSocket # rs' \<Rightarrow> held_after cs rs' | _ \<Rightarrow> None)"
| "held_after (Alloc ok # cs) rs = held_after cs (if ok then HeldAccess # rs else rs)"
| "held_after (Init # cs) rs = (if HeldAccess \<in> set rs then held_after cs rs else None)"
| "held_after (GetDev ok _ # cs) rs =
     (if HeldAccess \<in> set rs then held_after cs (if ok then HeldDevice # rs else rs) else None)"
| "held_after (Fill # cs) rs = (if HeldDevice \<in> set rs then held_after cs rs else None)"
| "held_after (LookupVendor _ # cs) rs = (if HeldAccess \<in> set rs then held_after cs rs else None)"
| "held_after (LookupDevice _ _ # cs) rs = (if HeldAccess \<in> set rs then held_after cs rs else None)"
| "held_after (FreeDev # cs) rs = (case rs of HeldDevice # rs' \<Rightarrow> held_after cs rs' | _ \<Rightarrow> None)"
| "held_after (Cleanup # cs) rs = (case rs of HeldAccess # rs' \<Rightarrow> held_after cs rs' | _ \<Rightarrow> None)"

definition bus_address :: "nic_outcome \<Rightarrow> PciAddress option" where
  "bus_address out = (case o_bus_info out of
     Some info \<Rightarrow> if c_str info = ''N/A'' then None else to_option (parsePciAddress (c_str info))
   | None \<Rightarrow> None)"

definition resolvable :: "nic_outcome \<Rightarrow> bool" where
  "resolvable out \<longleftrightarrow> 0 \<le> sint (o_socket out) \<and> bus_address out \<noteq> None \<and> o_alloc out \<and> o_dev out \<and>
     and (o_fill out) 1 \<noteq> 0"

definition adapter_text :: "nic_outcome \<Rightarrow> string" where
  "adapter_text out = c_str (o_vendor out) @ '' '' @ c_str (o_device out) @ '' (rev '' @
     zero_padded 2 (hex_digits (unat (snd (snd (o_ident out))))) @ '')''"

lemma parse_empty: "parsePciAddress [] = Inl (RuntimeError (''failed to parse PCI address from bus-info '' @ [CHR 0x27, CHR 0x27]))"
  by (simp add: parsePciAddress_def sscanf_def parse_pci_address c_str_def scan_hex_def split_sign_def hex_prefix_def)

text \<open>C21. Whatever the system and the library return, \<open>resolve\<close> throws nothing: it returns the
  vendor and device name with the revision in two hexadecimal digits when every step succeeds and
  the bus address is well-formed, and the empty string otherwise. On every path each resource
  that was acquired is released once, the latest first, and none is used before or after.\<close>

theorem resolve_every_outcome:
  "case resolve (run_net out) (run_pci out) name [] of (r, calls) \<Rightarrow>
     r = (if resolvable out then adapter_text out else []) \<and> held_after calls [] = Some [] \<and>
     (r = [] \<longleftrightarrow> \<not> resolvable out)"
proof -
  obtain v d rev where ident: "o_ident out = (v, d, rev)" by (cases "o_ident out") auto
  show ?thesis
  proof (cases "0 \<le> sint (o_socket out)")
    case True
    then show ?thesis
      by (auto simp: resolve_def getBusInfo_closes lookupAdapterName_def run_net_def run_pci_def Let_def
          resolvable_def adapter_text_def ident bus_address_def parse_empty to_option_def
          split: option.splits sum.splits)
  qed (simp add: resolve_def getBusInfo_closes run_net_def resolvable_def)
qed

end
