(* ===== verification/Collector_Sources.thy ===== *)
theory Collector_Sources
  imports CString_Lib Clock
begin

text \<open>
  The sources of events of \<open>src/collector.cpp\<close> and \<open>include/collector.h\<close>: \<open>JournalCollector\<close> and
  \<open>SubprocessCollector\<close>. The journal library and \<open>boost::process\<close> are records of the operations
  the code calls. Waiting for a journal entry or a line may take forever: \<open>readEvent\<close> returns \<open>None\<close> on the
  outside when it never returns. The contract of \<open>ICollector\<close> is the locale \<open>event_source\<close>.
\<close>

record CollectorEvent =
  ts_usec :: u64
  ev_unit :: string
  ev_msg :: string

section \<open>JournalCollector\<close>

text \<open>\<open>sd_journal\<close>: \<open>j_realtime\<close> and \<open>j_data\<close> are nothing when the call fails.\<close>

record ('h, 'w) sdjournal =
  j_open :: "'w \<Rightarrow> i32 \<times> 'h \<times> 'w"
  j_flush_matches :: "'h \<Rightarrow> 'w \<Rightarrow> 'w"
  j_add_match :: "'h \<Rightarrow> string \<Rightarrow> 'w \<Rightarrow> 'w"
  j_add_disjunction :: "'h \<Rightarrow> 'w \<Rightarrow> 'w"
  j_seek_tail :: "'h \<Rightarrow> 'w \<Rightarrow> 'w"
  j_previous :: "'h \<Rightarrow> 'w \<Rightarrow> 'w"
  j_next :: "'h \<Rightarrow> 'w \<Rightarrow> i32 \<times> 'w"
  j_wait :: "'h \<Rightarrow> u64 \<Rightarrow> 'w \<Rightarrow> i32 \<times> 'w"
  j_realtime :: "'h \<Rightarrow> 'w \<Rightarrow> u64 option"
  j_data :: "'h \<Rightarrow> string \<Rightarrow> 'w \<Rightarrow> string option"
  j_close :: "'h \<Rightarrow> 'w \<Rightarrow> 'w"

text \<open>The atomic member \<open>stop_requested_\<close>: another thread may set it while the collector waits, so
  it is a part of the world.\<close>

record 'w atomic_flag =
  flag_get :: "'w \<Rightarrow> bool"
  flag_set :: "bool \<Rightarrow> 'w \<Rightarrow> 'w"

record 'h JournalCollector =
  jc_unit :: string
  jc_journal :: 'h

definition JournalCollector_new ::
    "('h, 'w) sdjournal \<Rightarrow> 'w atomic_flag \<Rightarrow> string \<Rightarrow> 'w \<Rightarrow> (exn + 'h JournalCollector) \<times> 'w" where
  "JournalCollector_new J flag unit w =
     (let w = flag_set flag False w; (ret, h, w) = j_open J w in
      if sint ret < 0 then (Inl (RuntimeError (''sd_journal_open failed: '' @ show_int (sint (- ret)))), w)
      else
        let w = j_flush_matches J h w;
            w = j_add_match J h (''_COMM='' @ unit) w;
            w = j_add_disjunction J h w;
            w = j_add_match J h (''SYSLOG_IDENTIFIER='' @ unit) w;
            w = j_add_match J h ''_TRANSPORT=syslog'' w;
            w = j_seek_tail J h w;
            w = j_previous J h w
        in (Inr \<lparr>jc_unit = unit, jc_journal = h\<rparr>, w))"

definition JournalCollector_destroy :: "('h, 'w) sdjournal \<Rightarrow> 'h JournalCollector \<Rightarrow> 'w \<Rightarrow> 'w" where
  "JournalCollector_destroy J c w = j_close J (jc_journal c) w"

definition JournalCollector_stop :: "'w atomic_flag \<Rightarrow> 'h JournalCollector \<Rightarrow> 'w \<Rightarrow> 'w" where
  "JournalCollector_stop flag c w = flag_set flag True w"

text \<open>The loop: true when it is left by \<open>break\<close>, with an entry, false when the method returns
  \<open>std::nullopt\<close>.\<close>

partial_function (option) journal_loop ::
    "('h, 'w) sdjournal \<Rightarrow> 'w atomic_flag \<Rightarrow> 'h \<Rightarrow> 'w \<Rightarrow> (bool \<times> 'w) option" where
  "journal_loop J flag h w =
     (let (ret, w1) = j_next J h w in
      if sint ret > 0 then Some (True, w1)
      else if sint ret < 0 then Some (False, w1)
      else if flag_get flag w1 then Some (False, w1)
      else
        let (r, w2) = j_wait J h 1000000 w1 in
        if sint r < 0 then Some (False, w2) else journal_loop J flag h w2)"

text \<open>\<open>junk\<close>: the uninitialised time stamp, when the journal gives none.\<close>

definition JournalCollector_readEvent ::
    "('h, 'w) sdjournal \<Rightarrow> 'w atomic_flag \<Rightarrow> u64 \<Rightarrow> 'h JournalCollector \<Rightarrow> 'w \<Rightarrow>
     (CollectorEvent option \<times> 'w) option" where
  "JournalCollector_readEvent J flag junk c w =
     (case journal_loop J flag (jc_journal c) w of
        None \<Rightarrow> None
      | Some (False, w1) \<Rightarrow> Some (None, w1)
      | Some (True, w1) \<Rightarrow>
          let event = \<lparr>ts_usec = (case j_realtime J (jc_journal c) w1 of Some t \<Rightarrow> t | None \<Rightarrow> junk),
                ev_unit = jc_unit c, ev_msg = []\<rparr>;
              event = (case j_data J (jc_journal c) ''MESSAGE'' w1 of
                  Some data \<Rightarrow> event\<lparr>ev_msg := drop (length ''MESSAGE='') data\<rparr> | None \<Rightarrow> event)
          in Some (Some event, w1))"

section \<open>SubprocessCollector\<close>

text \<open>\<open>boost::process\<close> and the clock. Reading a line waits until there is one or the other end of the pipe
  is closed, and that may be for ever: then \<open>bp_getline\<close> is \<open>None\<close>.\<close>

record ('p, 'w) process_lib =
  bp_child :: "string \<Rightarrow> string list \<Rightarrow> 'w \<Rightarrow> (exn + 'p) \<times> 'w"
  bp_running :: "'p \<Rightarrow> 'w \<Rightarrow> bool \<times> 'w"
  bp_terminate :: "'p \<Rightarrow> 'w \<Rightarrow> 'w"
  bp_wait :: "'p \<Rightarrow> 'w \<Rightarrow> 'w"
  bp_getline :: "'p \<Rightarrow> 'w \<Rightarrow> (string option \<times> 'w) option"
  bp_now :: "'w \<Rightarrow> i64"

record 'p SubprocessCollector =
  sc_unit :: string
  sc_child :: 'p

definition SubprocessCollector_new ::
    "('p, 'w) process_lib \<Rightarrow> string \<Rightarrow> string list \<Rightarrow> 'w \<Rightarrow> (exn + 'p SubprocessCollector) \<times> 'w" where
  "SubprocessCollector_new P cmd args w =
     (case bp_child P ''/usr/bin/sudo'' args w of
        (Inl e, w1) \<Rightarrow> (Inl e, w1)
      | (Inr child, w1) \<Rightarrow>
          let (running, w2) = bp_running P child w1 in
          if \<not> running then (Inl (RuntimeError (''Failed to start process: '' @ cmd)), w2)
          else (Inr \<lparr>sc_unit = cmd, sc_child = child\<rparr>, w2))"

definition SubprocessCollector_readEvent ::
    "('p, 'w) process_lib \<Rightarrow> 'p SubprocessCollector \<Rightarrow> 'w \<Rightarrow> (CollectorEvent option \<times> 'w) option" where
  "SubprocessCollector_readEvent P c w =
     (let ts = now_us (bp_now P w) in
      case bp_getline P (sc_child c) w of
        None \<Rightarrow> None
      | Some (None, w1) \<Rightarrow> Some (None, w1)
      | Some (Some msg, w1) \<Rightarrow> if msg = [] then Some (None, w1)
          else Some (Some \<lparr>ts_usec = ts, ev_unit = sc_unit c, ev_msg = msg\<rparr>, w1))"

definition SubprocessCollector_stop :: "('p, 'w) process_lib \<Rightarrow> 'p SubprocessCollector \<Rightarrow> 'w \<Rightarrow> 'w" where
  "SubprocessCollector_stop P c w =
     (let (running, w1) = bp_running P (sc_child c) w in
      if running then bp_terminate P (sc_child c) w1 else w1)"

definition SubprocessCollector_destroy :: "('p, 'w) process_lib \<Rightarrow> 'p SubprocessCollector \<Rightarrow> 'w \<Rightarrow> 'w" where
  "SubprocessCollector_destroy P c w =
     (let (running, w1) = bp_running P (sc_child c) w in
      if running then bp_wait P (sc_child c) (bp_terminate P (sc_child c) w1) else w1)"

section \<open>ICollector\<close>

text \<open>Reading until \<open>readEvent\<close> returns \<open>std::nullopt\<close>.\<close>

partial_function (option) read_all ::
    "('w \<Rightarrow> (CollectorEvent option \<times> 'w) option) \<Rightarrow> 'w \<Rightarrow> (CollectorEvent list \<times> 'w) option" where
  "read_all read w =
     (case read w of
        None \<Rightarrow> None
      | Some (None, w1) \<Rightarrow> Some ([], w1)
      | Some (Some e, w1) \<Rightarrow>
          Option.bind (read_all read w1) (\<lambda>(es, w2). Some (e # es, w2)))"

text \<open>
  The contract: in a world where the source is ended (or told to end), every call returns; it
  gives the messages the source still holds one by one, in order and under the unit's name,
  and then nothing.
\<close>

locale event_source =
  fixes read :: "'w \<Rightarrow> (CollectorEvent option \<times> 'w) option"
    and unit_name :: string
    and ended :: "'w \<Rightarrow> bool"
    and messages :: "'w \<Rightarrow> string list"
  assumes read_next: "ended w \<Longrightarrow> messages w = m # ms \<Longrightarrow>
      \<exists>ts w'. read w = Some (Some \<lparr>ts_usec = ts, ev_unit = unit_name, ev_msg = m\<rparr>, w') \<and>
        ended w' \<and> messages w' = ms"
    and read_last: "ended w \<Longrightarrow> messages w = [] \<Longrightarrow> \<exists>w'. read w = Some (None, w')"
begin

lemma read_all_messages:
  assumes "ended w"
  shows "\<exists>es w'. read_all read w = Some (es, w') \<and> map ev_msg es = messages w \<and>
    set (map ev_unit es) \<subseteq> {unit_name}"
  using assms
proof (induction "messages w" arbitrary: w)
  case Nil
  then obtain w' where "read w = Some (None, w')" using read_last by (metis (no_types))
  with Nil show ?case by (subst read_all.simps) simp
next
  case (Cons m ms)
  then obtain ts w' where w': "read w = Some (Some \<lparr>ts_usec = ts, ev_unit = unit_name, ev_msg = m\<rparr>, w')"
      "ended w'" "messages w' = ms"
    using read_next [of w m ms] by metis
  then obtain es w'' where "read_all read w' = Some (es, w'')" "map ev_msg es = ms"
      "set (map ev_unit es) \<subseteq> {unit_name}"
    using Cons.hyps(1) [of w'] by auto
  with w' Cons.hyps(2) show ?case by (subst read_all.simps) (auto simp flip: Cons.hyps(2))
qed

end

subsection \<open>The journal\<close>

text \<open>The library as documented, for the entries that the matches let through and that were not
  read yet: \<open>sd_journal_next\<close> steps to the next of them and returns a positive number, or 0 at the
  end, and touches no flag of the program.\<close>

type_synonym journal_entry = "u64 option \<times> string option"

definition journal_law ::
    "('h, 'w) sdjournal \<Rightarrow> 'w atomic_flag \<Rightarrow> 'h \<Rightarrow> ('w \<Rightarrow> journal_entry list) \<Rightarrow> bool" where
  "journal_law J flag h pending \<longleftrightarrow> (\<forall>w. case j_next J h w of (ret, w') \<Rightarrow>
     flag_get flag w' = flag_get flag w \<and>
     (case pending w of
        [] \<Rightarrow> ret = 0 \<and> pending w' = []
      | (ts, m) # es \<Rightarrow> 0 < sint ret \<and> pending w' = es \<and> j_realtime J h w' = ts \<and>
          j_data J h ''MESSAGE'' w' = map_option ((@) ''MESSAGE='') m))"

lemma journal_law_entry:
  assumes "journal_law J flag h pending" and "j_next J h w = (ret, w')" and "pending w = (ts, m) # es"
  shows "flag_get flag w' = flag_get flag w" and "0 < sint ret" and "pending w' = es"
    and "j_realtime J h w' = ts" and "j_data J h ''MESSAGE'' w' = map_option ((@) ''MESSAGE='') m"
  using assms(1) [unfolded journal_law_def, rule_format, of w] by (simp_all add: assms(2,3))

lemma journal_law_end:
  assumes "journal_law J flag h pending" and "j_next J h w = (ret, w')" and "pending w = []"
  shows "flag_get flag w' = flag_get flag w" and "ret = 0" and "pending w' = []"
  using assms(1) [unfolded journal_law_def, rule_format, of w] by (simp_all add: assms(2,3))

definition message_of :: "journal_entry \<Rightarrow> string" where
  "message_of e = (case snd e of Some m \<Rightarrow> m | None \<Rightarrow> [])"

interpretation journal: event_source "JournalCollector_readEvent J flag junk c" "jc_unit c"
  "\<lambda>w. journal_law J flag (jc_journal c) pending \<and> flag_get flag w" "\<lambda>w. map message_of (pending w)"
  for J flag junk c pending
proof
  fix w m ms
  assume e: "journal_law J flag (jc_journal c) pending \<and> flag_get flag w" and m: "map message_of (pending w) = m # ms"
  obtain ts x es where p: "pending w = (ts, x) # es" "m = message_of (ts, x)" "ms = map message_of es"
    using m by (cases "pending w") auto
  obtain ret w' where n: "j_next J (jc_journal c) w = (ret, w')" by fastforce
  with e p(1) have "0 < sint ret" "pending w' = es" "flag_get flag w'" "j_realtime J (jc_journal c) w' = ts"
      "j_data J (jc_journal c) ''MESSAGE'' w' = map_option ((@) ''MESSAGE='') x"
    using journal_law_entry [of J flag "jc_journal c" pending w ret w' ts x es] by simp_all
  then show "\<exists>ts w'. JournalCollector_readEvent J flag junk c w =
      Some (Some \<lparr>ts_usec = ts, ev_unit = jc_unit c, ev_msg = m\<rparr>, w') \<and>
      (journal_law J flag (jc_journal c) pending \<and> flag_get flag w') \<and> map message_of (pending w') = ms"
    using e p n
    by (cases x) (simp_all add: JournalCollector_readEvent_def journal_loop.simps message_of_def)
next
  fix w
  assume e: "journal_law J flag (jc_journal c) pending \<and> flag_get flag w" and "map message_of (pending w) = []"
  then have p: "pending w = []" by simp
  obtain ret w' where n: "j_next J (jc_journal c) w = (ret, w')" by fastforce
  with e p have "ret = 0" "flag_get flag w'"
    using journal_law_end [of J flag "jc_journal c" pending w ret w'] by simp_all
  with n show "\<exists>w'. JournalCollector_readEvent J flag junk c w = Some (None, w')"
    by (simp add: JournalCollector_readEvent_def journal_loop.simps)
qed

text \<open>One turn of the loop that ends in a wait: no entry, no request to stop, no error.\<close>

definition journal_idle :: "('h, 'w) sdjournal \<Rightarrow> 'w atomic_flag \<Rightarrow> 'h \<Rightarrow> 'w \<Rightarrow> bool" where
  "journal_idle J flag h w = (case j_next J h w of (ret, w1) \<Rightarrow>
     sint ret = 0 \<and> \<not> flag_get flag w1 \<and> 0 \<le> sint (fst (j_wait J h 1000000 w1)))"

definition journal_turn :: "('h, 'w) sdjournal \<Rightarrow> 'h \<Rightarrow> 'w \<Rightarrow> 'w" where
  "journal_turn J h w = snd (j_wait J h 1000000 (snd (j_next J h w)))"

lemma journal_loop_turn: "journal_idle J flag h w \<Longrightarrow> journal_loop J flag h w = journal_loop J flag h (journal_turn J h w)"
  by (subst journal_loop.simps) (auto simp: journal_idle_def journal_turn_def split_beta Let_def)

lemma journal_loop_now: "\<not> journal_idle J flag h w \<Longrightarrow> journal_loop J flag h w \<noteq> None"
  by (subst journal_loop.simps) (auto simp: journal_idle_def split_beta Let_def)

lemma journal_loop_some:
  assumes "journal_loop J flag h w = Some r"
  shows "\<exists>n. \<not> journal_idle J flag h ((journal_turn J h ^^ n) w)"
proof (rule journal_loop.raw_induct
    [where P = "\<lambda>J flag h w r. \<exists>n. \<not> journal_idle J flag h ((journal_turn J h ^^ n) w)", OF _ assms],
    goal_cases)
  case (1 loop J flag h w r)
  show ?case
  proof (cases "journal_idle J flag h w")
    case True
    then have "loop J flag h (journal_turn J h w) = Some r"
      using 1(2) by (auto simp: journal_idle_def journal_turn_def split_beta Let_def)
    then obtain n where "\<not> journal_idle J flag h ((journal_turn J h ^^ n) (journal_turn J h w))" using 1(1) by blast
    then have "\<not> journal_idle J flag h ((journal_turn J h ^^ Suc n) w)" by (simp add: funpow_swap1)
    then show ?thesis by blast
  next
    case False
    then show ?thesis by (intro exI [of _ 0]) simp
  qed
qed

lemma journal_loop_returns:
  "\<not> journal_idle J flag h ((journal_turn J h ^^ n) w) \<Longrightarrow> journal_loop J flag h w \<noteq> None"
proof (induction n arbitrary: w)
  case 0
  then show ?case using journal_loop_now [of J flag h w] by simp
next
  case (Suc n)
  then have "\<not> journal_idle J flag h ((journal_turn J h ^^ n) (journal_turn J h w))" by (simp add: funpow_swap1)
  from Suc.IH [OF this] show ?case
    using journal_loop_turn [of J flag h w] journal_loop_now [of J flag h w]
    by (cases "journal_idle J flag h w") simp_all
qed

text \<open>C30. \<open>JournalCollector::readEvent\<close> returns exactly when some turn of its loop finds an entry, a
  failed call or the request to stop; as long as every turn only waits it blocks, however often
  the wait times out. A request to stop is seen in the turn that follows it, at the latest.\<close>

theorem journal_read_returns_iff:
  "(\<exists>r. JournalCollector_readEvent J flag junk c w = Some r) \<longleftrightarrow>
     (\<exists>n. \<not> journal_idle J flag (jc_journal c) ((journal_turn J (jc_journal c) ^^ n) w))"
proof -
  have "(\<exists>r. JournalCollector_readEvent J flag junk c w = Some r) \<longleftrightarrow>
      (\<exists>r. journal_loop J flag (jc_journal c) w = Some r)"
    by (auto simp: JournalCollector_readEvent_def Let_def split: option.splits bool.splits)
  then show ?thesis
    using journal_loop_some [of J flag "jc_journal c" w] journal_loop_returns [of J flag "jc_journal c" _ w]
    by (metis not_None_eq)
qed

text \<open>Once the stop was requested, a reader of the journal still gets every entry that is
  pending, one event per entry, in order and with the \<open>MESSAGE=\<close> prefix removed (empty when the
  entry has no message), and then the end of the stream: no entry is lost or repeated.\<close>

lemma journal_drained:
  assumes "journal_law J flag (jc_journal c) pending" and "flag_get flag w"
  shows "\<exists>es w'. read_all (JournalCollector_readEvent J flag junk c) w = Some (es, w') \<and>
    map ev_msg es = map message_of (pending w) \<and> set (map ev_unit es) \<subseteq> {jc_unit c}"
  by (rule journal.read_all_messages) (use assms in simp)

text \<open>A journal of three entries.\<close>

definition list_journal :: "(unit, journal_entry option \<times> journal_entry list) sdjournal" where
  "list_journal = \<lparr>j_open = (\<lambda>w. (0, (), w)), j_flush_matches = (\<lambda>_ w. w), j_add_match = (\<lambda>_ _ w. w),
     j_add_disjunction = (\<lambda>_ w. w), j_seek_tail = (\<lambda>_ w. w), j_previous = (\<lambda>_ w. w),
     j_next = (\<lambda>_ w. case w of (cur, []) \<Rightarrow> (0, (cur, [])) | (cur, e # es) \<Rightarrow> (1, (Some e, es))),
     j_wait = (\<lambda>_ _ w. (0, w)),
     j_realtime = (\<lambda>_ w. case w of (Some e, _) \<Rightarrow> fst e | (None, _) \<Rightarrow> None),
     j_data = (\<lambda>_ _ w. case w of (Some e, _) \<Rightarrow> map_option ((@) ''MESSAGE='') (snd e) | (None, _) \<Rightarrow> None),
     j_close = (\<lambda>_ w. w)\<rparr>"

lemma journal_drained_example:
  "\<exists>es w'. read_all (JournalCollector_readEvent list_journal \<lparr>flag_get = \<lambda>_. True, flag_set = \<lambda>_ w. w\<rparr> 0
       \<lparr>jc_unit = ''ptp4l'', jc_journal = ()\<rparr>)
       (None, [(Some 5, Some ''one''), (None, None), (Some 9, Some ''two'')]) = Some (es, w') \<and>
     map ev_msg es = [''one'', [], ''two'']"
proof -
  have "journal_law list_journal \<lparr>flag_get = \<lambda>_. True, flag_set = \<lambda>_ w. w\<rparr> () snd"
    by (auto simp: journal_law_def list_journal_def split: list.splits)
  from journal_drained [of list_journal "\<lparr>flag_get = \<lambda>_. True, flag_set = \<lambda>_ w. w\<rparr>"
      "\<lparr>jc_unit = ''ptp4l'', jc_journal = ()\<rparr>" snd, simplified, OF this, where junk = 0 and
      w = "(None, [(Some 5, Some ''one''), (None, None), (Some 9, Some ''two'')])"]
  show ?thesis by (auto simp: message_of_def)
qed

subsection \<open>The output of a process\<close>

text \<open>\<open>std::getline\<close> on the pipe: the lines that are still written to it, then the end of the file when
  every process that has the other end closes it (\<open>eof\<close>), and otherwise a wait for ever.\<close>

definition process_law :: "('p, 'w) process_lib \<Rightarrow> 'p \<Rightarrow> ('w \<Rightarrow> string list) \<Rightarrow> ('w \<Rightarrow> bool) \<Rightarrow> bool" where
  "process_law P child lines eof \<longleftrightarrow> (\<forall>w. case lines w of
     [] \<Rightarrow> if eof w then \<exists>w'. bp_getline P child w = Some (None, w') else bp_getline P child w = None
   | l # ls \<Rightarrow> \<exists>w'. bp_getline P child w = Some (Some l, w') \<and> lines w' = ls \<and> eof w' = eof w)"

lemma process_law_line:
  assumes "process_law P child lines eof" and "lines w = l # ls"
  shows "\<exists>w'. bp_getline P child w = Some (Some l, w') \<and> lines w' = ls \<and> eof w' = eof w"
  using assms(1) [unfolded process_law_def, rule_format, of w] assms(2) by simp

lemma process_law_end:
  assumes "process_law P child lines eof" and "lines w = []"
  shows "eof w \<Longrightarrow> \<exists>w'. bp_getline P child w = Some (None, w')" and "\<not> eof w \<Longrightarrow> bp_getline P child w = None"
  using assms(1) [unfolded process_law_def, rule_format, of w] assms(2) by simp_all

text \<open>The output ends for the reader when the pipe is closed, or with an empty line.\<close>

abbreviation output_ends :: "('w \<Rightarrow> string list) \<Rightarrow> ('w \<Rightarrow> bool) \<Rightarrow> 'w \<Rightarrow> bool" where
  "output_ends lines eof w \<equiv> eof w \<or> [] \<in> set (lines w)"

interpretation subprocess: event_source "SubprocessCollector_readEvent P c" "sc_unit c"
  "\<lambda>w. process_law P (sc_child c) lines eof \<and> output_ends lines eof w" "\<lambda>w. takeWhile (\<lambda>l. l \<noteq> []) (lines w)"
  for P c lines eof
proof
  fix w m ms
  assume law: "process_law P (sc_child c) lines eof \<and> output_ends lines eof w"
    and m: "takeWhile (\<lambda>l. l \<noteq> []) (lines w) = m # ms"
  then obtain ls where l: "lines w = m # ls" "m \<noteq> []" "ms = takeWhile (\<lambda>l. l \<noteq> []) ls"
    by (cases "lines w") (auto split: if_splits)
  obtain w' where "bp_getline P (sc_child c) w = Some (Some m, w')" "lines w' = ls" "eof w' = eof w"
    using process_law_line [of P "sc_child c" lines eof w] law l(1) by blast
  then show "\<exists>ts w'. SubprocessCollector_readEvent P c w =
      Some (Some \<lparr>ts_usec = ts, ev_unit = sc_unit c, ev_msg = m\<rparr>, w') \<and>
      (process_law P (sc_child c) lines eof \<and> output_ends lines eof w') \<and> takeWhile (\<lambda>l. l \<noteq> []) (lines w') = ms"
    using law l by (simp add: SubprocessCollector_readEvent_def Let_def)
next
  fix w
  assume law: "process_law P (sc_child c) lines eof \<and> output_ends lines eof w"
    and "takeWhile (\<lambda>l. l \<noteq> []) (lines w) = []"
  then consider "lines w = []" | ls where "lines w = [] # ls" by (cases "lines w") (auto split: if_splits)
  then show "\<exists>w'. SubprocessCollector_readEvent P c w = Some (None, w')"
  proof cases
    case 1
    with law obtain w' where "bp_getline P (sc_child c) w = Some (None, w')"
      using process_law_end(1) [of P "sc_child c" lines eof w] by auto
    then show ?thesis by (simp add: SubprocessCollector_readEvent_def)
  next
    case 2
    with law obtain w' where "bp_getline P (sc_child c) w = Some (Some [], w')"
      using process_law_line [of P "sc_child c" lines eof w] by blast
    then show ?thesis by (simp add: SubprocessCollector_readEvent_def)
  qed
qed

text \<open>A reader of a subprocess gets the lines up to the first empty line and nothing after it:
  an empty line is taken for the end of the stream, although the process goes on writing.\<close>

lemma subprocess_ends_at_empty_line:
  assumes "process_law P (sc_child c) lines eof" and "output_ends lines eof w"
  shows "\<exists>es w'. read_all (SubprocessCollector_readEvent P c) w = Some (es, w') \<and>
    map ev_msg es = takeWhile (\<lambda>l. l \<noteq> []) (lines w) \<and> set (map ev_unit es) \<subseteq> {sc_unit c}"
  by (rule subprocess.read_all_messages [OF conjI [OF assms]])

text \<open>\<open>stop\<close> terminates the child only: while another process keeps the pipe open and writes nothing, a
  read goes on waiting.\<close>

lemma stopped_reader_waits:
  assumes "process_law P (sc_child c) lines eof" and "lines (SubprocessCollector_stop P c w) = []"
    and "\<not> eof (SubprocessCollector_stop P c w)"
  shows "SubprocessCollector_readEvent P c (SubprocessCollector_stop P c w) = None"
  using process_law_end(2) [OF assms] by (simp add: SubprocessCollector_readEvent_def)

text \<open>A pipe that stays open, read when everything was written.\<close>

definition list_process :: "(unit, string list) process_lib" where
  "list_process = \<lparr>bp_child = (\<lambda>_ _ w. (Inr (), w)), bp_running = (\<lambda>_ w. (True, w)),
     bp_terminate = (\<lambda>_ w. w), bp_wait = (\<lambda>_ w. w),
     bp_getline = (\<lambda>_ w. case w of [] \<Rightarrow> None | l # ls \<Rightarrow> Some (Some l, ls)), bp_now = (\<lambda>_. 0)\<rparr>"

lemma list_process_law: "process_law list_process () (\<lambda>w. w) (\<lambda>_. False)"
  by (auto simp: process_law_def list_process_def split: list.splits)

lemma subprocess_ends_at_empty_line_example:
  "\<exists>es w'. read_all (SubprocessCollector_readEvent list_process
       \<lparr>sc_unit = ''ppswatch'', sc_child = ()\<rparr>) [''a'', ''b'', [], ''c''] = Some (es, w') \<and>
     map ev_msg es = [''a'', ''b'']"
  using subprocess_ends_at_empty_line [of list_process "\<lparr>sc_unit = ''ppswatch'', sc_child = ()\<rparr>" "\<lambda>w. w"
      "\<lambda>_. False" "[''a'', ''b'', [], ''c'']"] list_process_law by fastforce

end
