(* ===== verification/Agent_Handlers.thy ===== *)
theory Agent_Handlers
  imports Parser_Theorems Sys_Metrics Ptp_Topology Config_Loader Adapter_Zmq Nic_Resolver Collector_Sources
begin

text \<open>
  The agent's state, constructor and message handlers (\<open>src/agent.cpp\<close>, \<open>include/agent.h\<close>). In every
  branch the only use of the adapter is the last statement, under the mutex: a handler is therefore
  split into \<open>prepare\<close>, which runs without the lock and says what is sent, and the locked send.
\<close>

section \<open>State\<close>

text \<open>What the agent is linked with: the adapter, whose sends may block (nothing) until the world has
  changed, what the other end of the socket may do to the world, the network and PCI calls, the
  way to run a program, the conversion of doubles too large for \<open>llround\<close>. \<open>l_stop k\<close> is \<open>stop\<close> of the
  \<open>k\<close>-th collector, \<open>l_ended k\<close> says that its \<open>readEvent\<close> returns without an event once it has given those it
  has, instead of waiting for more: the two classes of collectors provide them.\<close>

record 'x libs =
  l_send :: "metric \<Rightarrow> string \<Rightarrow> 'x \<Rightarrow> ((exn + bool) \<times> 'x) option"
  l_peer :: "'x \<Rightarrow> 'x \<Rightarrow> bool"
  l_stop :: "nat \<Rightarrow> 'x \<Rightarrow> 'x"
  l_ended :: "nat \<Rightarrow> 'x \<Rightarrow> bool"
  l_net :: "'x netdev"
  l_pci :: "'x pcilib"
  l_spawn :: "'x spawner"
  l_big :: "dbl \<Rightarrow> i64"

text \<open>\<open>node_\<close>, \<open>sysMetricsCollector_\<close>, \<open>ptpTopologyCollector_\<close>, \<open>pollTimeoutMs_\<close>; the files and
  descriptors; the rest of the world.\<close>

record 'x agent =
  node :: string
  sysMetricsCollector :: SysMetricsCollector
  topologyConfig :: PtpTopologyConfig
  pollTimeoutMs :: i32
  ag_os :: os
  ag_ext :: 'x

definition Agent_new ::
    "((string \<times> string) list \<Rightarrow> (string \<times> string) list) \<Rightarrow> AgentConfig \<Rightarrow> os \<Rightarrow> 'x \<Rightarrow> (exn + 'x agent) \<times> os" where
  "Agent_new order config w x =
     (case SysMetricsCollector_new order (temperature_sensors config) SystemPaths_default w of
        (Inl e, w') \<Rightarrow> (Inl e, w')
      | (Inr sys, w') \<Rightarrow> (Inr \<lparr>node = global_node config, sysMetricsCollector = sys,
            topologyConfig = configPtpTopology config, pollTimeoutMs = poll_timeout_ms (monitorConfig config),
            ag_os = w', ag_ext = x\<rparr>, w'))"

section \<open>Handlers\<close>

text \<open>The body of \<open>if (portEvent->portName.find('/') == npos)\<close>.\<close>

definition watch_interface :: "'x libs \<Rightarrow> PortEvent \<Rightarrow> 'x agent \<Rightarrow> PortEvent \<times> 'x agent" where
  "watch_interface L portEvent a =
     (let (sys, w) = SysMetricsCollector_setInterface (pe_portName portEvent) (sysMetricsCollector a) (ag_os a);
          (name, x) = resolve (l_net L) (l_pci L) (pe_portName portEvent) (ag_ext a)
      in (portEvent\<lparr>pe_adapterName := name\<rparr>, a\<lparr>sysMetricsCollector := sys, ag_os := w, ag_ext := x\<rparr>))"

text \<open>\<open>now\<close>: the reading of the clock when the topology is parsed.\<close>

definition ptp4l_prepare :: "'x libs \<Rightarrow> i64 \<Rightarrow> CollectorEvent \<Rightarrow> 'x agent \<Rightarrow> metric option \<times> 'x agent" where
  "ptp4l_prepare L now event a =
     (case Ptp4l_parseMetrics (ev_msg event) of
        Some metrics \<Rightarrow>
          (Some (MPtp4l (metrics\<lparr>ptp_timestamp_us := ts_usec event, ptp_unit := ev_unit event\<rparr>)), a)
      | None \<Rightarrow>
     (case Ptp4l_parsePortEvent (ev_msg event) of
        Some portEvent \<Rightarrow>
          let portEvent = portEvent\<lparr>pe_timestamp_us := ts_usec event, pe_unit := ev_unit event\<rparr>;
              (portEvent, a) = (if CHR ''/'' \<notin> set (pe_portName portEvent) then watch_interface L portEvent a
                else (portEvent, a))
          in (Some (MPortEvent portEvent), a)
      | None \<Rightarrow>
     (case Ptp4l_parseForeignMasterEvent (ev_msg event) of
        Some foreignMaster \<Rightarrow> (None, a)
      | None \<Rightarrow>
     (case Ptp4l_parseBestMasterEvent (ev_msg event) of
        Some bestMaster \<Rightarrow>
          if PtpTopologyCollector_enabled (topologyConfig a) then
            (case PtpTopologyCollector_collect (l_spawn L) (l_big L) now (topologyConfig a) (ag_ext a) of
               (Some snapshot, x) \<Rightarrow> (Some (MTopology snapshot), a\<lparr>ag_ext := x\<rparr>)
             | (None, x) \<Rightarrow> (None, a\<lparr>ag_ext := x\<rparr>))
          else (None, a)
      | None \<Rightarrow> (None, a)))))"

definition phc2sys_prepare :: "CollectorEvent \<Rightarrow> metric option" where
  "phc2sys_prepare event =
     (case Phc2Sys_parseMetrics (ev_msg event) of
        Some metrics \<Rightarrow>
          Some (MPhc2Sys (metrics\<lparr>phc_timestamp_us := ts_usec event, phc_unit := ev_unit event\<rparr>))
      | None \<Rightarrow> if Phc2Sys_isWaiting (ev_msg event) then None else None)"

definition ppswatch_prepare :: "u64 \<Rightarrow> CollectorEvent \<Rightarrow> metric option" where
  "ppswatch_prepare junk event =
     (case PPS_parseMetrics junk (ev_msg event) of
        Some metrics \<Rightarrow>
          Some (MPps (metrics\<lparr>pps_timestamp_us := ts_usec event, pps_unit := ev_unit event\<rparr>))
      | None \<Rightarrow> None)"

text \<open>\<open>buildHandlers\<close>: the handler of a collector, if it has one. The clock and the uninitialised
  time stamp are the two readings of a call.\<close>

type_synonym 'x prepare = "i64 \<times> u64 \<Rightarrow> CollectorEvent \<Rightarrow> 'x agent \<Rightarrow> metric option \<times> 'x agent"

definition buildHandlers :: "'x libs \<Rightarrow> string \<Rightarrow> 'x prepare option" where
  "buildHandlers L name =
     (if name = ''ptp4l'' then Some (\<lambda>(now, junk). ptp4l_prepare L now)
      else if name = ''phc2sys'' then Some (\<lambda>_ event a. (phc2sys_prepare event, a))
      else if name = ''ppswatch'' then Some (\<lambda>(now, junk) event a. (ppswatch_prepare junk event, a))
      else None)"

text \<open>\<open>{ std::lock_guard lock(adapterMutex_); adapter.send_...(metric, node); }\<close>: the result is
  ignored. Nothing while it blocks.\<close>

definition locked_send :: "'x libs \<Rightarrow> metric \<Rightarrow> 'x agent \<Rightarrow> ((exn + unit) \<times> 'x agent) option" where
  "locked_send L m a = (case l_send L m (node a) (ag_ext a) of
     None \<Rightarrow> None
   | Some (Inl e, x) \<Rightarrow> Some (Inl e, a\<lparr>ag_ext := x\<rparr>)
   | Some (Inr _, x) \<Rightarrow> Some (Inr (), a\<lparr>ag_ext := x\<rparr>))"

text \<open>A call of a handler, when no other thread is there and the other end of the socket does nothing
  meanwhile: nothing when it never returns.\<close>

definition handle :: "'x libs \<Rightarrow> 'x prepare \<Rightarrow> u64 \<times> u64 \<Rightarrow> CollectorEvent \<Rightarrow> 'x agent \<Rightarrow> ((exn + unit) \<times> 'x agent) option" where
  "handle L prep r event a = (case prep r event a of
     (None, a') \<Rightarrow> Some (Inr (), a')
   | (Some m, a') \<Rightarrow> locked_send L m a')"

section \<open>The periodic sample\<close>

text \<open>The body of \<open>sysMetricsLoop\<close> before the send: \<open>collect\<close> stamps the snapshot, the loop stamps it
  again.\<close>

definition sys_prepare :: "i64 \<times> i64 \<Rightarrow> 'x agent \<Rightarrow> metric \<times> 'x agent" where
  "sys_prepare r a =
     (let (sysMetrics, sys) = SysMetricsCollector_collect (fst r) (sysMetricsCollector a) (ag_os a)
      in (MSys (sysMetrics\<lparr>ss_timestamp_us := now_us (snd r)\<rparr>), a\<lparr>sysMetricsCollector := sys\<rparr>))"

section \<open>What the handlers send\<close>

lemma phc2sys_prepare_none: "Phc2Sys_parseMetrics (ev_msg event) = None \<Longrightarrow> phc2sys_prepare event = None"
  by (simp add: phc2sys_prepare_def)

text \<open>C12. A \<open>ptp4l\<close> process is followed faithfully, line by line: an offset line becomes one
  sample with the printed values, the time stamp and the unit of the event; a port transition on
  a port that is an interface becomes one event that carries the resolved adapter name, and the
  interface is watched from then on; on a port that is a path it is sent as it is and the watched
  interface stays; a foreign master sends nothing; a new best master sends the topology
  exactly when its collection is enabled and succeeds.\<close>

theorem ptp4l_lines_handled:
  assumes "is_word src" and "hd src \<noteq> CHR ''r''" and "port_fields_ok port from_st to_st trigger"
    and "foreign_fields_ok fport clock" and "is_word best"
  shows
    "ptp4l_prepare L now \<lparr>ts_usec = t, ev_unit = u, ev_msg = ptp4l_offset_line (stamp i j) src p1 off st p2 freq p3 delay\<rparr> a =
       (Some (MPtp4l \<lparr>ptp_unit = u, ptp_timestamp_us = t, ptp_offset = off, ptp_freq = freq,
          ptp_path_delay = delay, ptp_state = st\<rparr>), a) \<and>
     (case ptp4l_prepare L now \<lparr>ts_usec = t, ev_unit = u, ev_msg = port_event_line (stamp i j) n port from_st to_st trigger\<rparr> a of
        (m, a') \<Rightarrow>
          m = Some (MPortEvent \<lparr>pe_unit = u, pe_timestamp_us = t, pe_portNumber = n, pe_portName = port,
            pe_adapterName = (if CHR ''/'' \<in> set port then [] else fst (resolve (l_net L) (l_pci L) port (ag_ext a))),
            pe_fromState = from_st, pe_toState = to_st, pe_trigger = trigger\<rparr>) \<and>
          net_interface (networkCollector (sysMetricsCollector a')) =
            (if CHR ''/'' \<in> set port then net_interface (networkCollector (sysMetricsCollector a)) else port)) \<and>
     ptp4l_prepare L now \<lparr>ts_usec = t, ev_unit = u, ev_msg = foreign_master_line (stamp i j) n fport clock q\<rparr> a = (None, a) \<and>
     (\<forall>line \<in> {best_master_line (stamp i j) best, local_master_line (stamp i j) best}.
        fst (ptp4l_prepare L now \<lparr>ts_usec = t, ev_unit = u, ev_msg = line\<rparr> a) =
          (if topology_on (topologyConfig a)
           then map_option MTopology (fst (PtpTopologyCollector_collect (l_spawn L) (l_big L) now (topologyConfig a) (ag_ext a)))
           else None))"
proof (intro conjI)
  note masters = parse_master_lines [OF assms(4,5), of i j n q]
  show "ptp4l_prepare L now \<lparr>ts_usec = t, ev_unit = u, ev_msg = ptp4l_offset_line (stamp i j) src p1 off st p2 freq p3 delay\<rparr> a =
       (Some (MPtp4l \<lparr>ptp_unit = u, ptp_timestamp_us = t, ptp_offset = off, ptp_freq = freq,
          ptp_path_delay = delay, ptp_state = st\<rparr>), a)"
    by (simp add: ptp4l_prepare_def parse_ptp4l_offset_line [OF assms(1,2)] Ptp4lStats_init_def)
  show "ptp4l_prepare L now \<lparr>ts_usec = t, ev_unit = u, ev_msg = foreign_master_line (stamp i j) n fport clock q\<rparr> a = (None, a)"
    using masters by (simp add: ptp4l_prepare_def)
  show "\<forall>line \<in> {best_master_line (stamp i j) best, local_master_line (stamp i j) best}.
        fst (ptp4l_prepare L now \<lparr>ts_usec = t, ev_unit = u, ev_msg = line\<rparr> a) =
          (if topology_on (topologyConfig a)
           then map_option MTopology (fst (PtpTopologyCollector_collect (l_spawn L) (l_big L) now (topologyConfig a) (ag_ext a)))
           else None)"
    using masters by (auto simp: ptp4l_prepare_def PtpTopologyCollector_enabled_def split: prod.splits option.splits)
qed (auto simp: ptp4l_prepare_def parse_port_event_line [OF assms(3)] PortEvent_init_def watch_interface_def
    SysMetricsCollector_setInterface_def NetworkCollector_setInterface_def split_beta Let_def)

text \<open>An agent on a host without network access and with an empty file system.\<close>

definition offline :: nic_outcome where
  "offline = \<lparr>o_socket = - 1, o_bus_info = None, o_alloc = False, o_dev = False, o_fill = 0,
     o_ident = (0, 0, 0), o_vendor = [], o_device = []\<rparr>"

definition offline_libs :: "nic_call list libs" where
  "offline_libs = \<lparr>l_send = (\<lambda>_ _ w. Some (Inr True, w)), l_peer = (\<lambda>_ _. False), l_stop = (\<lambda>_ w. w),
     l_ended = (\<lambda>_ _. True), l_net = run_net offline, l_pci = run_pci offline, l_spawn = (\<lambda>_ _ w. (Inr ([], 1), w)), l_big = (\<lambda>_. 0)\<rparr>"

definition empty_os :: os where
  "empty_os = \<lparr>os_files = Map.empty, os_dirs = Map.empty, os_present = (\<lambda>_. False), os_fds = []\<rparr>"

definition offline_agent :: "nic_call list agent" where
  "offline_agent = \<lparr>node = ''node'', sysMetricsCollector = \<lparr>temperatureCollector = [],
       networkCollector = NetworkCollector_new ''/sys/class/net'', cpuCollector = \<lparr>procStat = [], cpu_fd = - 1,
       prevIdle = 0, prevTotal = 0\<rparr>, memoryCollector = \<lparr>procMeminfo = [], mem_fd = - 1\<rparr>\<rparr>,
     topologyConfig = PtpTopologyConfig_init, pollTimeoutMs = 1000, ag_os = empty_os, ag_ext = []\<rparr>"

lemma offline_resolve: "resolve (run_net offline) (run_pci offline) name w = ([], w @ [Socket False])"
  by (simp add: resolve_def getBusInfo_closes run_net_def offline_def)

theorem ptp4l_lines_handled_witness:
  "case ptp4l_prepare offline_libs 0 \<lparr>ts_usec = 17, ev_unit = ''ptp4l'',
       ev_msg = port_event_line (stamp 12 5) 1 ''eth1'' ''LISTENING'' ''SLAVE'' ''RS_SLAVE''\<rparr> offline_agent of
     (m, a') \<Rightarrow> m = Some (MPortEvent \<lparr>pe_unit = ''ptp4l'', pe_timestamp_us = 17, pe_portNumber = 1,
         pe_portName = ''eth1'', pe_adapterName = [], pe_fromState = ''LISTENING'', pe_toState = ''SLAVE'',
         pe_trigger = ''RS_SLAVE''\<rparr>) \<and> net_interface (networkCollector (sysMetricsCollector a')) = ''eth1''"
proof -
  have w: "is_word ''master''" "is_word ''c4''" "port_fields_ok ''eth1'' ''LISTENING'' ''SLAVE'' ''RS_SLAVE''"
      "foreign_fields_ok ''eth1'' ''e0d4e8.fffe.f3965e''"
    by (simp_all add: is_word_def port_fields_ok_def foreign_fields_ok_def is_name_def)
  have l: "resolve (l_net offline_libs) (l_pci offline_libs) n x = ([], x @ [Socket False])" for n x
    by (simp add: offline_libs_def offline_resolve)
  show ?thesis
    using ptp4l_lines_handled [OF w(1) _ w(3,4) w(2), where L = offline_libs and a = offline_agent and t = 17
        and u = "''ptp4l''" and i = 12 and j = 5 and n = 1 and now = 0]
    by (simp add: l split_beta)
qed

section \<open>What the handlers keep\<close>

text \<open>The invariant of the agent: the descriptors of the metric collectors are their own.\<close>

definition agent_inv :: "'x agent \<Rightarrow> bool" where
  "agent_inv a \<longleftrightarrow> sys_inv (sysMetricsCollector a) (ag_os a)"

text \<open>The part of the agent that no handler changes.\<close>

definition fixed_part :: "'x agent \<Rightarrow> string \<times> PtpTopologyConfig \<times> i32 \<times> TempZone list \<times> (int \<Rightarrow> string option)" where
  "fixed_part a = (node a, topologyConfig a, pollTimeoutMs a, temperatureCollector (sysMetricsCollector a),
     outside (sysMetricsCollector a) (ag_os a))"

lemma watch_interface_keeps:
  assumes "agent_inv a" and "watch_interface L e a = (e', a')"
  shows "agent_inv a'" and "fixed_part a' = fixed_part a"
proof -
  obtain sys w where s: "SysMetricsCollector_setInterface (pe_portName e) (sysMetricsCollector a) (ag_os a) = (sys, w)"
    by fastforce
  have t: "temperatureCollector sys = temperatureCollector (sysMetricsCollector a)"
    using s by (auto simp: SysMetricsCollector_setInterface_def split: prod.splits)
  show "agent_inv a'" "fixed_part a' = fixed_part a"
    using assms setInterface_sys_inv [OF _ s] t
    by (auto simp: agent_inv_def fixed_part_def watch_interface_def s split: prod.splits)
qed

lemma ptp4l_prepare_keeps:
  assumes "agent_inv a" and "ptp4l_prepare L now event a = (m, a')"
  shows "agent_inv a' \<and> fixed_part a' = fixed_part a"
proof -
  have x: "agent_inv (a\<lparr>ag_ext := x\<rparr>)" "fixed_part (a\<lparr>ag_ext := x\<rparr>) = fixed_part a" for x
    using assms(1) by (simp_all add: agent_inv_def fixed_part_def)
  show ?thesis
    using assms(2) watch_interface_keeps [OF assms(1)] x assms(1)
    by (auto simp: ptp4l_prepare_def Let_def split: option.splits if_splits prod.splits)
qed

lemma prepare_keeps:
  assumes "buildHandlers L name = Some prep" and "agent_inv a" and "prep r event a = (m, a')"
  shows "agent_inv a' \<and> fixed_part a' = fixed_part a"
  using assms ptp4l_prepare_keeps [OF assms(2), of L "fst r" event m a']
  by (auto simp: buildHandlers_def split: if_splits prod.splits)

lemma sys_prepare_keeps:
  assumes "agent_inv a" and "sys_prepare r a = (m, a')"
  shows "agent_inv a' \<and> fixed_part a' = fixed_part a"
  using assms collect_owned [of "fst r" "sysMetricsCollector a" "ag_os a"]
  by (auto simp: sys_prepare_def agent_inv_def fixed_part_def sys_inv_def outside_def collect_groups)

lemma locked_send_keeps:
  assumes "agent_inv a" and "locked_send L m a = Some (r, a')"
  shows "agent_inv a' \<and> fixed_part a' = fixed_part a"
  using assms by (auto simp: locked_send_def agent_inv_def fixed_part_def split: option.splits prod.splits sum.splits)

text \<open>The members that no statement of a thread writes.\<close>

definition settings_of :: "'x agent \<Rightarrow> string \<times> PtpTopologyConfig \<times> i32 \<times> TempZone list" where
  "settings_of a = (node a, topologyConfig a, pollTimeoutMs a, temperatureCollector (sysMetricsCollector a))"

lemma watch_interface_settings: "watch_interface L e a = (e', a') \<Longrightarrow> settings_of a' = settings_of a"
  by (auto simp: watch_interface_def settings_of_def SysMetricsCollector_setInterface_def Let_def split: prod.splits)

lemma prepare_settings:
  assumes "buildHandlers L name = Some prep" and "prep r event a = (m, a')"
  shows "settings_of a' = settings_of a"
proof -
  have x: "settings_of (a\<lparr>ag_ext := x\<rparr>) = settings_of a" for x by (simp add: settings_of_def)
  show ?thesis
    using assms watch_interface_settings x
    by (auto simp: buildHandlers_def ptp4l_prepare_def Let_def split: option.splits if_splits prod.splits)
qed

lemma sys_prepare_settings: "sys_prepare r a = (m, a') \<Longrightarrow> settings_of a' = settings_of a"
  by (auto simp: sys_prepare_def settings_of_def collect_groups)

lemma locked_send_settings: "locked_send L m a = Some (r, a') \<Longrightarrow> settings_of a' = settings_of a"
  by (auto simp: locked_send_def settings_of_def split: option.splits prod.splits sum.splits)

lemma locked_send_none: "locked_send L m a = None \<longleftrightarrow> l_send L m (node a) (ag_ext a) = None"
  by (auto simp: locked_send_def split: option.split prod.split sum.split)

end
