(* ===== verification/Agent_Threads.thy ===== *)
theory Agent_Threads
  imports Agent_Handlers
begin

text \<open>
  The threads of the agent (\<open>src/agent.cpp\<close>): \<open>run\<close>, \<open>readerLoop\<close>, \<open>sysMetricsLoop\<close> and \<open>stop\<close> as one
  step relation. Every thread has a program counter; thread \<open>i\<close> reads collector \<open>i\<close>, the last one is
  \<open>sysMetricsThread_\<close>. A handler runs in two parts, \<open>prepare\<close> and the send under the mutex, so that
  threads interleave between them. A send that blocks is a step that cannot be made until the other
  end of the socket has made room, a read of a collector without an event one that waits for the next
  event or the end of the source. An exception that leaves a thread ends the program.
\<close>

section \<open>State\<close>

datatype pc =
    NotStarted
  | AtWhile
  | AtRead
  | AtPrepare CollectorEvent
  | AtSleep
  | AtRecheck
  | AtCollect
  | AtLock metric
  | AtSend metric
  | AtUnlock
  | Finished

datatype main_pc = Starting | Spawning nat | Joining nat | JoiningSys | Returned

text \<open>\<open>stopper\<close>: the loop index of a call of \<open>stop\<close> that is under way. \<open>sources\<close>: for each collector the
  events it has for its reader and whether \<open>readEvent\<close> returns without an event when there is none left. \<open>sent\<close>: the
  messages given to the adapter so far, with the thread.\<close>

record 'x agent_state =
  running :: bool
  mutex :: "nat option"
  threads :: "pc list"
  main_at :: main_pc
  stopper :: "nat option"
  sources :: "(CollectorEvent list \<times> bool) list"
  the_agent :: "'x agent"
  sent :: "(nat \<times> metric) list"
  crashed :: "exn option"

definition initial :: "string list \<Rightarrow> 'x agent \<Rightarrow> 'x agent_state" where
  "initial names a = \<lparr>running = False, mutex = None, threads = replicate (Suc (length names)) NotStarted,
     main_at = Starting, stopper = None, sources = replicate (length names) ([], False),
     the_agent = a, sent = [], crashed = None\<rparr>"

definition pc_is :: "nat \<Rightarrow> pc \<Rightarrow> 'x agent_state \<Rightarrow> bool" where
  "pc_is t p s \<longleftrightarrow> t < length (threads s) \<and> threads s ! t = p"

definition goto :: "nat \<Rightarrow> pc \<Rightarrow> 'x agent_state \<Rightarrow> 'x agent_state" where
  "goto t p s = s\<lparr>threads := (threads s)[t := p]\<rparr>"

section \<open>Steps\<close>

text \<open>\<open>run\<close>: the flag is set, a thread is started for every collector with a handler, then the system
  thread; the readers are joined in order, the flag is cleared and the system thread is joined.\<close>

inductive run_step :: "'x libs \<Rightarrow> string list \<Rightarrow> 'x agent_state \<Rightarrow> 'x agent_state \<Rightarrow> bool"
  for L names where
  run_start: "main_at s = Starting \<Longrightarrow> run_step L names s (s\<lparr>running := True, main_at := Spawning 0\<rparr>)"
| run_spawn: "main_at s = Spawning k \<Longrightarrow> k < length names \<Longrightarrow>
    run_step L names s (goto k (if buildHandlers L (names ! k) = None then NotStarted else AtWhile)
      (s\<lparr>main_at := Spawning (Suc k)\<rparr>))"
| run_spawn_sys: "main_at s = Spawning (length names) \<Longrightarrow>
    run_step L names s (goto (length names) AtWhile (s\<lparr>main_at := Joining 0\<rparr>))"
| run_join: "main_at s = Joining k \<Longrightarrow> k < length names \<Longrightarrow> pc_is k Finished s \<or> pc_is k NotStarted s \<Longrightarrow>
    run_step L names s (s\<lparr>main_at := Joining (Suc k)\<rparr>)"
| run_clear: "main_at s = Joining (length names) \<Longrightarrow>
    run_step L names s (s\<lparr>running := False, main_at := JoiningSys\<rparr>)"
| run_return: "main_at s = JoiningSys \<Longrightarrow> pc_is (length names) Finished s \<Longrightarrow>
    run_step L names s (s\<lparr>main_at := Returned\<rparr>)"

text \<open>One step of thread \<open>t\<close>.\<close>

inductive thread_step :: "'x libs \<Rightarrow> string list \<Rightarrow> nat \<Rightarrow> 'x agent_state \<Rightarrow> 'x agent_state \<Rightarrow> bool"
  for L names t where
  th_while: "pc_is t AtWhile s \<Longrightarrow> thread_step L names t s
      (goto t (if \<not> running s then Finished else if t < length names then AtRead else AtSleep) s)"
| th_event: "pc_is t AtRead s \<Longrightarrow> t < length names \<Longrightarrow> sources s ! t = (e # es, b) \<Longrightarrow>
    thread_step L names t s (goto t (AtPrepare e) (s\<lparr>sources := (sources s)[t := (es, b)]\<rparr>))"
| th_end: "pc_is t AtRead s \<Longrightarrow> t < length names \<Longrightarrow> sources s ! t = ([], True) \<Longrightarrow>
    thread_step L names t s (goto t Finished s)"
| th_prepare: "pc_is t (AtPrepare e) s \<Longrightarrow> t < length names \<Longrightarrow> buildHandlers L (names ! t) = Some prep \<Longrightarrow>
    prep r e (the_agent s) = (m, a) \<Longrightarrow>
    thread_step L names t s (goto t (case m of Some x \<Rightarrow> AtLock x | None \<Rightarrow> AtWhile) (s\<lparr>the_agent := a\<rparr>))"
| th_sleep: "pc_is t AtSleep s \<Longrightarrow> thread_step L names t s (goto t AtRecheck s)"
| th_recheck: "pc_is t AtRecheck s \<Longrightarrow>
    thread_step L names t s (goto t (if running s then AtCollect else Finished) s)"
| th_collect: "pc_is t AtCollect s \<Longrightarrow> sys_prepare r (the_agent s) = (m, a) \<Longrightarrow>
    thread_step L names t s (goto t (AtLock m) (s\<lparr>the_agent := a\<rparr>))"
| th_lock: "pc_is t (AtLock m) s \<Longrightarrow> mutex s = None \<Longrightarrow>
    thread_step L names t s (goto t (AtSend m) (s\<lparr>mutex := Some t\<rparr>))"
| th_send: "pc_is t (AtSend m) s \<Longrightarrow> locked_send L m (the_agent s) = Some (Inr (), a) \<Longrightarrow>
    thread_step L names t s (goto t AtUnlock (s\<lparr>the_agent := a, sent := sent s @ [(t, m)]\<rparr>))"
| th_crash: "pc_is t (AtSend m) s \<Longrightarrow> locked_send L m (the_agent s) = Some (Inl e, a) \<Longrightarrow>
    thread_step L names t s (s\<lparr>the_agent := a, crashed := Some e\<rparr>)"
| th_unlock: "pc_is t AtUnlock s \<Longrightarrow> thread_step L names t s (goto t AtWhile (s\<lparr>mutex := None\<rparr>))"

text \<open>\<open>collector->stop()\<close> of the \<open>k\<close>-th collector: the world changes as this collector changes it, and its
  source has ended when that makes \<open>readEvent\<close> return.\<close>

definition stop_one :: "'x libs \<Rightarrow> nat \<Rightarrow> 'x agent_state \<Rightarrow> 'x agent_state" where
  "stop_one L k s =
     (let x = l_stop L k (ag_ext (the_agent s))
      in s\<lparr>the_agent := (the_agent s)\<lparr>ag_ext := x\<rparr>,
           sources := (sources s)[k := (fst (sources s ! k), snd (sources s ! k) \<or> l_ended L k x)]\<rparr>)"

text \<open>\<open>stop\<close>, called by the signal handler, and what happens outside: events arrive, sources end (a pipe is
  closed, a call of the journal fails), the other end of the socket takes messages.\<close>

inductive outside_step :: "'x libs \<Rightarrow> string list \<Rightarrow> 'x agent_state \<Rightarrow> 'x agent_state \<Rightarrow> bool"
  for L names where
  stop_flag: "stopper s = None \<Longrightarrow> outside_step L names s (s\<lparr>running := False, stopper := Some 0\<rparr>)"
| stop_collector: "stopper s = Some k \<Longrightarrow> k < length names \<Longrightarrow>
    outside_step L names s ((stop_one L k s)\<lparr>stopper := Some (Suc k)\<rparr>)"
| stop_done: "stopper s = Some (length names) \<Longrightarrow> outside_step L names s (s\<lparr>stopper := None\<rparr>)"
| arrival: "k < length names \<Longrightarrow> sources s ! k = (es, b) \<Longrightarrow>
    outside_step L names s (s\<lparr>sources := (sources s)[k := (es @ [e], b)]\<rparr>)"
| source_ends: "k < length names \<Longrightarrow>
    outside_step L names s (s\<lparr>sources := (sources s)[k := (fst (sources s ! k), True)]\<rparr>)"
| peer_acts: "l_peer L (ag_ext (the_agent s)) x \<Longrightarrow>
    outside_step L names s (s\<lparr>the_agent := (the_agent s)\<lparr>ag_ext := x\<rparr>\<rparr>)"

inductive_cases run_stepE: "run_step L names s s'"
inductive_cases thread_stepE: "thread_step L names t s s'"
inductive_cases outside_stepE: "outside_step L names s s'"

text \<open>An execution, with the number of steps of \<open>run\<close> and of the threads; nothing moves after a crash.\<close>

inductive exec :: "'x libs \<Rightarrow> string list \<Rightarrow> nat \<Rightarrow> 'x agent_state \<Rightarrow> 'x agent_state \<Rightarrow> bool"
  for L names where
  ex_refl: "exec L names 0 s s"
| ex_run: "exec L names n s s1 \<Longrightarrow> crashed s1 = None \<Longrightarrow> run_step L names s1 s2 \<Longrightarrow> exec L names (Suc n) s s2"
| ex_thread: "exec L names n s s1 \<Longrightarrow> crashed s1 = None \<Longrightarrow> t \<le> length names \<Longrightarrow> thread_step L names t s1 s2 \<Longrightarrow>
    exec L names (Suc n) s s2"
| ex_outside: "exec L names n s s1 \<Longrightarrow> crashed s1 = None \<Longrightarrow> outside_step L names s1 s2 \<Longrightarrow> exec L names n s s2"

section \<open>Invariants of the threads\<close>

fun holding :: "pc \<Rightarrow> bool" where
  "holding (AtSend _) = True"
| "holding AtUnlock = True"
| "holding _ = False"

text \<open>A reader is never in a statement of the other loop, and it runs only with a handler.\<close>

fun allowed :: "bool \<Rightarrow> bool \<Rightarrow> pc \<Rightarrow> bool" where
  "allowed reader handler NotStarted = True"
| "allowed reader handler AtRead = (reader \<and> handler)"
| "allowed reader handler (AtPrepare _) = (reader \<and> handler)"
| "allowed reader handler AtSleep = (\<not> reader)"
| "allowed reader handler AtRecheck = (\<not> reader)"
| "allowed reader handler AtCollect = (\<not> reader)"
| "allowed reader handler _ = (reader \<longrightarrow> handler)"

definition stopped :: "pc \<Rightarrow> bool" where
  "stopped p \<longleftrightarrow> p = NotStarted \<or> p = Finished"

text \<open>What \<open>run\<close> has done so far.\<close>

fun main_ok :: "nat \<Rightarrow> pc list \<Rightarrow> main_pc \<Rightarrow> bool" where
  "main_ok n ts Starting = (\<forall>t \<le> n. ts ! t = NotStarted)"
| "main_ok n ts (Spawning k) = (k \<le> n \<and> (\<forall>t \<le> n. k \<le> t \<longrightarrow> ts ! t = NotStarted))"
| "main_ok n ts (Joining k) = (k \<le> n \<and> (\<forall>t < k. stopped (ts ! t)) \<and> ts ! n \<noteq> NotStarted)"
| "main_ok n ts JoiningSys = ((\<forall>t < n. stopped (ts ! t)) \<and> ts ! n \<noteq> NotStarted)"
| "main_ok n ts Returned = (\<forall>t \<le> n. stopped (ts ! t))"

definition lock_ok :: "nat \<Rightarrow> pc list \<Rightarrow> nat option \<Rightarrow> bool" where
  "lock_ok n ts mx \<longleftrightarrow> (\<forall>t \<le> n. holding (ts ! t) \<longleftrightarrow> mx = Some t) \<and> (\<forall>t. mx = Some t \<longrightarrow> t \<le> n)"

definition kind_ok :: "'x libs \<Rightarrow> string list \<Rightarrow> nat \<Rightarrow> pc \<Rightarrow> bool" where
  "kind_ok L names t p \<longleftrightarrow>
     allowed (t < length names) (t < length names \<and> buildHandlers L (names ! t) \<noteq> None) p"

definition thread_inv :: "'x libs \<Rightarrow> string list \<Rightarrow> 'x agent_state \<Rightarrow> bool" where
  "thread_inv L names s \<longleftrightarrow>
     length (threads s) = Suc (length names) \<and> length (sources s) = length names \<and>
     lock_ok (length names) (threads s) (mutex s) \<and>
     (\<forall>t \<le> length names. kind_ok L names t (threads s ! t)) \<and>
     main_ok (length names) (threads s) (main_at s) \<and>
     (main_at s = JoiningSys \<or> main_at s = Returned \<longrightarrow> \<not> running s)"

lemma thread_inv_initial: "thread_inv L names (initial names a)"
  by (simp add: thread_inv_def initial_def lock_ok_def kind_ok_def del: replicate_Suc)

lemma lock_ok_update:
  assumes "lock_ok n ts mx" and "t \<le> n" and "length ts = Suc n"
  shows "holding p = holding (ts ! t) \<Longrightarrow> lock_ok n (ts[t := p]) mx"
    and "mx = None \<Longrightarrow> holding p \<Longrightarrow> lock_ok n (ts[t := p]) (Some t)"
    and "holding (ts ! t) \<Longrightarrow> \<not> holding p \<Longrightarrow> lock_ok n (ts[t := p]) None"
  using assms by (auto simp: lock_ok_def nth_list_update)

lemma kinds_update:
  assumes "\<forall>u \<le> n. kind_ok L names u (ts ! u)" and "kind_ok L names t p" and "t < length ts"
  shows "\<forall>u \<le> n. kind_ok L names u (ts[t := p] ! u)"
  using assms by (simp add: nth_list_update)

lemma main_ok_update:
  assumes "main_ok n ts m" and "t \<le> n" and "\<not> stopped (ts ! t)" and "p \<noteq> NotStarted" and "length ts = Suc n"
  shows "main_ok n (ts[t := p]) m"
proof -
  have "t = n \<or> t < n" using assms(2) by linarith
  then show ?thesis using assms by (cases m) (auto simp: nth_list_update stopped_def)
qed

text \<open>A thread moves from one statement to another, and takes or releases the lock if it must.\<close>

lemma goto_inv:
  assumes inv: "thread_inv L names s" and t: "t \<le> length names" and q: "pc_is t q s"
    and pq: "\<not> stopped q" "p \<noteq> NotStarted" "kind_ok L names t p"
    and lock: "holding p = holding q \<and> mutex s' = mutex s \<or> mutex s = None \<and> holding p \<and> mutex s' = Some t \<or>
      holding q \<and> \<not> holding p \<and> mutex s' = None"
    and same: "threads s' = threads s" "length (sources s') = length (sources s)" "main_at s' = main_at s"
      "running s' = running s"
  shows "thread_inv L names (goto t p s')"
proof -
  let ?n = "length names" and ?ts = "(threads s)[t := p]"
  have len: "length (threads s) = Suc ?n" and ts: "threads s ! t = q"
    using inv q by (simp_all add: thread_inv_def pc_is_def)
  have "lock_ok ?n (threads s) (mutex s)" using inv by (simp add: thread_inv_def)
  from lock_ok_update [OF this t len] lock ts have "lock_ok ?n ?ts (mutex s')" by metis
  moreover have "main_ok ?n ?ts (main_at s)"
    using inv t pq ts len by (intro main_ok_update) (simp_all add: thread_inv_def)
  moreover have "\<forall>u \<le> ?n. kind_ok L names u (?ts ! u)"
    using inv t pq len by (intro kinds_update) (simp_all add: thread_inv_def)
  ultimately show ?thesis using inv same by (simp add: thread_inv_def goto_def)
qed

lemma thread_inv_run:
  assumes "thread_inv L names s" and "run_step L names s s'"
  shows "thread_inv L names s'"
  using assms(2)
proof (cases rule: run_step.cases)
  case run_start
  then show ?thesis using assms(1) by (auto simp: thread_inv_def)
next
  case (run_spawn k)
  define p where "p = (if buildHandlers L (names ! k) = None then NotStarted else AtWhile)"
  have k: "threads s ! k = NotStarted" using assms(1) run_spawn by (simp add: thread_inv_def)
  have "kind_ok L names k p" "\<not> holding p" using run_spawn by (simp_all add: kind_ok_def p_def)
  have "\<forall>u \<le> length names. kind_ok L names u ((threads s)[k := p] ! u)"
    by (rule kinds_update) (use assms(1) run_spawn \<open>kind_ok L names k p\<close> in \<open>simp_all add: thread_inv_def\<close>)
  moreover have "lock_ok (length names) ((threads s)[k := p]) (mutex s)"
    by (rule lock_ok_update(1)) (use assms(1) run_spawn k \<open>\<not> holding p\<close> in \<open>simp_all add: thread_inv_def\<close>)
  ultimately show ?thesis using assms(1) run_spawn by (simp add: thread_inv_def goto_def p_def)
next
  case run_spawn_sys
  have k: "threads s ! length names = NotStarted" using assms(1) run_spawn_sys by (simp add: thread_inv_def)
  have "kind_ok L names (length names) AtWhile" by (simp add: kind_ok_def)
  then have "\<forall>u \<le> length names. kind_ok L names u ((threads s)[length names := AtWhile] ! u)"
    by (intro kinds_update) (use assms(1) in \<open>simp_all add: thread_inv_def\<close>)
  moreover have "lock_ok (length names) ((threads s)[length names := AtWhile]) (mutex s)"
    by (rule lock_ok_update(1)) (use assms(1) k in \<open>simp_all add: thread_inv_def\<close>)
  ultimately show ?thesis using assms(1) run_spawn_sys by (simp add: thread_inv_def goto_def)
next
  case (run_join k)
  then show ?thesis using assms(1) by (auto simp: thread_inv_def stopped_def less_Suc_eq pc_is_def)
next
  case run_clear
  then show ?thesis using assms(1) by (auto simp: thread_inv_def)
next
  case run_return
  then show ?thesis using assms(1) by (auto simp: thread_inv_def stopped_def pc_is_def le_less)
qed

lemma thread_inv_thread:
  assumes inv: "thread_inv L names s" and "thread_step L names t s s'" and t: "t \<le> length names"
  shows "thread_inv L names s'"
proof -
  have "kind_ok L names t (threads s ! t)" using inv t by (simp add: thread_inv_def)
  then have kind: "kind_ok L names t q" if "pc_is t q s" for q using that by (simp add: pc_is_def)
  show ?thesis
    using assms(2)
  proof (cases rule: thread_step.cases)
    case th_while
    show ?thesis using kind [OF th_while(2)] unfolding th_while(1)
      by (intro goto_inv [OF inv t th_while(2)]) (auto simp: stopped_def kind_ok_def)
  next
    case (th_event e es b)
    show ?thesis using kind [OF th_event(2)] unfolding th_event(1)
      by (intro goto_inv [OF inv t th_event(2)]) (auto simp: stopped_def kind_ok_def)
  next
    case th_end
    show ?thesis using kind [OF th_end(2)] unfolding th_end(1)
      by (intro goto_inv [OF inv t th_end(2)]) (auto simp: stopped_def kind_ok_def)
  next
    case (th_prepare e prep r m a)
    show ?thesis using th_prepare(3,4) unfolding th_prepare(1)
      by (intro goto_inv [OF inv t th_prepare(2)]) (auto simp: stopped_def kind_ok_def split: option.splits)
  next
    case th_sleep
    show ?thesis using kind [OF th_sleep(2)] unfolding th_sleep(1)
      by (intro goto_inv [OF inv t th_sleep(2)]) (auto simp: stopped_def kind_ok_def)
  next
    case th_recheck
    show ?thesis using kind [OF th_recheck(2)] unfolding th_recheck(1)
      by (intro goto_inv [OF inv t th_recheck(2)]) (auto simp: stopped_def kind_ok_def)
  next
    case (th_collect r m a)
    show ?thesis using kind [OF th_collect(2)] unfolding th_collect(1)
      by (intro goto_inv [OF inv t th_collect(2)]) (auto simp: stopped_def kind_ok_def)
  next
    case (th_lock m)
    show ?thesis using kind [OF th_lock(2)] th_lock(3) unfolding th_lock(1)
      by (intro goto_inv [OF inv t th_lock(2)]) (auto simp: stopped_def kind_ok_def)
  next
    case (th_send m a)
    show ?thesis using kind [OF th_send(2)] unfolding th_send(1)
      by (intro goto_inv [OF inv t th_send(2)]) (auto simp: stopped_def kind_ok_def)
  next
    case (th_crash m e a)
    then show ?thesis using inv by (simp add: thread_inv_def)
  next
    case th_unlock
    show ?thesis using kind [OF th_unlock(2)] unfolding th_unlock(1)
      by (intro goto_inv [OF inv t th_unlock(2)]) (auto simp: stopped_def kind_ok_def)
  qed
qed

lemma thread_inv_outside:
  assumes "thread_inv L names s" and "outside_step L names s s'"
  shows "thread_inv L names s'"
  using assms(2,1) by (cases rule: outside_step.cases) (auto simp: thread_inv_def stop_one_def Let_def)

lemma thread_inv_exec:
  "exec L names n s s' \<Longrightarrow> thread_inv L names s \<Longrightarrow> thread_inv L names s'"
proof (induction rule: exec.induct)
  case (ex_run n s s1 s2)
  then show ?case using thread_inv_run by blast
next
  case (ex_thread n s s1 t s2)
  then show ?case using thread_inv_thread by blast
next
  case (ex_outside n s s1 s2)
  then show ?case using thread_inv_outside by blast
qed

text \<open>The agent itself, whatever the interleaving.\<close>

lemma agent_run: "run_step L names s s' \<Longrightarrow> the_agent s' = the_agent s"
  by (cases rule: run_step.cases) (auto simp: goto_def)

lemma agent_outside:
  "outside_step L names s s' \<Longrightarrow> the_agent s' = the_agent s \<or>
     (\<exists>x. (l_peer L (ag_ext (the_agent s)) x \<or> (\<exists>k < length names. x = l_stop L k (ag_ext (the_agent s)))) \<and>
        the_agent s' = (the_agent s)\<lparr>ag_ext := x\<rparr>)"
  by (cases rule: outside_step.cases) (auto simp: stop_one_def Let_def)

lemma same_outside:
  "outside_step L names s s' \<Longrightarrow> threads s' = threads s \<and> mutex s' = mutex s \<and> main_at s' = main_at s \<and>
     sent s' = sent s \<and> crashed s' = crashed s"
  by (cases rule: outside_step.cases) (auto simp: stop_one_def Let_def)

lemma agent_thread:
  assumes "thread_step L names t s s'" and "agent_inv (the_agent s)"
  shows "agent_inv (the_agent s') \<and> fixed_part (the_agent s') = fixed_part (the_agent s)"
  using assms(1)
proof (cases rule: thread_step.cases)
  case (th_prepare e prep r m a)
  then show ?thesis using prepare_keeps [OF th_prepare(4) assms(2) th_prepare(5)] by (simp add: goto_def)
next
  case (th_collect r m a)
  then show ?thesis using sys_prepare_keeps [OF assms(2) th_collect(3)] by (simp add: goto_def)
next
  case (th_send m a)
  then show ?thesis using locked_send_keeps [OF assms(2) th_send(3)] by (simp add: goto_def)
next
  case (th_crash m e a)
  then show ?thesis using locked_send_keeps [OF assms(2) th_crash(3)] by simp
qed (use assms(2) in \<open>simp_all add: goto_def\<close>)

lemma agent_exec:
  "exec L names n s s' \<Longrightarrow> agent_inv (the_agent s) \<Longrightarrow>
     agent_inv (the_agent s') \<and> fixed_part (the_agent s') = fixed_part (the_agent s)"
proof (induction rule: exec.induct)
  case (ex_thread n s s1 t s2)
  then show ?case using agent_thread by metis
next
  case (ex_outside n s s1 s2)
  then show ?case using agent_outside [OF ex_outside.hyps(3)] by (auto simp: agent_inv_def fixed_part_def)
qed (simp_all add: agent_run)

section \<open>Mutual exclusion and the end of \<open>run\<close>\<close>

lemma settings_exec: "exec L names n s s' \<Longrightarrow> settings_of (the_agent s') = settings_of (the_agent s)"
proof (induction rule: exec.induct)
  case (ex_thread n s s1 t s2)
  from ex_thread.hyps(4) have "settings_of (the_agent s2) = settings_of (the_agent s1)"
    by (cases rule: thread_step.cases)
      (auto simp: goto_def dest: prepare_settings sys_prepare_settings locked_send_settings)
  with ex_thread.IH show ?case by simp
next
  case (ex_outside n s s1 s2)
  then show ?case using agent_outside [OF ex_outside.hyps(3)] by (auto simp: settings_of_def)
qed (simp_all add: agent_run)

text \<open>C10. Whatever the interleaving of the threads, of \<open>stop\<close> and of the sources: at most one thread
  is inside the critical section, namely the one that holds the adapter's mutex; only it gives a
  message to the adapter or fails in doing so, and it still holds the mutex then; and no thread ever
  writes the node name, the topology settings, the poll interval or the temperature zones, which all
  of them read without a lock.\<close>

theorem threads_exclude_each_other:
  assumes "exec L names n (initial names a) s"
  shows "(\<forall>t u. t \<le> length names \<and> u \<le> length names \<and> holding (threads s ! t) \<and> holding (threads s ! u) \<longrightarrow>
      t = u \<and> mutex s = Some t) \<and>
    (mutex s = None \<longrightarrow> (\<forall>t \<le> length names. \<not> holding (threads s ! t))) \<and>
    (\<forall>t s'. t \<le> length names \<and> thread_step L names t s s' \<and> (sent s' \<noteq> sent s \<or> crashed s' \<noteq> crashed s) \<longrightarrow>
      mutex s = Some t \<and> mutex s' = Some t) \<and>
    settings_of (the_agent s) = settings_of a"
proof -
  have lock: "lock_ok (length names) (threads s) (mutex s)"
    using thread_inv_exec [OF assms thread_inv_initial] by (simp add: thread_inv_def)
  have sends: "mutex s = Some t \<and> mutex s' = Some t"
    if t: "t \<le> length names" and step: "thread_step L names t s s'"
      and new: "sent s' \<noteq> sent s \<or> crashed s' \<noteq> crashed s" for t s'
  proof -
    from step new have "holding (threads s ! t) \<and> mutex s' = mutex s"
      by (cases rule: thread_step.cases) (auto simp: goto_def pc_is_def)
    then show ?thesis using lock t by (simp add: lock_ok_def)
  qed
  have "settings_of (the_agent s) = settings_of a" using settings_exec [OF assms] by (simp add: initial_def)
  with lock sends show ?thesis unfolding lock_ok_def by (metis option.distinct(1) option.inject)
qed

text \<open>C22. \<open>run\<close> returns only after every thread it started has finished, with the flag cleared and the
  mutex free; in particular no message is sent after \<open>run\<close> has returned.\<close>

theorem run_returns_last:
  assumes "exec L names n (initial names a) s" and "main_at s = Returned"
    and "exec L names m s s'"
  shows "(\<forall>t \<le> length names. stopped (threads s ! t)) \<and> \<not> running s \<and> mutex s = None \<and> sent s' = sent s"
proof -
  have inv: "thread_inv L names s" by (rule thread_inv_exec [OF assms(1) thread_inv_initial])
  then have finished: "\<forall>t \<le> length names. stopped (threads s ! t)" and "\<not> running s"
    and lock: "lock_ok (length names) (threads s) (mutex s)"
    using assms(2) by (auto simp: thread_inv_def)
  have "mutex s = None"
  proof (cases "mutex s")
    case (Some t)
    then have "t \<le> length names" "holding (threads s ! t)" using lock by (auto simp: lock_ok_def)
    with finished show ?thesis by (auto simp: stopped_def)
  qed
  moreover have "sent s' = sent s \<and> threads s' = threads s \<and> main_at s' = Returned"
    using assms(3,2) finished
  proof (induction rule: exec.induct)
    case (ex_run n s s1 s2)
    then show ?case by (auto elim: run_stepE)
  next
    case (ex_thread n s s1 t s2)
    then have "stopped (threads s1 ! t)" by simp
    with ex_thread.hyps(4) show ?case
      by (auto simp: pc_is_def stopped_def elim!: thread_stepE)
  next
    case (ex_outside n s s1 s2)
    then show ?case using same_outside [OF ex_outside.hyps(3)] by simp
  qed simp
  ultimately show ?thesis using finished \<open>\<not> running s\<close> by simp
qed

section \<open>Shutdown\<close>

text \<open>After \<open>run\<close> has set the flag nothing sets it again.\<close>

definition shutting_down :: "'x agent_state \<Rightarrow> bool" where
  "shutting_down s \<longleftrightarrow> \<not> running s \<and> main_at s \<noteq> Starting"

lemma shutting_down_run: "run_step L names s s' \<Longrightarrow> shutting_down s \<Longrightarrow> shutting_down s'"
  by (cases rule: run_step.cases) (auto simp: shutting_down_def goto_def)

lemma shutting_down_thread: "thread_step L names t s s' \<Longrightarrow> shutting_down s \<Longrightarrow> shutting_down s'"
  by (cases rule: thread_step.cases) (auto simp: shutting_down_def goto_def)

lemma shutting_down_outside: "outside_step L names s s' \<Longrightarrow> shutting_down s \<Longrightarrow> shutting_down s'"
  by (cases rule: outside_step.cases) (auto simp: shutting_down_def stop_one_def Let_def)

text \<open>How many messages a thread may still send when the flag is down.\<close>

fun may_send :: "pc \<Rightarrow> nat" where
  "may_send AtRead = 1"
| "may_send (AtPrepare _) = 1"
| "may_send AtCollect = 1"
| "may_send (AtLock _) = 1"
| "may_send (AtSend _) = 1"
| "may_send _ = 0"

definition sent_by :: "nat \<Rightarrow> 'x agent_state \<Rightarrow> nat" where
  "sent_by t s = count_list (map fst (sent s)) t"

lemma budget_thread:
  assumes "thread_step L names u s s'" and "shutting_down s" and "t < length (threads s)"
  shows "sent_by t s' + may_send (threads s' ! t) \<le> sent_by t s + may_send (threads s ! t)"
  using assms
  by (cases rule: thread_step.cases)
    (auto simp: shutting_down_def goto_def pc_is_def sent_by_def nth_list_update split: option.splits)

lemma budget_run:
  assumes "run_step L names s s'" and "shutting_down s" and "thread_inv L names s" and "t \<le> length names"
  shows "sent_by t s' + may_send (threads s' ! t) \<le> sent_by t s + may_send (threads s ! t)"
  using assms
  by (cases rule: run_step.cases)
    (auto simp: goto_def sent_by_def nth_list_update thread_inv_def)

lemma budget_exec:
  "exec L names n s s' \<Longrightarrow> shutting_down s \<Longrightarrow> thread_inv L names s \<Longrightarrow> t \<le> length names \<Longrightarrow>
     shutting_down s' \<and> thread_inv L names s' \<and>
     sent_by t s' + may_send (threads s' ! t) \<le> sent_by t s + may_send (threads s ! t)"
proof (induction rule: exec.induct)
  case (ex_run n s s1 s2)
  then show ?case
    using budget_run [OF ex_run.hyps(3), of t] shutting_down_run [OF ex_run.hyps(3)]
      thread_inv_run [OF _ ex_run.hyps(3)] by fastforce
next
  case (ex_thread n s s1 u s2)
  then have "t < length (threads s1)" by (simp add: thread_inv_def)
  then show ?case
    using budget_thread [OF ex_thread.hyps(4), of t] shutting_down_thread [OF ex_thread.hyps(4)]
      thread_inv_thread [OF _ ex_thread.hyps(4,3)] ex_thread by fastforce
next
  case (ex_outside n s s1 s2)
  then have "threads s2 = threads s1" "sent s2 = sent s1" using same_outside [OF ex_outside.hyps(3)] by simp_all
  then show ?case using ex_outside shutting_down_outside [OF ex_outside.hyps(3)]
      thread_inv_outside [OF _ ex_outside.hyps(3)] by (simp add: sent_by_def)
qed simp

text \<open>C11. Once \<open>stop\<close> has cleared the flag of a running agent, each thread sends at most one more
  message, whatever events are still waiting or arrive.\<close>

theorem one_message_after_stop:
  assumes "exec L names n (initial names a) s" and "shutting_down s" and "exec L names m s s'"
    and "t \<le> length names"
  shows "sent_by t s' \<le> sent_by t s + 1"
proof -
  have "may_send p \<le> 1" for p by (cases p) simp_all
  then show ?thesis
    using budget_exec [OF assms(3,2) thread_inv_exec [OF assms(1) thread_inv_initial] assms(4)]
    by (meson add_le_cancel_left add_leD1 le_trans)
qed

text \<open>A measure of the work left when the flag is down.\<close>

fun pc_rank :: "pc \<Rightarrow> nat" where
  "pc_rank NotStarted = 0"
| "pc_rank Finished = 0"
| "pc_rank AtWhile = 1"
| "pc_rank AtUnlock = 2"
| "pc_rank (AtSend _) = 3"
| "pc_rank (AtLock _) = 4"
| "pc_rank (AtPrepare _) = 5"
| "pc_rank AtCollect = 5"
| "pc_rank AtRead = 6"
| "pc_rank AtRecheck = 6"
| "pc_rank AtSleep = 7"

fun main_rank :: "nat \<Rightarrow> main_pc \<Rightarrow> nat" where
  "main_rank n Starting = 0"
| "main_rank n (Spawning k) = 2 * (n - k) + n + 4"
| "main_rank n (Joining k) = (n - k) + 2"
| "main_rank n JoiningSys = 1"
| "main_rank n Returned = 0"

definition work_left :: "string list \<Rightarrow> 'x agent_state \<Rightarrow> nat" where
  "work_left names s = sum_list (map pc_rank (threads s)) + main_rank (length names) (main_at s) +
     (if crashed s = None then 1 else 0)"

lemma rank_update:
  "t < length ts \<Longrightarrow> sum_list (map pc_rank (ts[t := p])) + pc_rank (ts ! t) = sum_list (map pc_rank ts) + pc_rank p"
proof (induction ts arbitrary: t)
  case (Cons x ts)
  then show ?case by (cases t) auto
qed simp

lemma work_thread:
  assumes "thread_step L names t s s'" and "shutting_down s" and "crashed s = None"
  shows "work_left names s' < work_left names s"
proof -
  have goto: "work_left names (goto t p s1) < work_left names s"
    if "pc_is t q s" "pc_rank p < pc_rank q" "threads s1 = threads s" "main_at s1 = main_at s" "crashed s1 = None"
    for p q s1
    using that rank_update [of t "threads s" p] assms(3) by (simp add: work_left_def goto_def pc_is_def)
  show ?thesis
    using assms(1)
  proof (cases rule: thread_step.cases)
    case (th_crash m e a)
    then show ?thesis using assms(3) by (simp add: work_left_def)
  qed (use assms(2,3) in \<open>auto simp: shutting_down_def split: option.splits intro!: goto\<close>)
qed

lemma work_run:
  assumes "run_step L names s s'" and "shutting_down s" and "thread_inv L names s" and "crashed s = None"
  shows "work_left names s' < work_left names s"
  using assms(1)
proof (cases rule: run_step.cases)
  case (run_spawn k)
  have "k < length (threads s)" "threads s ! k = NotStarted" using run_spawn assms(3) by (simp_all add: thread_inv_def)
  then show ?thesis using rank_update [of k "threads s"] run_spawn assms(4)
    by (auto simp: work_left_def goto_def)
next
  case run_spawn_sys
  have "length names < length (threads s)" "threads s ! length names = NotStarted"
    using run_spawn_sys assms(3) by (simp_all add: thread_inv_def)
  then show ?thesis using rank_update [of "length names" "threads s" AtWhile] run_spawn_sys assms(4)
    by (simp add: work_left_def goto_def)
qed (use assms(2,4) in \<open>simp_all add: shutting_down_def work_left_def\<close>)

lemma work_exec:
  "exec L names m s s' \<Longrightarrow> shutting_down s \<Longrightarrow> thread_inv L names s \<Longrightarrow>
     shutting_down s' \<and> thread_inv L names s' \<and> m + work_left names s' \<le> work_left names s"
proof (induction rule: exec.induct)
  case (ex_run n s s1 s2)
  then show ?case
    using work_run [OF ex_run.hyps(3)] shutting_down_run [OF ex_run.hyps(3)] thread_inv_run [OF _ ex_run.hyps(3)]
    by fastforce
next
  case (ex_thread n s s1 u s2)
  then show ?case
    using work_thread [OF ex_thread.hyps(4)] shutting_down_thread [OF ex_thread.hyps(4)]
      thread_inv_thread [OF _ ex_thread.hyps(4,3)] by fastforce
next
  case (ex_outside n s s1 s2)
  then have "threads s2 = threads s1" "main_at s2 = main_at s1" "crashed s2 = crashed s1"
    using same_outside [OF ex_outside.hyps(3)] by simp_all
  then show ?case using ex_outside shutting_down_outside [OF ex_outside.hyps(3)]
      thread_inv_outside [OF _ ex_outside.hyps(3)] by (simp add: work_left_def)
qed simp

lemma work_bound:
  assumes "thread_inv L names s"
  shows "work_left names s \<le> 10 * length names + 12"
proof -
  have "sum_list (map pc_rank ts) \<le> 7 * length ts" for ts
  proof (induction ts)
    case (Cons p ts)
    have "pc_rank p \<le> 7" by (cases p) simp_all
    with Cons show ?case by simp
  qed simp
  from this [of "threads s"] have "sum_list (map pc_rank (threads s)) \<le> 7 * Suc (length names)"
    using assms by (simp add: thread_inv_def)
  moreover have "main_rank (length names) (main_at s) \<le> 3 * length names + 4" by (cases "main_at s") simp_all
  ultimately show ?thesis by (simp add: work_left_def)
qed

text \<open>A source that has ended stays so.\<close>

definition source_ended :: "nat \<Rightarrow> 'x agent_state \<Rightarrow> bool" where
  "source_ended k s \<longleftrightarrow> snd (sources s ! k)"

lemma ended_run: "run_step L names s s' \<Longrightarrow> source_ended k s \<Longrightarrow> source_ended k s'"
  by (cases rule: run_step.cases) (auto simp: source_ended_def goto_def)

lemma ended_update: "snd (xs ! k) \<Longrightarrow> (j = k \<Longrightarrow> snd v) \<Longrightarrow> snd (xs[j := v] ! k)"
  by (cases "j = k"; cases "k < length xs") (simp_all add: list_update_beyond)

lemma ended_thread: "thread_step L names t s s' \<Longrightarrow> source_ended k s \<Longrightarrow> source_ended k s'"
  by (cases rule: thread_step.cases) (auto simp: source_ended_def goto_def intro!: ended_update)

lemma ended_outside: "outside_step L names s s' \<Longrightarrow> source_ended k s \<Longrightarrow> source_ended k s'"
  by (cases rule: outside_step.cases) (auto simp: source_ended_def stop_one_def Let_def intro!: ended_update)

lemma ended_exec: "exec L names m s s' \<Longrightarrow> source_ended k s \<Longrightarrow> source_ended k s'"
proof (induction rule: exec.induct)
  case (ex_run n s s1 s2)
  then show ?case using ended_run by blast
next
  case (ex_thread n s s1 t s2)
  then show ?case using ended_thread by blast
next
  case (ex_outside n s s1 s2)
  then show ?case using ended_outside by blast
qed

text \<open>A reader waits for an event of a source that has not ended.\<close>

definition waits_in_read :: "nat \<Rightarrow> 'x agent_state \<Rightarrow> bool" where
  "waits_in_read t s \<longleftrightarrow> pc_is t AtRead s \<and> sources s ! t = ([], False)"

lemma ended_reads: "source_ended t s \<Longrightarrow> \<not> waits_in_read t s"
  by (auto simp: source_ended_def waits_in_read_def)

text \<open>A thread waits in a send that does not return.\<close>

definition waits_in_send :: "'x libs \<Rightarrow> string list \<Rightarrow> 'x agent_state \<Rightarrow> bool" where
  "waits_in_send L names s \<longleftrightarrow> (\<exists>t \<le> length names. \<exists>m. pc_is t (AtSend m) s \<and> locked_send L m (the_agent s) = None)"

text \<open>Otherwise some thread, or \<open>run\<close> itself, can move.\<close>

lemma thread_can_move:
  assumes "thread_inv L names s" and "\<not> waits_in_read t s" and "t \<le> length names" and "\<not> stopped (threads s ! t)"
    and "mutex s = None \<or> mutex s = Some t" and "\<not> waits_in_send L names s"
  shows "\<exists>s'. thread_step L names t s s'"
proof -
  have len: "t < length (threads s)" and kind: "kind_ok L names t (threads s ! t)"
    using assms(1,3) by (simp_all add: thread_inv_def)
  have lock: "holding (threads s ! t) \<longleftrightarrow> mutex s = Some t"
    using assms(1,3) by (simp add: thread_inv_def lock_ok_def)
  show ?thesis
  proof (cases "threads s ! t")
    case AtWhile
    then show ?thesis using len by (blast intro: th_while [unfolded pc_is_def])
  next
    case AtRead
    then have t: "t < length names" using kind by (simp add: kind_ok_def)
    obtain es b where src: "sources s ! t = (es, b)" by fastforce
    then have "es \<noteq> [] \<or> b" using assms(2) AtRead len by (auto simp: waits_in_read_def pc_is_def)
    then show ?thesis using AtRead len t src
      by (cases es) (auto intro: th_end [unfolded pc_is_def] th_event [unfolded pc_is_def])
  next
    case (AtPrepare e)
    then obtain prep where "t < length names" "buildHandlers L (names ! t) = Some prep"
      using kind by (auto simp: kind_ok_def)
    moreover obtain m a where "prep (0, 0) e (the_agent s) = (m, a)" by fastforce
    ultimately show ?thesis using AtPrepare len by (blast intro: th_prepare [unfolded pc_is_def])
  next
    case AtSleep
    then show ?thesis using len by (blast intro: th_sleep [unfolded pc_is_def])
  next
    case AtRecheck
    then show ?thesis using len by (blast intro: th_recheck [unfolded pc_is_def])
  next
    case AtCollect
    obtain m a where "sys_prepare (0, 0) (the_agent s) = (m, a)" by fastforce
    then show ?thesis using AtCollect len by (blast intro: th_collect [unfolded pc_is_def])
  next
    case (AtLock m)
    then have "mutex s = None" using lock assms(5) by auto
    then show ?thesis using AtLock len by (blast intro: th_lock [unfolded pc_is_def])
  next
    case (AtSend m)
    then have "locked_send L m (the_agent s) \<noteq> None"
      using assms(3,6) len by (auto simp: waits_in_send_def pc_is_def)
    then obtain r a where "locked_send L m (the_agent s) = Some (r, a)" by auto
    then show ?thesis using AtSend len
      by (cases r) (auto intro: th_send [unfolded pc_is_def] th_crash [unfolded pc_is_def])
  next
    case AtUnlock
    then show ?thesis using len by (blast intro: th_unlock [unfolded pc_is_def])
  qed (use assms(4) in \<open>simp_all add: stopped_def\<close>)
qed

lemma run_can_move:
  assumes "thread_inv L names s" and "\<forall>t \<le> length names. stopped (threads s ! t)" and "main_at s \<noteq> Returned"
  shows "\<exists>s'. run_step L names s s'"
proof -
  have len: "length (threads s) = Suc (length names)" using assms(1) by (simp add: thread_inv_def)
  have ok: "main_ok (length names) (threads s) (main_at s)" using assms(1) by (simp add: thread_inv_def)
  have st: "pc_is t Finished s \<or> pc_is t NotStarted s" if "t \<le> length names" for t
    using assms(2) that len by (auto simp: stopped_def pc_is_def)
  show ?thesis
  proof (cases "main_at s")
    case Starting
    then show ?thesis by (blast intro: run_start)
  next
    case (Spawning k)
    then show ?thesis using ok by (cases "k < length names") (auto intro: run_spawn run_spawn_sys)
  next
    case (Joining k)
    then show ?thesis using ok st [of k] by (cases "k < length names") (auto intro: run_join run_clear)
  next
    case JoiningSys
    then have "pc_is (length names) Finished s" using ok st [of "length names"] by (auto simp: pc_is_def)
    then show ?thesis using JoiningSys by (blast intro: run_return)
  qed (use assms(3) in simp)
qed

lemma can_move:
  assumes "thread_inv L names s" and "\<forall>t < length names. \<not> waits_in_read t s" and "main_at s \<noteq> Returned" and "\<not> waits_in_send L names s"
  shows "(\<exists>t \<le> length names. \<exists>s'. thread_step L names t s s') \<or> (\<exists>s'. run_step L names s s')"
proof (cases "\<forall>t \<le> length names. stopped (threads s ! t)")
  case True
  then show ?thesis using run_can_move [OF assms(1) True assms(3)] by blast
next
  case False
  have reads: "\<not> waits_in_read t s" if "t \<le> length names" for t
    using assms(1,2) that by (cases "t = length names") (auto simp: waits_in_read_def pc_is_def thread_inv_def kind_ok_def)
  from False obtain t where t: "t \<le> length names" "\<not> stopped (threads s ! t)" by blast
  show ?thesis
  proof (cases "mutex s")
    case None
    then show ?thesis using thread_can_move [OF assms(1) reads t] assms(4) t(1) by blast
  next
    case (Some u)
    then have "u \<le> length names" "holding (threads s ! u)" using assms(1) by (auto simp: thread_inv_def lock_ok_def)
    moreover from this(2) have "\<not> stopped (threads s ! u)" by (auto simp: stopped_def)
    ultimately show ?thesis using thread_can_move [OF assms(1) reads, of u] assms(4) Some by blast
  qed
qed

text \<open>The other end of the socket can make room at any time.\<close>

definition peer_reads :: "'x libs \<Rightarrow> bool" where
  "peer_reads L \<longleftrightarrow> (\<forall>x. \<exists>x'. l_peer L x x' \<and> (\<forall>m n. l_send L m n x' \<noteq> None))"

lemma peer_makes_room:
  assumes "peer_reads L" and "crashed s = None"
  shows "\<exists>x. exec L names 0 s (s\<lparr>the_agent := (the_agent s)\<lparr>ag_ext := x\<rparr>\<rparr>) \<and>
    \<not> waits_in_send L names (s\<lparr>the_agent := (the_agent s)\<lparr>ag_ext := x\<rparr>\<rparr>)"
proof -
  obtain x where x: "l_peer L (ag_ext (the_agent s)) x" "\<And>m n. l_send L m n x \<noteq> None"
    using assms(1) unfolding peer_reads_def by blast
  have "locked_send L m (a\<lparr>ag_ext := x\<rparr>) \<noteq> None" for m a
    using x(2) [of m "node a"] by (simp add: locked_send_none)
  with ex_outside [OF ex_refl assms(2) peer_acts [OF x(1)]] show ?thesis
    by (intro exI [of _ x]) (auto simp: waits_in_send_def)
qed

lemma exec_append: "exec L names n s1 s2 \<Longrightarrow> exec L names m s s1 \<Longrightarrow> exec L names (m + n) s s2"
  by (induction rule: exec.induct) (auto intro: exec.intros)

text \<open>Once the flag is down no execution is long, and some step is possible until \<open>run\<close> has returned, a
  send has thrown or a thread waits in a send or for an event. When the other end reads and all sources
  have ended, \<open>run\<close> can always go on to the point where it returns.\<close>

lemma shutdown_bound:
  assumes "thread_inv L names s" and "shutting_down s" and "exec L names m s s'"
  shows "m \<le> 10 * length names + 12"
  using work_exec [OF assms(3,2,1)] work_bound [OF assms(1)] by linarith

lemma shutdown_step:
  assumes "thread_inv L names s" and "exec L names m s s'"
  shows "main_at s' = Returned \<or> crashed s' \<noteq> None \<or> waits_in_send L names s' \<or>
    (\<exists>t < length names. waits_in_read t s') \<or> (\<exists>s''. exec L names (Suc m) s s'')"
  using can_move [OF thread_inv_exec [OF assms(2,1)]] ex_thread [OF assms(2)] ex_run [OF assms(2)]
  by blast

lemma shutdown_reached:
  assumes "peer_reads L" and "thread_inv L names s" and "shutting_down s"
    and "\<forall>k < length names. source_ended k s"
  shows "\<exists>m s'. exec L names m s s' \<and> (main_at s' = Returned \<or> crashed s' \<noteq> None)"
proof (rule ccontr)
  assume no: "\<not> ?thesis"
  have "\<exists>s'. exec L names m s s'" for m
  proof (induction m)
    case 0
    then show ?case using ex_refl by blast
  next
    case (Suc m)
    then obtain s1 where s1: "exec L names m s s1" by blast
    with no have "crashed s1 = None" by blast
    from peer_makes_room [OF assms(1) this] obtain s2 where "exec L names 0 s1 s2" and room: "\<not> waits_in_send L names s2"
      by blast
    from exec_append [OF this(1) s1] have e: "exec L names m s s2" by simp
    with assms(4) have "\<forall>k < length names. source_ended k s2" using ended_exec by blast
    with shutdown_step [OF assms(2) e] no room e ended_reads show ?case by blast
  qed
  then show False using shutdown_bound [OF assms(2,3), of "Suc (10 * length names + 12)"] by fastforce
qed

section \<open>A run that is stopped\<close>

text \<open>One collector: both threads are started, the signal arrives before their first event.\<close>

abbreviation one_name :: "string list" where "one_name \<equiv> [''ptp4l'']"

definition stop_run :: "'x agent \<Rightarrow> bool \<Rightarrow> pc list \<Rightarrow> main_pc \<Rightarrow> nat option \<Rightarrow> bool \<Rightarrow> 'x agent_state" where
  "stop_run a r ts m st ended = \<lparr>running = r, mutex = None, threads = ts, main_at = m, stopper = st,
     sources = [([], ended)], the_agent = a, sent = [], crashed = None\<rparr>"

lemma offline_agent_inv: "agent_inv offline_agent"
  by (simp add: agent_inv_def offline_agent_def sys_inv_def owned_def NetworkCollector_new_def)

lemma started: "exec L one_name 3 (initial one_name a) (stop_run a True [AtWhile, AtWhile] (Joining 0) None False)"
proof -
  let ?e = "exec L one_name"
  have "?e 0 (initial one_name a) (stop_run a False [NotStarted, NotStarted] Starting None False)"
    using ex_refl by (simp add: initial_def stop_run_def)
  from ex_run [OF this _ run_start]
  have "?e 1 (initial one_name a) (stop_run a True [NotStarted, NotStarted] (Spawning 0) None False)"
    by (simp add: stop_run_def)
  from ex_run [OF this _ run_spawn [of _ 0]]
  have "?e 2 (initial one_name a) (stop_run a True [AtWhile, NotStarted] (Spawning 1) None False)"
    by (simp add: stop_run_def goto_def buildHandlers_def numeral_2_eq_2)
  from ex_run [OF this _ run_spawn_sys]
  show ?thesis by (simp add: stop_run_def goto_def numeral_eq_Suc)
qed

abbreviation after_stop :: "'x libs \<Rightarrow> 'x agent \<Rightarrow> 'x agent" where
  "after_stop L a \<equiv> a\<lparr>ag_ext := l_stop L 0 (ag_ext a)\<rparr>"

abbreviation source_stopped :: "'x libs \<Rightarrow> 'x agent \<Rightarrow> bool" where
  "source_stopped L a \<equiv> l_ended L 0 (l_stop L 0 (ag_ext a))"

lemma stopped_run: "exec L one_name 3 (initial one_name a)
    (stop_run (after_stop L a) False [AtWhile, AtWhile] (Joining 0) (Some 1) (source_stopped L a))"
proof -
  from ex_outside [OF started _ stop_flag]
  have "exec L one_name 3 (initial one_name a) (stop_run a False [AtWhile, AtWhile] (Joining 0) (Some 0) False)"
    by (simp add: stop_run_def)
  from ex_outside [OF this _ stop_collector [of _ 0]] show ?thesis by (simp add: stop_run_def stop_one_def Let_def)
qed

lemma returned_run: "exec L one_name 8 (initial one_name a)
    (stop_run (after_stop L a) False [Finished, Finished] Returned (Some 1) (source_stopped L a))"
proof -
  let ?e = "exec L one_name" and
    ?s = "\<lambda>ts m. stop_run (after_stop L a) False ts m (Some 1) (source_stopped L a)"
  from ex_thread [OF stopped_run _ _ th_while [of 0]]
  have "?e 4 (initial one_name a) (?s [Finished, AtWhile] (Joining 0))"
    by (simp add: stop_run_def goto_def pc_is_def)
  from ex_run [OF this _ run_join [of _ 0]]
  have "?e 5 (initial one_name a) (?s [Finished, AtWhile] (Joining 1))"
    by (simp add: stop_run_def pc_is_def)
  from ex_run [OF this _ run_clear]
  have "?e 6 (initial one_name a) (?s [Finished, AtWhile] JoiningSys)"
    by (simp add: stop_run_def)
  from ex_thread [OF this _ _ th_while [of 1]]
  have "?e 7 (initial one_name a) (?s [Finished, Finished] JoiningSys)"
    by (simp add: stop_run_def goto_def pc_is_def)
  from ex_run [OF this _ run_return]
  show ?thesis by (simp add: stop_run_def pc_is_def)
qed

lemma stopped_run_down: "shutting_down (stop_run a False ts (Joining 0) st b)"
  by (simp add: shutting_down_def stop_run_def)

lemma offline_stop: "after_stop offline_libs a = a" "source_stopped offline_libs a = True"
  by (simp_all add: offline_libs_def)

text \<open>The system thread takes its first sample and is about to send it.\<close>

lemma sys_locked: "\<exists>m a'. exec L one_name 8 (initial one_name a)
    ((stop_run a' True [AtWhile, AtSend m] (Joining 0) None False)\<lparr>mutex := Some 1\<rparr>)"
proof -
  let ?e = "exec L one_name" and ?s = "\<lambda>p b. stop_run b True [AtWhile, p] (Joining 0) None False"
  obtain m a' where c: "sys_prepare (0, 0) a = (m, a')" by fastforce
  from ex_thread [OF started _ _ th_while [of 1]] have "?e 4 (initial one_name a) (?s AtSleep a)"
    by (simp add: stop_run_def goto_def pc_is_def)
  from ex_thread [OF this _ _ th_sleep [of 1]] have "?e 5 (initial one_name a) (?s AtRecheck a)"
    by (simp add: stop_run_def goto_def pc_is_def)
  from ex_thread [OF this _ _ th_recheck [of 1]] have "?e 6 (initial one_name a) (?s AtCollect a)"
    by (simp add: stop_run_def goto_def pc_is_def)
  from ex_thread [OF this _ _ th_collect [of 1 _ "(0, 0)" m a']] have "?e 7 (initial one_name a) (?s (AtLock m) a')"
    by (simp add: stop_run_def goto_def pc_is_def c)
  from ex_thread [OF this _ _ th_lock [of 1]] have "?e 8 (initial one_name a) ((?s (AtSend m) a')\<lparr>mutex := Some 1\<rparr>)"
    by (simp add: stop_run_def goto_def pc_is_def)
  then show ?thesis by blast
qed

theorem threads_exclude_each_other_witness:
  "\<exists>s m. exec offline_libs one_name 8 (initial one_name offline_agent) s \<and>
     threads s = [AtWhile, AtSend m] \<and> mutex s = Some 1 \<and> settings_of (the_agent s) = settings_of offline_agent"
proof -
  obtain m a' where e: "exec offline_libs one_name 8 (initial one_name offline_agent)
      ((stop_run a' True [AtWhile, AtSend m] (Joining 0) None False)\<lparr>mutex := Some 1\<rparr>)"
    using sys_locked by blast
  from threads_exclude_each_other [OF e] have "settings_of a' = settings_of offline_agent"
    by (simp add: stop_run_def)
  moreover let ?s = "(stop_run a' True [AtWhile, AtSend m] (Joining 0) None False)\<lparr>mutex := Some 1\<rparr>"
  have "threads ?s = [AtWhile, AtSend m] \<and> mutex ?s = Some 1 \<and> the_agent ?s = a'" by (simp add: stop_run_def)
  ultimately have "threads ?s = [AtWhile, AtSend m] \<and> mutex ?s = Some 1 \<and>
      settings_of (the_agent ?s) = settings_of offline_agent" by simp
  with e show ?thesis by blast
qed

theorem run_returns_last_witness:
  "main_at (stop_run offline_agent False [Finished, Finished] Returned (Some 1) True) = Returned \<and>
   \<not> running (stop_run offline_agent False [Finished, Finished] Returned (Some 1) True)"
  using run_returns_last [OF returned_run [of offline_libs, unfolded offline_stop] _ ex_refl]
  by (simp add: stop_run_def)

theorem one_message_after_stop_witness:
  "sent_by 0 (stop_run offline_agent False [AtWhile, AtWhile] (Joining 0) (Some 1) True) \<le> 1"
proof -
  have "sent_by 0 (stop_run offline_agent False ts m st b) = 0" for ts m st b by (simp add: sent_by_def stop_run_def)
  then show ?thesis
    using one_message_after_stop [OF stopped_run [of offline_libs, unfolded offline_stop] stopped_run_down ex_refl, of 0] by simp
qed

end
