(* ===== verification/Reader_Loop.thy ===== *)
theory Reader_Loop
  imports Agent_Handlers
begin

text \<open>
  \<open>Agent::readerLoop\<close> (\<open>src/agent.cpp\<close>) as one thread runs it: a collector, the flag \<open>running_\<close> and
  a handler. For every collector that keeps the contract of \<open>event_source\<close> the loop returns and
  gives the handler the messages of the collector in order.
\<close>

text \<open>The handler called for one event after the other; each event comes with the two readings of
  its call. Nothing when one of the calls never returns.\<close>

fun handle_all ::
    "'x libs \<Rightarrow> 'x prepare \<Rightarrow> ((u64 \<times> u64) \<times> CollectorEvent) list \<Rightarrow> 'x agent \<Rightarrow> ((exn + unit) \<times> 'x agent) option" where
  "handle_all L prep [] a = Some (Inr (), a)"
| "handle_all L prep ((r, e) # es) a =
     (case handle L prep r e a of
        None \<Rightarrow> None
      | Some (Inl ex, a1) \<Rightarrow> Some (Inl ex, a1)
      | Some (Inr _, a1) \<Rightarrow> handle_all L prep es a1)"

text \<open>The loop; \<open>running\<close> reads the flag, which other threads may change at any time, \<open>readings\<close> are the
  clock and the uninitialised time stamp of a handler call. Nothing when it never returns.\<close>

partial_function (option) readerLoop ::
    "('w \<Rightarrow> bool) \<Rightarrow> ('w \<Rightarrow> (CollectorEvent option \<times> 'w) option) \<Rightarrow> ('w \<Rightarrow> u64 \<times> u64) \<Rightarrow> 'x libs \<Rightarrow> 'x prepare \<Rightarrow>
     'w \<Rightarrow> 'x agent \<Rightarrow> ((exn + unit) \<times> 'w \<times> 'x agent) option" where
  "readerLoop running readEvent readings L prep w a =
     (if \<not> running w then Some (Inr (), w, a)
      else case readEvent w of
        None \<Rightarrow> None
      | Some (None, w1) \<Rightarrow> Some (Inr (), w1, a)
      | Some (Some e, w1) \<Rightarrow>
          (case handle L prep (readings w1) e a of
             None \<Rightarrow> None
           | Some (Inl ex, a1) \<Rightarrow> Some (Inl ex, w1, a1)
           | Some (Inr _, a1) \<Rightarrow> readerLoop running readEvent readings L prep w1 a1))"

lemma readerLoop_down: "\<not> running w \<Longrightarrow> readerLoop running readEvent readings L prep w a = Some (Inr (), w, a)"
  by (subst readerLoop.simps) simp

lemma readerLoop_end:
  "running w \<Longrightarrow> readEvent w = Some (None, w') \<Longrightarrow> readerLoop running readEvent readings L prep w a = Some (Inr (), w', a)"
  by (subst readerLoop.simps) simp

lemma readerLoop_event:
  "running w \<Longrightarrow> readEvent w = Some (Some e, w') \<Longrightarrow> handle L prep (readings w') e a = Some (r, a') \<Longrightarrow>
   readerLoop running readEvent readings L prep w a =
     (case r of Inl ex \<Rightarrow> Some (Inl ex, w', a') | Inr _ \<Rightarrow> readerLoop running readEvent readings L prep w' a')"
  by (subst readerLoop.simps) (simp split: sum.splits)

lemma readerLoop_stuck:
  "running w \<Longrightarrow> readEvent w = Some (Some e, w') \<Longrightarrow> handle L prep (readings w') e a = None \<Longrightarrow>
   readerLoop running readEvent readings L prep w a = None"
  by (subst readerLoop.simps) simp

text \<open>What the loop did: the events handled are events of the unit, their texts are the first of
  \<open>ms\<close>; all of them unless the flag was down or the handler threw.\<close>

definition handed :: "string \<Rightarrow> string list \<Rightarrow> bool \<Rightarrow> ((u64 \<times> u64) \<times> CollectorEvent) list \<Rightarrow> bool" where
  "handed u ms finished es \<longleftrightarrow> prefix (map (ev_msg \<circ> snd) es) ms \<and> set (map (ev_unit \<circ> snd) es) \<subseteq> {u} \<and>
     (finished \<longrightarrow> map (ev_msg \<circ> snd) es = ms)"

lemma handed_Nil: "handed u ms False []" "handed u [] b []"
  by (simp_all add: handed_def)

lemma handed_Cons: "handed u ms b es \<Longrightarrow> ev_msg e = m \<Longrightarrow> ev_unit e = u \<Longrightarrow> handed u (m # ms) b ((r, e) # es)"
  by (simp add: handed_def)

lemma handed_one: "ev_msg e = m \<Longrightarrow> ev_unit e = u \<Longrightarrow> handed u (m # ms) False [(r, e)]"
  by (simp add: handed_def)

text \<open>No send blocks for ever.\<close>

definition sends_return :: "'x libs \<Rightarrow> bool" where
  "sends_return L \<longleftrightarrow> (\<forall>m n x. l_send L m n x \<noteq> None)"

lemma handle_returns: "sends_return L \<Longrightarrow> handle L prep r e a \<noteq> None"
proof -
  assume "sends_return L"
  then have "l_send L m n x \<noteq> None" for m n x by (simp add: sends_return_def)
  then have "locked_send L m b \<noteq> None" for m b
    by (metis (no_types, lifting) locked_send_none)
  then show ?thesis by (cases "prep r e a") (simp add: handle_def split: option.split)
qed

lemma handle_all_returns: "sends_return L \<Longrightarrow> handle_all L prep es a \<noteq> None"
proof (induction es arbitrary: a)
  case (Cons x es)
  obtain r e where x: "x = (r, e)" by fastforce
  obtain res a1 where "handle L prep r e a = Some (res, a1)" using handle_returns [OF Cons.prems, of prep r e a] by auto
  then show ?case using Cons x by (cases res) simp_all
qed simp

text \<open>What the loop does of a source that is ended: what \<open>handle_all\<close> does of a list of events handed out.\<close>

definition loop_hands ::
    "string \<Rightarrow> string list \<Rightarrow> bool \<Rightarrow> 'x libs \<Rightarrow> 'x prepare \<Rightarrow> 'x agent \<Rightarrow> ((exn + unit) \<times> 'w \<times> 'x agent) option \<Rightarrow>
     ((u64 \<times> u64) \<times> CollectorEvent) list \<Rightarrow> bool" where
  "loop_hands u ms up L prep a res es \<longleftrightarrow> handle_all L prep es a = map_option (\<lambda>(r, w', a'). (r, a')) res \<and>
     handed u ms ((\<exists>w' a'. res = Some (Inr (), w', a')) \<and> up) es"

context event_source begin

lemma readerLoop_handles:
  assumes "ended w"
  shows "\<exists>es. loop_hands unit_name (messages w) (\<forall>v. running v) L prep a (readerLoop running read readings L prep w a) es"
  using assms
proof (induction "messages w" arbitrary: w a)
  case Nil
  have "\<exists>w'. readerLoop running read readings L prep w a = Some (Inr (), w', a)"
  proof (cases "running w")
    case True
    obtain w' where "read w = Some (None, w')" using read_last [OF Nil.prems] Nil.hyps by force
    then show ?thesis using True by (auto simp: readerLoop_end)
  qed (simp add: readerLoop_down)
  then show ?case using Nil.hyps by (intro exI [of _ "[]"]) (auto simp: loop_hands_def handed_Nil)
next
  case (Cons m ms)
  show ?case
  proof (cases "running w")
    case True
    obtain ts w1 where w1: "read w = Some (Some \<lparr>ts_usec = ts, ev_unit = unit_name, ev_msg = m\<rparr>, w1)"
        "ended w1" "messages w1 = ms"
      using read_next [OF Cons.prems] Cons.hyps(2) by metis
    let ?e = "\<lparr>ts_usec = ts, ev_unit = unit_name, ev_msg = m\<rparr>"
    have event: "readerLoop running read readings L prep w a = (case r of Inl ex \<Rightarrow> Some (Inl ex, w1, a1)
        | Inr _ \<Rightarrow> readerLoop running read readings L prep w1 a1)" if "handle L prep (readings w1) ?e a = Some (r, a1)" for r a1
      by (rule readerLoop_event) (use True w1(1) that in simp_all)
    consider "handle L prep (readings w1) ?e a = None"
      | ex a1 where "handle L prep (readings w1) ?e a = Some (Inl ex, a1)"
      | a1 where "handle L prep (readings w1) ?e a = Some (Inr (), a1)"
      by (cases "handle L prep (readings w1) ?e a") (auto split: sum.splits, metis obj_sumE old.unit.exhaust)
    then show ?thesis
    proof cases
      case 1
      moreover have "readerLoop running read readings L prep w a = None"
        by (rule readerLoop_stuck) (use True w1(1) 1 in simp_all)
      ultimately show ?thesis
        by (intro exI [of _ "[(readings w1, ?e)]"]) (simp add: loop_hands_def handed_one flip: Cons.hyps(2))
    next
      case 2
      then show ?thesis using event [OF 2]
        by (intro exI [of _ "[(readings w1, ?e)]"]) (simp add: loop_hands_def handed_one flip: Cons.hyps(2))
    next
      case 3
      obtain es where "loop_hands unit_name ms (\<forall>v. running v) L prep a1 (readerLoop running read readings L prep w1 a1) es"
        using Cons.hyps(1) [OF w1(3) [symmetric] w1(2), of a1] w1(3) by auto
      then show ?thesis using 3 event [OF 3]
        by (intro exI [of _ "(readings w1, ?e) # es"]) (simp add: loop_hands_def handed_Cons flip: Cons.hyps(2))
    qed
  next
    case False
    then have "readerLoop running read readings L prep w a = Some (Inr (), w, a)" by (rule readerLoop_down)
    moreover have "handed unit_name (messages w) (\<forall>v. running v) []" using False by (auto simp: handed_def)
    ultimately show ?thesis by (intro exI [of _ "[]"]) (simp add: loop_hands_def)
  qed
qed

end

lemma loop_hands_returns: "loop_hands u ms up L prep a res es \<Longrightarrow> sends_return L \<Longrightarrow> res \<noteq> None"
  using handle_all_returns [of L prep es a] by (auto simp: loop_hands_def)

section \<open>The two kinds of collectors\<close>

text \<open>C28. The reader thread of a collector ends: for a subprocess when its pipe is closed or an empty
  line comes, for a journal once the stop was requested, whatever other threads do to the flag;
  only a call of the handler that never returns, because its send blocks for ever, can keep it. Until
  then the handler gets the lines of the process, or the pending entries of the journal,
  one by one and in order: all of them, unless the flag was cleared or the handler threw.\<close>

theorem readerLoop_ends:
  assumes "process_law P (sc_child c) lines eof" and "output_ends lines eof w"
    and "journal_law J flag (jc_journal jc) pending" and "flag_get flag jw"
  shows "let res = readerLoop running (SubprocessCollector_readEvent P c) readings L prep w a;
      jres = readerLoop jrunning (JournalCollector_readEvent J flag junk jc) jreadings L prep jw a
    in (\<exists>es. loop_hands (sc_unit c) (takeWhile (\<lambda>l. l \<noteq> []) (lines w)) (\<forall>v. running v) L prep a res es) \<and>
       (\<exists>es. loop_hands (jc_unit jc) (map message_of (pending jw)) (\<forall>v. jrunning v) L prep a jres es) \<and>
       (sends_return L \<longrightarrow> res \<noteq> None \<and> jres \<noteq> None)"
proof -
  have 1: "\<exists>es. loop_hands (sc_unit c) (takeWhile (\<lambda>l. l \<noteq> []) (lines w)) (\<forall>v. running v) L prep a
      (readerLoop running (SubprocessCollector_readEvent P c) readings L prep w a) es"
    by (rule subprocess.readerLoop_handles [OF conjI [OF assms(1,2)]])
  have 2: "\<exists>es. loop_hands (jc_unit jc) (map message_of (pending jw)) (\<forall>v. jrunning v) L prep a
      (readerLoop jrunning (JournalCollector_readEvent J flag junk jc) jreadings L prep jw a) es"
    by (rule journal.readerLoop_handles [OF conjI [OF assms(3,4)]])
  from 1 2 show ?thesis unfolding Let_def using loop_hands_returns by metis
qed

theorem readerLoop_ends_witness:
  "(\<exists>es r w' a'. readerLoop (\<lambda>_. True) (SubprocessCollector_readEvent list_process
        \<lparr>sc_unit = ''ppswatch'', sc_child = ()\<rparr>) (\<lambda>_. (0, 0)) offline_libs (\<lambda>_ e a. (ppswatch_prepare 0 e, a))
        [''a'', ''b'', [], ''c''] offline_agent = Some (r, w', a') \<and>
      handed ''ppswatch'' [''a'', ''b''] (r = Inr ()) es) \<and>
   (\<exists>es r w' a'. readerLoop (\<lambda>_. True) (JournalCollector_readEvent list_journal \<lparr>flag_get = \<lambda>_. True, flag_set = \<lambda>_ w. w\<rparr> 0
        \<lparr>jc_unit = ''ppswatch'', jc_journal = ()\<rparr>) (\<lambda>_. (0, 0)) offline_libs (\<lambda>_ e a. (ppswatch_prepare 0 e, a))
        (None, [(Some 5, Some ''one''), (None, None)]) offline_agent = Some (r, w', a') \<and>
      handed ''ppswatch'' [''one'', []] (r = Inr ()) es)"
proof -
  have j: "journal_law list_journal \<lparr>flag_get = \<lambda>_. True, flag_set = \<lambda>_ w. w\<rparr> () snd"
    by (auto simp: journal_law_def list_journal_def split: list.splits)
  have "sends_return offline_libs" by (simp add: sends_return_def offline_libs_def)
  then show ?thesis
    using readerLoop_ends [of list_process "\<lparr>sc_unit = ''ppswatch'', sc_child = ()\<rparr>" "\<lambda>w. w" "\<lambda>_. False"
        "[''a'', ''b'', [], ''c'']" list_journal
        "\<lparr>flag_get = \<lambda>_. True, flag_set = \<lambda>_ w. w\<rparr>" "\<lparr>jc_unit = ''ppswatch'', jc_journal = ()\<rparr>" snd
        "(None, [(Some 5, Some ''one''), (None, None)])" "\<lambda>_. True" "\<lambda>_. (0, 0)" offline_libs
        "\<lambda>_ e a. (ppswatch_prepare 0 e, a)" offline_agent "\<lambda>_. True" 0 "\<lambda>_. (0, 0)"] list_process_law j
    unfolding Let_def by (auto simp: message_of_def loop_hands_def)
qed

end
