(* ===== verification/Reader_Refines.thy ===== *)
theory Reader_Refines
  imports Agent_Threads Reader_Loop
begin

text \<open>
  The reader threads of \<open>Agent_Threads\<close> against \<open>readerLoop\<close>: a source of the step relation keeps the
  contract of \<open>event_source\<close>, the steps at \<open>readEvent\<close> are the calls of that source, and a thread that
  runs by itself does what the loop does.
\<close>

section \<open>Sources\<close>

text \<open>\<open>readEvent\<close> on the source of a thread: it blocks while there is no event and the source has not
  ended.\<close>

fun source_read :: "CollectorEvent list \<times> bool \<Rightarrow> (CollectorEvent option \<times> CollectorEvent list \<times> bool) option" where
  "source_read (e # es, b) = Some (Some e, es, b)"
| "source_read ([], True) = Some (None, [], True)"
| "source_read ([], False) = None"

definition of_unit :: "string \<Rightarrow> CollectorEvent list \<times> bool \<Rightarrow> bool" where
  "of_unit u src \<longleftrightarrow> snd src \<and> list_all (\<lambda>e. ev_unit e = u) (fst src)"

interpretation queue_source: event_source source_read u "of_unit u" "\<lambda>src. map ev_msg (fst src)" for u
proof
  fix src m ms
  assume "of_unit u src" and m: "map ev_msg (fst src) = m # ms"
  then obtain e es where src: "src = (e # es, True)" "m = ev_msg e" "ms = map ev_msg es" "ev_unit e = u" "of_unit u (es, True)"
    by (cases src) (auto simp: of_unit_def)
  then have "e = \<lparr>ts_usec = ts_usec e, ev_unit = u, ev_msg = m\<rparr>" by simp
  with src show "\<exists>ts src'. source_read src = Some (Some \<lparr>ts_usec = ts, ev_unit = u, ev_msg = m\<rparr>, src') \<and>
      of_unit u src' \<and> map ev_msg (fst src') = ms"
    by (intro exI [of _ "ts_usec e"] exI [of _ "(es, True)"]) simp
next
  fix src
  assume "of_unit u src" and "map ev_msg (fst src) = []"
  then show "\<exists>src'. source_read src = Some (None, src')" by (cases src) (auto simp: of_unit_def)
qed

lemma reading_step:
  assumes "pc_is t AtRead s" and "t < length names"
  shows "thread_step L names t s s' \<longleftrightarrow> (case source_read (sources s ! t) of
      None \<Rightarrow> False
    | Some (None, src) \<Rightarrow> s' = goto t Finished s
    | Some (Some e, src) \<Rightarrow> s' = goto t (AtPrepare e) (s\<lparr>sources := (sources s)[t := src]\<rparr>))"
proof -
  obtain es b where src: "sources s ! t = (es, b)" by fastforce
  show ?thesis
  proof (cases es)
    case Nil
    then show ?thesis using assms src
      by (cases b) (auto simp: pc_is_def elim: thread_stepE intro: th_end)
  next
    case (Cons e es')
    then show ?thesis using assms src
      by (auto simp: pc_is_def elim: thread_stepE intro: th_event)
  qed
qed

section \<open>A thread by itself\<close>

definition reader_at :: "string list \<Rightarrow> nat \<Rightarrow> pc \<Rightarrow> CollectorEvent list \<times> bool \<Rightarrow> 'x agent \<Rightarrow> bool \<Rightarrow> 'x agent_state \<Rightarrow> bool" where
  "reader_at names t p src a up s \<longleftrightarrow> pc_is t p s \<and> t < length names \<and> t < length (sources s) \<and> sources s ! t = src \<and>
     the_agent s = a \<and> running s = up \<and> crashed s = None"

text \<open>Steps of thread \<open>t\<close> only.\<close>

definition solo :: "'x libs \<Rightarrow> string list \<Rightarrow> nat \<Rightarrow> 'x agent_state \<Rightarrow> 'x agent_state \<Rightarrow> bool" where
  "solo L names t = (thread_step L names t)\<^sup>*\<^sup>*"

definition can_reach :: "'x libs \<Rightarrow> string list \<Rightarrow> nat \<Rightarrow> 'x agent_state \<Rightarrow> ('x agent_state \<Rightarrow> bool) \<Rightarrow> bool" where
  "can_reach L names t s goal \<longleftrightarrow> (\<exists>s'. solo L names t s s' \<and> goal s')"

lemma can_reach_now: "goal s \<Longrightarrow> can_reach L names t s goal"
  unfolding can_reach_def solo_def by blast

lemma can_reach_step: "thread_step L names t s s1 \<Longrightarrow> can_reach L names t s1 goal \<Longrightarrow> can_reach L names t s goal"
  unfolding can_reach_def solo_def by (blast intro: converse_rtranclp_into_rtranclp)

lemma crash_stays: "thread_step L names t s s' \<Longrightarrow> crashed s' = None \<Longrightarrow> crashed s = None"
  by (cases rule: thread_step.cases) (auto simp: goto_def)

lemma solo_crash: "solo L names t s s' \<Longrightarrow> crashed s' = None \<Longrightarrow> crashed s = None"
  unfolding solo_def by (induction rule: converse_rtranclp_induct) (auto dest: crash_stays)

text \<open>A thread by itself is an execution of the agent.\<close>

lemma solo_exec:
  assumes "solo L names t s s'" and "crashed s' = None" and "t \<le> length names"
  shows "\<exists>n. exec L names n s s'"
  using assms(1,2) unfolding solo_def
proof (induction rule: rtranclp_induct)
  case base
  then show ?case using ex_refl by blast
next
  case (step s1 s2)
  then have "crashed s1 = None" using crash_stays by blast
  with step obtain n where "exec L names n s s1" by blast
  from ex_thread [OF this \<open>crashed s1 = None\<close> assms(3) step.hyps(2)] show ?case by blast
qed

lemma loop_blocks: "readerLoop (\<lambda>_. True) source_read readings L prep ([], False) a = None"
  by (subst readerLoop.simps) simp

text \<open>One turn of the loop, the handler included.\<close>

lemma turn:
  assumes "reader_at names t AtWhile (e # es, b) a True s" and "mutex s = None"
    and "buildHandlers L (names ! t) = Some prep" and "handle L prep r e a = Some (Inr (), a1)"
    and "\<And>s1. reader_at names t AtWhile (es, b) a1 True s1 \<Longrightarrow> mutex s1 = None \<Longrightarrow> can_reach L names t s1 goal"
  shows "can_reach L names t s goal"
proof -
  note pre = assms(1) [unfolded reader_at_def]
  let ?s1 = "goto t AtRead s"
  let ?s2 = "goto t (AtPrepare e) (?s1\<lparr>sources := (sources ?s1)[t := (es, b)]\<rparr>)"
  obtain m a0 where prep: "prep r e a = (m, a0)" by fastforce
  let ?s3 = "goto t (case m of Some x \<Rightarrow> AtLock x | None \<Rightarrow> AtWhile) (?s2\<lparr>the_agent := a0\<rparr>)"
  have i: "t \<le> length names" "crashed s = None" "crashed ?s1 = None" "crashed ?s2 = None" "crashed ?s3 = None"
    using pre by (simp_all add: goto_def)
  have step1: "thread_step L names t s ?s1" using th_while [of t s L names] pre by simp
  have step2: "thread_step L names t ?s1 ?s2"
    by (rule th_event) (use pre in \<open>simp_all add: pc_is_def goto_def\<close>)
  have step3: "thread_step L names t ?s2 ?s3"
    by (rule th_prepare [where prep = prep and r = r]) (use pre assms(3) prep in \<open>simp_all add: pc_is_def goto_def\<close>)
  have "can_reach L names t ?s3 goal"
  proof (cases m)
    case None
    then show ?thesis using assms(2,4) pre prep
      by (intro assms(5)) (simp_all add: reader_at_def pc_is_def goto_def handle_def)
  next
    case (Some x)
    let ?s4 = "goto t (AtSend x) (?s3\<lparr>mutex := Some t\<rparr>)"
    let ?s5 = "goto t AtUnlock (?s4\<lparr>the_agent := a1, sent := sent ?s4 @ [(t, x)]\<rparr>)"
    let ?s6 = "goto t AtWhile (?s5\<lparr>mutex := None\<rparr>)"
    have send: "locked_send L x a0 = Some (Inr (), a1)" using assms(4) prep Some by (simp add: handle_def)
    have j: "crashed ?s4 = None" "crashed ?s5 = None" using pre by (simp_all add: goto_def)
    have "thread_step L names t ?s3 ?s4" by (rule th_lock) (use pre Some assms(2) in \<open>simp_all add: pc_is_def goto_def\<close>)
    moreover have "thread_step L names t ?s4 ?s5" by (rule th_send) (use pre send in \<open>simp_all add: pc_is_def goto_def\<close>)
    moreover have "thread_step L names t ?s5 ?s6" by (rule th_unlock) (use pre in \<open>simp_all add: pc_is_def goto_def\<close>)
    moreover have "can_reach L names t ?s6 goal" by (rule assms(5)) (use pre in \<open>simp_all add: reader_at_def pc_is_def goto_def\<close>)
    ultimately show ?thesis using i(1,5) j by (blast intro: can_reach_step)
  qed
  with step1 step2 step3 i show ?thesis by (blast intro: can_reach_step)
qed

lemma turn_flag_down:
  assumes "reader_at names t AtWhile src a False s" and "mutex s = None"
  shows "can_reach L names t s (\<lambda>s'. reader_at names t Finished src a False s' \<and> mutex s' = None)"
proof -
  note pre = assms(1) [unfolded reader_at_def]
  have "thread_step L names t s (goto t Finished s)" using th_while [of t s L names] pre by simp
  then show ?thesis using pre assms(2)
    by (intro can_reach_step [of L names t s "goto t Finished s"] can_reach_now)
      (simp_all add: reader_at_def pc_is_def goto_def)
qed

lemma turn_end:
  assumes "reader_at names t AtWhile ([], True) a True s" and "mutex s = None"
  shows "can_reach L names t s (\<lambda>s'. reader_at names t Finished ([], True) a True s' \<and> mutex s' = None)"
proof -
  note pre = assms(1) [unfolded reader_at_def]
  let ?s1 = "goto t AtRead s"
  have "thread_step L names t s ?s1" using th_while [of t s L names] pre by simp
  moreover have "thread_step L names t ?s1 (goto t Finished ?s1)"
    by (rule th_end) (use pre in \<open>simp_all add: pc_is_def goto_def\<close>)
  moreover have "can_reach L names t (goto t Finished ?s1) (\<lambda>s'. reader_at names t Finished ([], True) a True s' \<and> mutex s' = None)"
    using pre assms(2) by (intro can_reach_now) (simp add: reader_at_def pc_is_def goto_def)
  moreover have "crashed s = None" "crashed ?s1 = None" "t \<le> length names" using pre by (simp_all add: goto_def)
  ultimately show ?thesis by (blast intro: can_reach_step)
qed

lemma thread_runs_loop_up:
  assumes "reader_at names t AtWhile src a True s" and "mutex s = None"
    and "buildHandlers L (names ! t) = Some prep"
    and "readerLoop (\<lambda>_. True) source_read readings L prep src a = Some (Inr (), src', a')"
  shows "can_reach L names t s (\<lambda>s'. reader_at names t Finished src' a' True s' \<and> mutex s' = None)"
  using assms
proof (induction "fst src" arbitrary: src a s)
  case Nil
  obtain b where src: "src = ([], b)" using Nil.hyps by (cases src) simp
  have b: "b" using loop_blocks [of readings L prep a] Nil.prems(4) src by (cases b) simp_all
  have "readerLoop (\<lambda>_. True) source_read readings L prep src a = Some (Inr (), src, a)"
    by (rule readerLoop_end) (simp_all add: src b)
  then have "src' = src" "a' = a" using Nil.prems(4) by simp_all
  then show ?case using turn_end [of names t a s L] Nil.prems(1,2) src b by simp
next
  case (Cons e es)
  obtain b where src: "src = (e # es, b)" using Cons.hyps(2) by (cases src) simp
  have "handle L prep (readings (es, b)) e a \<noteq> None"
    using readerLoop_stuck [of "\<lambda>_. True" src source_read e "(es, b)" L prep readings a] Cons.prems(4) src by fastforce
  then obtain r1 a1 where h: "handle L prep (readings (es, b)) e a = Some (r1, a1)" by (metis not_None_eq prod.collapse)
  have "readerLoop (\<lambda>_. True) source_read readings L prep src a =
      (case r1 of Inl ex \<Rightarrow> Some (Inl ex, (es, b), a1) | Inr _ \<Rightarrow> readerLoop (\<lambda>_. True) source_read readings L prep (es, b) a1)"
    by (rule readerLoop_event) (use src h in simp_all)
  with Cons.prems(4) have r1: "r1 = Inr ()"
      "readerLoop (\<lambda>_. True) source_read readings L prep (es, b) a1 = Some (Inr (), src', a')"
    by (auto split: sum.splits)
  show ?case
    by (rule turn [where e = e and es = es and b = b and a = a and r = "readings (es, b)"])
      (use Cons.prems(1-3) Cons.hyps(1) [of "(es, b)" a1] r1 h src in simp_all)
qed

text \<open>The other direction: the only step at each statement.\<close>

lemma from_while:
  "pc_is t AtWhile s \<Longrightarrow> t < length names \<Longrightarrow>
   thread_step L names t s s' \<longleftrightarrow> s' = goto t (if running s then AtRead else Finished) s"
  using th_while [of t s L names] by (auto simp: pc_is_def elim: thread_stepE)

lemma from_prepare:
  assumes "pc_is t (AtPrepare e) s" and "t < length names" and "buildHandlers L (names ! t) = Some prep"
  shows "thread_step L names t s s' \<longleftrightarrow> (\<exists>r m a. prep r e (the_agent s) = (m, a) \<and>
    s' = goto t (case m of Some x \<Rightarrow> AtLock x | None \<Rightarrow> AtWhile) (s\<lparr>the_agent := a\<rparr>))"
proof
  assume "thread_step L names t s s'"
  then obtain r m a where "prep r e (the_agent s) = (m, a)"
      "s' = goto t (case m of Some x \<Rightarrow> AtLock x | None \<Rightarrow> AtWhile) (s\<lparr>the_agent := a\<rparr>)"
    using assms(1,3) by (cases rule: thread_step.cases) (auto simp: pc_is_def)
  then show "\<exists>r m a. prep r e (the_agent s) = (m, a) \<and>
      s' = goto t (case m of Some x \<Rightarrow> AtLock x | None \<Rightarrow> AtWhile) (s\<lparr>the_agent := a\<rparr>)" by blast
qed (use th_prepare [OF assms] in blast)

lemma from_lock:
  "pc_is t (AtLock m) s \<Longrightarrow>
   thread_step L names t s s' \<longleftrightarrow> mutex s = None \<and> s' = goto t (AtSend m) (s\<lparr>mutex := Some t\<rparr>)"
  by (auto simp: pc_is_def elim!: thread_stepE intro: th_lock)

lemma from_send:
  assumes "pc_is t (AtSend m) s"
  shows "thread_step L names t s s' \<longleftrightarrow> (case locked_send L m (the_agent s) of
      None \<Rightarrow> False
    | Some (Inr _, a) \<Rightarrow> s' = goto t AtUnlock (s\<lparr>the_agent := a, sent := sent s @ [(t, m)]\<rparr>)
    | Some (Inl e, a) \<Rightarrow> s' = s\<lparr>the_agent := a, crashed := Some e\<rparr>)"
  using assms th_send [OF assms] th_crash [OF assms]
  by (auto simp: pc_is_def elim!: thread_stepE split: option.splits prod.splits sum.splits)

lemma from_unlock:
  "pc_is t AtUnlock s \<Longrightarrow> thread_step L names t s s' \<longleftrightarrow> s' = goto t AtWhile (s\<lparr>mutex := None\<rparr>)"
  by (auto simp: pc_is_def elim!: thread_stepE intro: th_unlock)

lemma solo_next:
  assumes "solo L names t s s'" and "pc_is t Finished s'" and "pc_is t p s" and "p \<noteq> Finished"
  shows "\<exists>s1. thread_step L names t s s1 \<and> solo L names t s1 s'"
  using assms unfolding solo_def by (auto simp: pc_is_def elim: converse_rtranclpE)

lemma solo_finished:
  assumes "solo L names t s s'" and "pc_is t Finished s"
  shows "s' = s"
proof -
  have "\<not> thread_step L names t s s1" for s1 using assms(2) by (auto simp: pc_is_def elim!: thread_stepE)
  then show ?thesis using assms(1) unfolding solo_def by (auto elim: converse_rtranclpE)
qed

text \<open>A thread that holds a metric sends it, or the program ends.\<close>

lemma sending_back:
  assumes "solo L names t s s'" and "pc_is t Finished s'" and "crashed s' = None"
    and "reader_at names t (AtLock x) src a True s" and "mutex s = None"
  shows "\<exists>a1 s1. locked_send L x a = Some (Inr (), a1) \<and> reader_at names t AtWhile src a1 True s1 \<and> mutex s1 = None \<and>
    solo L names t s1 s'"
proof -
  note pre = assms(4) [unfolded reader_at_def]
  let ?s2 = "goto t (AtSend x) (s\<lparr>mutex := Some t\<rparr>)"
  have 2: "pc_is t (AtSend x) ?s2" "the_agent ?s2 = a" using pre by (simp_all add: pc_is_def goto_def)
  have "solo L names t ?s2 s'" using solo_next [OF assms(1,2), of "AtLock x"] pre from_lock [of t x s L names] by auto
  from solo_next [OF this assms(2) 2(1)] obtain s3 where 3: "thread_step L names t ?s2 s3" "solo L names t s3 s'" by blast
  obtain a1 where a1: "locked_send L x a = Some (Inr (), a1)"
      "s3 = goto t AtUnlock (?s2\<lparr>the_agent := a1, sent := sent ?s2 @ [(t, x)]\<rparr>)"
    using 3(1) solo_crash [OF 3(2) assms(3)] from_send [OF 2(1), of L names s3] 2(2)
    by (auto split: option.splits prod.splits sum.splits)
  have u: "pc_is t AtUnlock s3" using pre by (simp add: a1 pc_is_def goto_def)
  have "solo L names t (goto t AtWhile (s3\<lparr>mutex := None\<rparr>)) s'"
    using solo_next [OF 3(2) assms(2) u] from_unlock [OF u] by auto
  moreover have "reader_at names t AtWhile src a1 True (goto t AtWhile (s3\<lparr>mutex := None\<rparr>))"
    using pre by (simp add: a1 reader_at_def pc_is_def goto_def)
  ultimately show ?thesis using a1(1) by (intro exI conjI) (auto simp: goto_def)
qed

lemma turn_back:
  assumes "solo L names t s s'" and "pc_is t Finished s'" and "crashed s' = None"
    and "reader_at names t AtWhile (e # es, b) a True s" and "mutex s = None"
    and "buildHandlers L (names ! t) = Some prep"
  shows "\<exists>r a1 s1. handle L prep r e a = Some (Inr (), a1) \<and> reader_at names t AtWhile (es, b) a1 True s1 \<and> mutex s1 = None \<and>
    solo L names t s1 s'"
proof -
  note pre = assms(4) [unfolded reader_at_def]
  let ?s1 = "goto t AtRead s"
  let ?s2 = "goto t (AtPrepare e) (?s1\<lparr>sources := (sources ?s1)[t := (es, b)]\<rparr>)"
  have p: "pc_is t AtWhile s" "pc_is t AtRead ?s1" "pc_is t (AtPrepare e) ?s2" "t < length names" "the_agent ?s2 = a"
    using pre by (simp_all add: pc_is_def goto_def)
  have "solo L names t ?s1 s'" using solo_next [OF assms(1,2) p(1)] from_while [OF p(1,4)] pre by auto
  from solo_next [OF this assms(2) p(2)] have "solo L names t ?s2 s'"
    using reading_step [OF p(2,4)] pre by (auto simp: goto_def)
  from solo_next [OF this assms(2) p(3)] obtain r m a0 where m: "prep r e a = (m, a0)"
      "solo L names t (goto t (case m of Some x \<Rightarrow> AtLock x | None \<Rightarrow> AtWhile) (?s2\<lparr>the_agent := a0\<rparr>)) s'" (is "solo _ _ _ ?s3 _")
    using from_prepare [OF p(3,4) assms(6)] p(5) by auto
  show ?thesis
  proof (cases m)
    case None
    then show ?thesis using m pre assms(5)
      by (intro exI [of _ r] exI [of _ a0] exI [of _ ?s3]) (simp add: reader_at_def pc_is_def goto_def handle_def)
  next
    case (Some x)
    have "reader_at names t (AtLock x) (es, b) a0 True ?s3" "mutex ?s3 = None"
      using pre assms(5) Some by (simp_all add: reader_at_def pc_is_def goto_def)
    from sending_back [OF m(2) assms(2,3) this] obtain a1 s1 where "locked_send L x a0 = Some (Inr (), a1)"
        "reader_at names t AtWhile (es, b) a1 True s1" "mutex s1 = None" "solo L names t s1 s'" by blast
    then show ?thesis using m(1) Some by (intro exI [of _ r] exI [of _ a1] exI [of _ s1]) (simp add: handle_def)
  qed
qed

text \<open>The readings of calls that are still to come do not matter.\<close>

lemma readerLoop_readings:
  assumes "\<forall>src. length (fst src) < length es \<longrightarrow> readings src = readings' src"
  shows "readerLoop (\<lambda>_. True) source_read readings L prep (es, b) a = readerLoop (\<lambda>_. True) source_read readings' L prep (es, b) a"
  using assms
proof (induction es arbitrary: a)
  case Nil
  then show ?case by (cases b) (simp_all add: loop_blocks readerLoop_end)
next
  case (Cons e es)
  have same: "readings' (es, b) = readings (es, b)" using Cons.prems by simp
  show ?case
  proof (cases "handle L prep (readings (es, b)) e a")
    case None
    have "readerLoop (\<lambda>_. True) source_read rd L prep (e # es, b) a = None" if "rd (es, b) = readings (es, b)" for rd
      by (rule readerLoop_stuck [where e = e and w' = "(es, b)"]) (simp, simp, unfold that, rule None)
    then show ?thesis using same by metis
  next
    case (Some p)
    then obtain r a1 where h: "handle L prep (readings (es, b)) e a = Some (r, a1)" by (cases p) simp
  have step: "readerLoop (\<lambda>_. True) source_read rd L prep (e # es, b) a = (case r of Inl ex \<Rightarrow> Some (Inl ex, (es, b), a1)
      | Inr _ \<Rightarrow> readerLoop (\<lambda>_. True) source_read rd L prep (es, b) a1)" if "rd (es, b) = readings (es, b)" for rd
    by (rule readerLoop_event) (use h that in simp_all)
  have "readerLoop (\<lambda>_. True) source_read readings L prep (es, b) a1 = readerLoop (\<lambda>_. True) source_read readings' L prep (es, b) a1"
    by (rule Cons.IH) (use Cons.prems in simp)
  with step [of readings, OF refl] step [of readings', OF same] show ?thesis by (cases r) simp_all
  qed
qed

lemma loop_runs_thread:
  assumes "solo L names t s s'" and "reader_at names t Finished src' a' True s'"
    and "reader_at names t AtWhile (es, b) a True s" and "mutex s = None"
    and "buildHandlers L (names ! t) = Some prep"
  shows "\<exists>readings. readerLoop (\<lambda>_. True) source_read readings L prep (es, b) a = Some (Inr (), src', a')"
  using assms(1,3,4)
proof (induction es arbitrary: s a)
  case Nil
  note pre = Nil.prems(2) [unfolded reader_at_def]
  have fin: "pc_is t Finished s'" using assms(2) by (simp add: reader_at_def)
  let ?s1 = "goto t AtRead s"
  have p: "pc_is t AtWhile s" "pc_is t AtRead ?s1" "t < length names" using pre by (simp_all add: pc_is_def goto_def)
  have "solo L names t ?s1 s'" using solo_next [OF Nil.prems(1) fin p(1)] from_while [OF p(1,3)] pre by auto
  from solo_next [OF this fin p(2)] have b: "b" "solo L names t (goto t Finished ?s1) s'"
    using reading_step [OF p(2,3)] pre by (cases b; auto simp: goto_def)+
  have "s' = goto t Finished ?s1" by (rule solo_finished [OF b(2)]) (use pre in \<open>simp add: pc_is_def goto_def\<close>)
  then have "src' = ([], True)" "a' = a" using assms(2) pre b(1) by (simp_all add: reader_at_def goto_def)
  moreover have "readerLoop (\<lambda>_. True) source_read (\<lambda>_. (0, 0)) L prep ([], True) a = Some (Inr (), ([], True), a)"
    by (rule readerLoop_end) simp_all
  ultimately show ?case using b(1) by auto
next
  case (Cons e es)
  have fin: "pc_is t Finished s'" "crashed s' = None" using assms(2) by (simp_all add: reader_at_def)
  obtain r a1 s1 where turn: "handle L prep r e a = Some (Inr (), a1)" "reader_at names t AtWhile (es, b) a1 True s1"
      "mutex s1 = None" "solo L names t s1 s'"
    using turn_back [OF Cons.prems(1) fin Cons.prems(2,3) assms(5)] by blast
  obtain readings where loop: "readerLoop (\<lambda>_. True) source_read readings L prep (es, b) a1 = Some (Inr (), src', a')"
    using Cons.IH [OF turn(4,2,3)] by blast
  let ?readings = "readings((es, b) := r)"
  have "readerLoop (\<lambda>_. True) source_read ?readings L prep (e # es, b) a =
      readerLoop (\<lambda>_. True) source_read ?readings L prep (es, b) a1"
    by (subst readerLoop_event [where e = e and w' = "(es, b)" and r = "Inr ()" and a' = a1]) (use turn(1) in simp_all)
  also have "\<dots> = Some (Inr (), src', a')"
    using readerLoop_readings [of es ?readings readings L prep b a1] loop by fastforce
  finally show ?case by blast
qed

text \<open>C13. The steps of a reader thread are \<open>readerLoop\<close>: running by itself, a thread that is at the head
  of its loop finishes with a given source and agent exactly when the loop, for some readings of
  the clock, returns them; handler calls and sends included, with the mutex free at the end.\<close>

theorem reader_thread_runs_readerLoop:
  assumes "reader_at names t AtWhile src a up s" and "mutex s = None"
    and "buildHandlers L (names ! t) = Some prep"
  shows "can_reach L names t s (\<lambda>s'. reader_at names t Finished src' a' up s' \<and> mutex s' = None) \<longleftrightarrow>
    (\<exists>readings. readerLoop (\<lambda>_. up) source_read readings L prep src a = Some (Inr (), src', a'))"
proof (cases up)
  case False
  have down: "readerLoop (\<lambda>_. False) source_read readings L prep src a = Some (Inr (), src, a)" for readings
    by (simp add: readerLoop_down)
  have "src' = src \<and> a' = a" if solo: "solo L names t s s'" and fin: "reader_at names t Finished src' a' False s'" for s'
  proof -
    have p: "pc_is t AtWhile s" "t < length names" "\<not> running s" using assms(1) False by (simp_all add: reader_at_def)
    have "pc_is t Finished s'" using fin by (simp add: reader_at_def)
    from solo_next [OF solo this p(1)] have "solo L names t (goto t Finished s) s'" using from_while [OF p(1,2)] p(3) by auto
    moreover have "pc_is t Finished (goto t Finished s)" using p(1) by (simp add: pc_is_def goto_def)
    ultimately have "s' = goto t Finished s" by (rule solo_finished)
    then show ?thesis using fin assms(1) by (simp add: reader_at_def goto_def)
  qed
  then show ?thesis using False assms(1,2) down turn_flag_down [of names t src a s L] by (auto simp: can_reach_def)
next
  case True
  then show ?thesis
    using assms thread_runs_loop_up [of names t src a s L prep _ src' a']
      loop_runs_thread [of L names t s _ src' a' "fst src" "snd src" a prep]
    by (auto simp: can_reach_def)
qed

text \<open>The \<open>ptp4l\<close> reader with one more line in its source.\<close>

theorem reader_thread_runs_readerLoop_witness:
  "can_reach offline_libs one_name 0
     (stop_run offline_agent True [AtWhile, AtWhile] (Joining 0) None True\<lparr>sources := [([\<lparr>ts_usec = 17, ev_unit = ''ptp4l'',
        ev_msg = foreign_master_line (stamp 1 2) 1 ''eth1'' ''c4'' 1\<rparr>], True)]\<rparr>)
     (\<lambda>s'. reader_at one_name 0 Finished ([], True) offline_agent True s' \<and> mutex s' = None)"
proof -
  let ?e = "\<lparr>ts_usec = 17, ev_unit = ''ptp4l'', ev_msg = foreign_master_line (stamp 1 2) 1 ''eth1'' ''c4'' 1\<rparr>"
  let ?s = "stop_run offline_agent True [AtWhile, AtWhile] (Joining 0) None True\<lparr>sources := [([?e], True)]\<rparr>"
  let ?prep = "\<lambda>(now, junk). ptp4l_prepare offline_libs now"
  let ?loop = "readerLoop (\<lambda>_. True) source_read (\<lambda>_. (0, 0)) offline_libs ?prep"
  have b: "buildHandlers offline_libs (one_name ! 0) = Some ?prep" by (simp add: buildHandlers_def)
  have w: "foreign_fields_ok ''eth1'' ''c4''" "is_word ''c4''"
    by (simp_all add: foreign_fields_ok_def is_name_def is_word_def)
  have "ptp4l_prepare offline_libs 0 ?e offline_agent = (None, offline_agent)"
    using parse_master_lines [OF w, of 1 2 1 1] by (simp add: ptp4l_prepare_def)
  then have h: "handle offline_libs ?prep (0, 0) ?e offline_agent = Some (Inr (), offline_agent)" by (simp add: handle_def)
  have "?loop ([?e], True) offline_agent = ?loop ([], True) offline_agent"
    by (subst readerLoop_event [where r = "Inr ()" and a' = offline_agent and e = ?e and w' = "([], True)"]) (use h in simp_all)
  then have "?loop ([?e], True) offline_agent = Some (Inr (), ([], True), offline_agent)"
    using readerLoop_end [of "\<lambda>_. True" "([], True)" source_read "([], True)"] by simp
  moreover have "reader_at one_name 0 AtWhile ([?e], True) offline_agent True ?s" "mutex ?s = None"
    by (simp_all add: reader_at_def pc_is_def stop_run_def)
  ultimately show ?thesis using reader_thread_runs_readerLoop [of one_name 0 "([?e], True)" offline_agent True ?s offline_libs ?prep] b
    by blast
qed

end
