(* ===== verification/Main_Program.thy ===== *)
theory Main_Program
  imports Agent_Threads Zmq_Theorems Config_Theorems "HOL-Library.AList"
begin

text \<open>
  \<open>src/main.cpp\<close> and \<open>include/logging.h\<close>: the collectors of the enabled services, the log level and
  the start of the program up to \<open>loop.run()\<close>. What escapes \<open>main\<close> ends the program.
\<close>

section \<open>Log level\<close>

datatype log_level = Debug | Info | Warn | Err

fun severity :: "log_level \<Rightarrow> nat" where
  "severity Debug = 1" | "severity Info = 2" | "severity Warn = 3" | "severity Err = 4"

instantiation log_level :: linorder
begin

definition less_eq_log_level :: "log_level \<Rightarrow> log_level \<Rightarrow> bool" where
  "less_eq_log_level a b \<longleftrightarrow> severity a \<le> severity b"

definition less_log_level :: "log_level \<Rightarrow> log_level \<Rightarrow> bool" where
  "less_log_level a b \<longleftrightarrow> severity a < severity b"

instance
proof
  fix a b :: log_level
  show "a \<le> b \<Longrightarrow> b \<le> a \<Longrightarrow> a = b"
    by (cases a; cases b) (simp_all add: less_eq_log_level_def)
qed (auto simp: less_eq_log_level_def less_log_level_def)

end

definition level_of :: "string \<Rightarrow> log_level" where
  "level_of level =
     (if level = ''debug'' then Debug
      else if level = ''info'' then Info
      else if level = ''warn'' then Warn
      else if level = ''error'' then Err
      else Info)"

text \<open>A message is written when its level is at least the one that was set.\<close>

definition is_logged :: "string \<Rightarrow> log_level \<Rightarrow> bool" where
  "is_logged level l \<longleftrightarrow> level_of level \<le> l"

lemma warnings_logged: "level \<noteq> ''error'' \<Longrightarrow> is_logged level Warn"
  by (simp add: is_logged_def level_of_def less_eq_log_level_def)

section \<open>Collectors\<close>

datatype ('h, 'p) collector = Journal "'h JournalCollector" | Subprocess "'p SubprocessCollector"

text \<open>The libraries of the collectors; every \<open>JournalCollector\<close> has a stop flag of its own.\<close>

record ('h, 'p, 'x) source_libs =
  s_journal :: "('h, 'x) sdjournal"
  s_flag :: "string \<Rightarrow> 'x atomic_flag"
  s_process :: "('p, 'x) process_lib"

definition new_journal :: "('h, 'p, 'x) source_libs \<Rightarrow> string \<Rightarrow> 'x \<Rightarrow> (exn + ('h, 'p) collector) \<times> 'x" where
  "new_journal S unit x = apfst (map_sum id Journal) (JournalCollector_new (s_journal S) (s_flag S unit) unit x)"

definition new_subprocess :: "('h, 'p, 'x) source_libs \<Rightarrow> string \<Rightarrow> string list \<Rightarrow> 'x \<Rightarrow> (exn + ('h, 'p) collector) \<times> 'x" where
  "new_subprocess S cmd args x = apfst (map_sum id Subprocess) (SubprocessCollector_new (s_process S) cmd args x)"

definition makeCollector :: "('h, 'p, 'x) source_libs \<Rightarrow> ServiceConfig \<Rightarrow> 'x \<Rightarrow> (exn + ('h, 'p) collector) \<times> 'x" where
  "makeCollector S cfg x =
     (if svc_name cfg = ''ptp4l'' \<and> svc_source cfg = ''subproccess'' then
        new_subprocess S ''ptp4l'' [''/usr/bin/stdbuf'', ''-oL'', ''ptp4l'', ''-i'', svc_dev cfg, ''-s'', ''-m''] x
      else if svc_name cfg = ''ptp4l'' \<and> svc_source cfg = ''journal'' then new_journal S ''ptp4l'' x
      else if svc_name cfg = ''phc2sys'' \<and> svc_source cfg = ''subproccess'' then
        new_subprocess S ''phc2sys'' [''/usr/bin/stdbuf'', ''-oL'', ''/usr/local/sbin/phc2sys'', ''-a'', ''-r'', ''-r'',
          ''-m'', ''--free_running'', ''1'', ''-l 6''] x
      else if svc_name cfg = ''phc2sys'' \<and> svc_source cfg = ''journal'' then new_journal S ''phc2sys'' x
      else if svc_name cfg = ''ppswatch'' \<and> svc_source cfg = ''subproccess'' then
        new_subprocess S ''ppswatch'' [''/usr/bin/stdbuf'', ''-oL'', ''/usr/bin/ppswatch'', svc_dev cfg] x
      else (Inl (RuntimeError (''Unknown service: '' @ svc_name cfg)), x))"

definition collector_destroy :: "('h, 'p, 'x) source_libs \<Rightarrow> ('h, 'p) collector \<Rightarrow> 'x \<Rightarrow> 'x" where
  "collector_destroy S c x = (case c of
     Journal j \<Rightarrow> JournalCollector_destroy (s_journal S) j x
   | Subprocess p \<Rightarrow> SubprocessCollector_destroy (s_process S) p x)"

text \<open>The loop over the services: an exception is caught and the service skipped; a second service of
  the same name replaces the collector of the first, which is destroyed. The list stands for the
  \<open>std::unordered_map\<close> of the code: its order means nothing, and what is stated of the agent holds for
  the collectors in any order.\<close>

fun make_collectors ::
    "('h, 'p, 'x) source_libs \<Rightarrow> ServiceConfig list \<Rightarrow> (string \<times> ('h, 'p) collector) list \<Rightarrow> 'x \<Rightarrow>
     (string \<times> ('h, 'p) collector) list \<times> 'x" where
  "make_collectors S [] cs x = (cs, x)"
| "make_collectors S (cfg # cfgs) cs x =
     (if svc_on cfg then
        (case makeCollector S cfg x of
           (Inl e, x1) \<Rightarrow> make_collectors S cfgs cs x1
         | (Inr c, x1) \<Rightarrow> make_collectors S cfgs (AList.update (svc_name cfg) c cs)
             (case map_of cs (svc_name cfg) of None \<Rightarrow> x1 | Some old \<Rightarrow> collector_destroy S old x1))
      else make_collectors S cfgs cs x)"

section \<open>main\<close>

definition config_path_of :: "string list \<Rightarrow> string" where
  "config_path_of args = (case args of [] \<Rightarrow> ''../config.yaml'' | path # _ \<Rightarrow> path)"

text \<open>Everything up to \<open>loop.run()\<close>: the collectors, the adapter and the agent.\<close>

definition main_setup ::
    "'n yaml \<Rightarrow> junk_ints \<Rightarrow> ('h, 'p, 'x) source_libs \<Rightarrow> 'x zmq \<Rightarrow>
     ((string \<times> string) list \<Rightarrow> (string \<times> string) list) \<Rightarrow> string list \<Rightarrow> os \<Rightarrow> 'x \<Rightarrow>
     (exn + (string \<times> ('h, 'p) collector) list \<times> ZMQAdapter \<times> 'x agent) \<times> os \<times> 'x" where
  "main_setup y junk S zmq order args w x =
     (let config = ConfigLoader_loadOrDefault y junk (config_path_of args);
          (collectors, x1) = make_collectors S (service config) [] x in
      case ZMQAdapter_new zmq (configZMQ config) x1 of
        (Inl e, x2) \<Rightarrow> (Inl e, w, x2)
      | (Inr adapter, x2) \<Rightarrow>
          (case Agent_new order config w x2 of
             (Inl e, w1) \<Rightarrow> (Inl e, w1, x2)
           | (Inr loop, w1) \<Rightarrow> (Inr (collectors, adapter, loop), w1, x2)))"

section \<open>Which collectors run\<close>

text \<open>The services \<open>makeCollector\<close> knows, with the spelling it expects.\<close>

definition supported :: "ServiceConfig \<Rightarrow> bool" where
  "supported cfg \<longleftrightarrow> (svc_name cfg, svc_source cfg) \<in> {(''ptp4l'', ''subproccess''), (''ptp4l'', ''journal''),
     (''phc2sys'', ''subproccess''), (''phc2sys'', ''journal''), (''ppswatch'', ''subproccess'')}"

text \<open>Libraries that work: the journal opens and every program can be started and runs.\<close>

definition sources_work :: "('h, 'p, 'x) source_libs \<Rightarrow> bool" where
  "sources_work S \<longleftrightarrow> (\<forall>x. 0 \<le> sint (fst (j_open (s_journal S) x))) \<and>
     (\<forall>path args x. \<exists>p x'. bp_child (s_process S) path args x = (Inr p, x')) \<and>
     (\<forall>p x. fst (bp_running (s_process S) p x))"

lemma new_works:
  assumes "sources_work S"
  shows "\<exists>c x'. new_journal S unit x = (Inr c, x')" and "\<exists>c x'. new_subprocess S cmd args x = (Inr c, x')"
proof -
  define x0 where "x0 = flag_set (s_flag S unit) False x"
  obtain ret h x1 where o: "j_open (s_journal S) x0 = (ret, h, x1)" by (cases "j_open (s_journal S) x0") auto
  then have "0 \<le> sint ret" using assms unfolding sources_work_def by (metis fst_conv)
  then show "\<exists>c x'. new_journal S unit x = (Inr c, x')"
    using o by (simp add: new_journal_def JournalCollector_new_def Let_def flip: x0_def)
  obtain p x2 where "bp_child (s_process S) ''/usr/bin/sudo'' args x = (Inr p, x2)"
    using assms unfolding sources_work_def by metis
  moreover have "fst (bp_running (s_process S) p x2)" using assms unfolding sources_work_def by blast
  ultimately show "\<exists>c x'. new_subprocess S cmd args x = (Inr c, x')"
    by (simp add: new_subprocess_def SubprocessCollector_new_def split_beta Let_def)
qed

lemma make_supported:
  assumes "sources_work S"
  shows "(\<exists>c x'. makeCollector S cfg x = (Inr c, x')) \<longleftrightarrow> supported cfg"
    and "\<not> supported cfg \<Longrightarrow> makeCollector S cfg x = (Inl (RuntimeError (''Unknown service: '' @ svc_name cfg)), x)"
proof -
  show "\<not> supported cfg \<Longrightarrow> makeCollector S cfg x = (Inl (RuntimeError (''Unknown service: '' @ svc_name cfg)), x)"
    by (auto simp: supported_def makeCollector_def)
  then show "(\<exists>c x'. makeCollector S cfg x = (Inr c, x')) \<longleftrightarrow> supported cfg"
    using new_works [OF assms] by (auto simp: supported_def makeCollector_def)
qed

text \<open>What kind of collector a service gets, and the unit it reads.\<close>

fun collects :: "ServiceConfig \<Rightarrow> ('h, 'p) collector \<Rightarrow> bool" where
  "collects cfg (Journal j) \<longleftrightarrow> svc_source cfg = ''journal'' \<and> jc_unit j = svc_name cfg"
| "collects cfg (Subprocess p) \<longleftrightarrow> svc_source cfg = ''subproccess'' \<and> sc_unit p = svc_name cfg"

lemma makeCollector_collects: "makeCollector S cfg x = (Inr c, x') \<Longrightarrow> collects cfg c"
  by (auto simp: makeCollector_def new_journal_def new_subprocess_def JournalCollector_new_def
      SubprocessCollector_new_def apfst_def map_prod_def Let_def split: if_splits prod.splits sum.splits)

text \<open>Each entry comes from a service that is on.\<close>

definition from_services :: "ServiceConfig list \<Rightarrow> (string \<times> ('h, 'p) collector) list \<Rightarrow> bool" where
  "from_services cfgs cs \<longleftrightarrow> (\<forall>(k, c) \<in> set cs. \<exists>cfg \<in> set cfgs. svc_on cfg \<and> svc_name cfg = k \<and> collects cfg c)"

lemma update_members: "kc \<in> set (AList.update k c cs) \<Longrightarrow> kc = (k, c) \<or> kc \<in> set cs"
  by (induction cs) (auto split: if_splits)

lemma update_names: "fst ` set (AList.update k c cs) = insert k (fst ` set cs)"
  by (induction cs) auto

lemma make_collectors_made:
  assumes "sources_work S" and "distinct (map fst cs)" and "from_services all cs" and "set cfgs \<subseteq> set all"
  shows "distinct (map fst (fst (make_collectors S cfgs cs x))) \<and>
    fst ` set (fst (make_collectors S cfgs cs x)) =
      fst ` set cs \<union> svc_name ` {cfg \<in> set cfgs. svc_on cfg \<and> supported cfg} \<and>
    from_services all (fst (make_collectors S cfgs cs x))"
  using assms(2-4)
proof (induction cfgs arbitrary: cs x)
  case (Cons cfg cfgs)
  show ?case
  proof (cases "svc_on cfg \<and> supported cfg")
    case True
    then obtain c x' where c: "makeCollector S cfg x = (Inr c, x')" using make_supported(1) [OF assms(1)] by blast
    have "from_services all (AList.update (svc_name cfg) c cs)"
      using Cons.prems(2,3) True makeCollector_collects [OF c] update_members [of _ "svc_name cfg" c cs]
      by (fastforce simp: from_services_def)
    moreover have "fst ` set (AList.update (svc_name cfg) c cs) = insert (svc_name cfg) (fst ` set cs)"
      by (rule update_names)
    moreover have "{d \<in> set (cfg # cfgs). svc_on d \<and> supported d} =
        insert cfg {d \<in> set cfgs. svc_on d \<and> supported d}" using True by auto
    ultimately show ?thesis
      using Cons.IH [of "AList.update (svc_name cfg) c cs"] Cons.prems True c by (simp add: distinct_update)
  next
    case False
    then have "{d \<in> set (cfg # cfgs). svc_on d \<and> supported d} = {d \<in> set cfgs. svc_on d \<and> supported d}" by auto
    then show ?thesis using Cons False make_supported(2) [OF assms(1), of cfg x] by auto
  qed
qed simp

text \<open>C29. As long as the journals open and the programs can be started, the services that get a collector are
  exactly those that are on and whose name and source \<open>makeCollector\<close> knows, each of them one; any other
  one is skipped and does not keep the next from starting. The collector is of the kind the source of
  the service names and reads the unit of that name. A service whose source is spelt \<open>subprocess\<close>, as the
  configuration documents it, gets none.\<close>

theorem collectors_started:
  assumes "sources_work S" and "make_collectors S cfgs [] x = (cs, x')"
  shows "distinct (map fst cs) \<and> fst ` set cs = svc_name ` {cfg \<in> set cfgs. svc_on cfg \<and> supported cfg} \<and>
    (\<forall>(k, c) \<in> set cs. \<exists>cfg \<in> set cfgs. svc_on cfg \<and> svc_name cfg = k \<and> collects cfg c) \<and>
    (\<forall>k. (\<forall>cfg \<in> set cfgs. svc_name cfg = k \<longrightarrow> svc_source cfg = ''subprocess'') \<longrightarrow> k \<notin> fst ` set cs)"
proof -
  have "fst (make_collectors S cfgs [] x) = cs" using assms(2) by simp
  with make_collectors_made [OF assms(1), of "[]" cfgs cfgs x]
  have cs: "distinct (map fst cs)" "fst ` set cs = svc_name ` {cfg \<in> set cfgs. svc_on cfg \<and> supported cfg}"
    and made: "from_services cfgs cs" by (auto simp: from_services_def)
  have "\<not> supported cfg" if "svc_source cfg = ''subprocess''" for cfg using that by (simp add: supported_def)
  with cs made show ?thesis unfolding from_services_def by auto
qed

definition working_sources :: "(unit, unit, journal_entry option \<times> journal_entry list) source_libs" where
  "working_sources = \<lparr>s_journal = list_journal, s_flag = (\<lambda>_. \<lparr>flag_get = \<lambda>_. False, flag_set = \<lambda>_ w. w\<rparr>),
     s_process = \<lparr>bp_child = (\<lambda>_ _ w. (Inr (), w)), bp_running = (\<lambda>_ w. (True, w)), bp_terminate = (\<lambda>_ w. w),
       bp_wait = (\<lambda>_ w. w), bp_getline = (\<lambda>_ w. Some (None, w)), bp_now = (\<lambda>_. 0)\<rparr>\<rparr>"

theorem collectors_started_witness:
  "\<exists>cs x'. make_collectors working_sources
     [\<lparr>svc_on = True, svc_name = ''ptp4l'', svc_source = ''journal'', svc_dev = []\<rparr>,
      \<lparr>svc_on = True, svc_name = ''phc2sys'', svc_source = ''subprocess'', svc_dev = []\<rparr>,
      \<lparr>svc_on = True, svc_name = ''ppswatch'', svc_source = ''subproccess'', svc_dev = ''/dev/pps0''\<rparr>] []
     (None, []) = (cs, x') \<and> fst ` set cs = {''ptp4l'', ''ppswatch''}"
proof -
  let ?cfgs = "[\<lparr>svc_on = True, svc_name = ''ptp4l'', svc_source = ''journal'', svc_dev = []\<rparr>,
      \<lparr>svc_on = True, svc_name = ''phc2sys'', svc_source = ''subprocess'', svc_dev = []\<rparr>,
      \<lparr>svc_on = True, svc_name = ''ppswatch'', svc_source = ''subproccess'', svc_dev = ''/dev/pps0''\<rparr>]"
  have w: "sources_work working_sources"
    by (simp add: sources_work_def working_sources_def list_journal_def)
  obtain cs x' where m: "make_collectors working_sources ?cfgs [] (None, []) = (cs, x')"
    by (rule prod.exhaust)
  have "svc_name ` {cfg \<in> set ?cfgs. svc_on cfg \<and> supported cfg} = {''ptp4l'', ''ppswatch''}"
    by (simp only: set_filter [symmetric]) (simp add: supported_def)
  then have "fst ` set cs = {''ptp4l'', ''ppswatch''}" using collectors_started [OF w m] by (simp only:)
  with m show ?thesis by blast
qed

section \<open>Without a configuration\<close>

lemma z_all_fails:
  assumes "f \<in> set fs" and "\<And>z. \<exists>e. fst (f z) = Inl e"
  shows "\<exists>e. fst (z_all fs z) = Inl e"
  using assms(1)
proof (induction fs arbitrary: z)
  case (Cons g gs)
  obtain r z' where g: "g z = (r, z')" by fastforce
  show ?case
  proof (cases "g = f")
    case True
    then obtain e where "r = Inl e" using assms(2) [of z] g by auto
    then show ?thesis using g by simp
  next
    case False
    then show ?thesis using Cons g by (cases r) auto
  qed
qed simp

text \<open>C37. When the configuration cannot be loaded, the program cannot start: the default
  configuration has an empty endpoint, and connecting to it is an exception that nothing in
  \<open>main\<close> catches. No agent is made, whatever the arguments and the state of the system.\<close>

theorem default_config_cannot_start:
  assumes "ConfigLoader_load y junk (config_path_of args) = None"
    and "\<And>x. \<exists>e. fst (z_connect zmq [] x) = Inl e"
  shows "\<exists>e w' x'. main_setup y junk S zmq order args w x = (Inl e, w', x')"
proof -
  define config where "config = ConfigLoader_loadOrDefault y junk (config_path_of args)"
  have e: "zmq_endpoint (configZMQ config) = []"
    using assms(1) by (simp add: config_def ConfigLoader_loadOrDefault_def ConfigLoader_defaultConfig_def
        AgentConfig_init_def)
  obtain cs x1 where c: "make_collectors S (service config) [] x = (cs, x1)" by fastforce
  have "\<exists>e'. fst (z_all [z_context zmq, z_socket zmq, z_set zmq Sndhwm (queue_size (configZMQ config)),
      z_set zmq Linger (timeout_after_close_ms (configZMQ config)), z_connect zmq []] x1) = Inl e'"
    by (rule z_all_fails [of "z_connect zmq []"]) (simp, rule assms(2))
  then obtain e' where "fst (z_all [z_context zmq, z_socket zmq, z_set zmq Sndhwm (queue_size (configZMQ config)),
      z_set zmq Linger (timeout_after_close_ms (configZMQ config)), z_connect zmq []] x1) = Inl e'"
    by blast
  then have "fst (ZMQAdapter_new zmq (configZMQ config) x1) = Inl e'"
    by (auto simp: ZMQAdapter_new_def e split: prod.splits sum.splits)
  then show ?thesis
    by (cases "ZMQAdapter_new zmq (configZMQ config) x1")
      (simp add: main_setup_def c split_beta Let_def flip: config_def)
qed

definition no_yaml :: "unit yaml" where
  "no_yaml = \<lparr>y_load = (\<lambda>_. Inl (YamlException ''bad file'')), y_get = (\<lambda>_ _. Inr ()), y_defined = (\<lambda>_. False),
     y_string = (\<lambda>_. Inr []), y_int = (\<lambda>_. Inr 0), y_bool = (\<lambda>_. Inr False), y_bool_or = (\<lambda>_ b. b),
     y_elems = (\<lambda>_. [])\<rparr>"

definition strict_zmq :: "(journal_entry option \<times> journal_entry list) zmq" where
  "strict_zmq = \<lparr>z_context = (\<lambda>z. (Inr (), z)), z_socket = (\<lambda>z. (Inr (), z)), z_set = (\<lambda>_ _ z. (Inr (), z)),
     z_connect = (\<lambda>p z. (if p = [] then Inl (ZmqError ''Invalid argument'') else Inr (), z)),
     z_message = (\<lambda>_ z. (Inr (), z)), z_send = (\<lambda>b z. Some (Inr (Some (length b)), z)),
     z_close = (\<lambda>z. (Inr (), z)), z_shutdown = (\<lambda>z. (Inr (), z))\<rparr>"

theorem default_config_cannot_start_witness:
  "\<exists>e w' x'. main_setup no_yaml some_junk working_sources strict_zmq id [''/etc/agent.yaml''] empty_os (None, []) =
     (Inl e, w', x')"
  by (rule default_config_cannot_start)
    (simp_all add: ConfigLoader_load_def load_body_def no_yaml_def strict_zmq_def)

end
