(* ===== verification/Delivery.thy ===== *)
theory Delivery
  imports Agent_Handlers Adapter_Theorems Zmq_Theorems
begin

text \<open>
  What a receiver at the other end of the ZMQ socket gets when the agent sends: the locked send of
  \<open>Agent_Handlers\<close> linked with \<open>ZMQAdapter\<close> and with protobuf classes that store what is set. The
  relation \<open>delivered\<close> is the contract the end-to-end theorems state.
\<close>

text \<open>The agent linked with the ZMQ adapter.\<close>

definition sends_by_zmq :: "'x libs \<Rightarrow> 'm pb \<Rightarrow> 'x zmq \<Rightarrow> ZMQAdapter \<Rightarrow> bool" where
  "sends_by_zmq L api zmq adapter \<longleftrightarrow> l_send L = ZMQAdapter_send api zmq adapter"

text \<open>An offset line of \<open>ptp4l\<close> with its time of arrival, as an event and as the sample it stands for.\<close>

record offset_line =
  ol_time :: u64
  ol_stamp :: "nat \<times> nat"
  ol_source :: string
  ol_pads :: "nat \<times> nat \<times> nat"
  ol_offset :: i64
  ol_state :: i32
  ol_freq :: i64
  ol_delay :: i64

definition line_ok :: "offset_line \<Rightarrow> bool" where
  "line_ok x \<longleftrightarrow> is_word (ol_source x) \<and> hd (ol_source x) \<noteq> CHR ''r''"

definition line_event :: "string \<Rightarrow> offset_line \<Rightarrow> CollectorEvent" where
  "line_event unit x = (case (ol_stamp x, ol_pads x) of ((i, j), (p1, p2, p3)) \<Rightarrow>
     \<lparr>ts_usec = ol_time x, ev_unit = unit, ev_msg = ptp4l_offset_line (stamp i j) (ol_source x) p1 (ol_offset x)
        (ol_state x) p2 (ol_freq x) p3 (ol_delay x)\<rparr>)"

definition line_sample :: "offset_line \<Rightarrow> metric" where
  "line_sample x = MPtp4l \<lparr>ptp_unit = [], ptp_timestamp_us = ol_time x, ptp_offset = ol_offset x, ptp_freq = ol_freq x,
     ptp_path_delay = ol_delay x, ptp_state = ol_state x\<rparr>"

lemma line_prepared:
  assumes "line_ok x"
  shows "\<exists>mt. (\<forall>a. ptp4l_prepare L now (line_event u x) a = (Some mt, a)) \<and> without_unit mt = line_sample x"
proof -
  obtain i j where ij: "ol_stamp x = (i, j)" by fastforce
  obtain p1 p2 p3 where ps: "ol_pads x = (p1, p2, p3)" by (cases "ol_pads x") auto
  show ?thesis
    using assms parse_ptp4l_offset_line [of "ol_source x" i j p1 "ol_offset x" "ol_state x" p2 "ol_freq x" p3 "ol_delay x"]
    by (simp add: ptp4l_prepare_def line_event_def ij ps line_ok_def line_sample_def Ptp4lStats_init_def)
qed

text \<open>The receiver: it parses the bytes and reads the message, and the name of the node.\<close>

definition received :: "'m pb \<Rightarrow> (string \<Rightarrow> 'm option) \<Rightarrow> string \<Rightarrow> (metric \<times> string) option" where
  "received api parse bytes = Option.bind (parse bytes) (\<lambda>m. Option.bind (read_metric api m) (\<lambda>mt.
     case pb_get api [F ''node_name''] m of Some (PStr n) \<Rightarrow> Some (mt, n) | _ \<Rightarrow> None))"

text \<open>\<open>ParseFromString\<close> inverts \<open>SerializeToString\<close>.\<close>

definition parses_back :: "'m pb \<Rightarrow> (string \<Rightarrow> 'm option) \<Rightarrow> bool" where
  "parses_back api parse \<longleftrightarrow> (\<forall>m b. pb_serialize api m = Some b \<longrightarrow> parse b = Some m)"

text \<open>A socket that takes every message, although it may block until there is room, and messages that
  can be serialised. A ZMQ push socket without a send timeout is documented to be one.\<close>

definition takes_all :: "'m pb \<Rightarrow> 'z zmq \<Rightarrow> ZMQAdapter \<Rightarrow> string \<Rightarrow> metric list \<Rightarrow> bool" where
  "takes_all api zmq adapter n ms \<longleftrightarrow> has_sender adapter \<and> (\<forall>k z. \<exists>u. fst (z_message zmq k z) = Inr u) \<and>
     (\<forall>b z r z'. z_send zmq b z = Some (r, z') \<longrightarrow> (\<exists>k. r = Inr (Some k))) \<and> list_all (\<lambda>m. pb_serialize api (to_wrapper api m n) \<noteq> None) ms"

text \<open>What the receiver makes of the messages \<open>bs\<close>, when the metrics \<open>ms\<close> were sent for the node \<open>n\<close>: some
  of them, in order; all of them, when all were taken.\<close>

definition delivered :: "'m pb \<Rightarrow> 'z zmq \<Rightarrow> ZMQAdapter \<Rightarrow> (string \<Rightarrow> 'm option) \<Rightarrow> string \<Rightarrow> string list \<Rightarrow> metric list \<Rightarrow> bool" where
  "delivered api zmq adapter parse n bs ms \<longleftrightarrow>
     subseq (map (received api parse) bs) (map (\<lambda>m. Some (without_unit m, n)) ms) \<and>
     (takes_all api zmq adapter n ms \<longrightarrow> map (received api parse) bs = map (\<lambda>m. Some (without_unit m, n)) ms)"

lemma delivered_Nil [simp]: "delivered api zmq adapter parse n [] []"
  by (simp add: delivered_def)

lemma delivered_append:
  "delivered api zmq adapter parse n bs ms \<Longrightarrow> delivered api zmq adapter parse n bs' ms' \<Longrightarrow>
   delivered api zmq adapter parse n (bs @ bs') (ms @ ms')"
  by (auto simp: delivered_def takes_all_def intro: list_emb_append_mono)

lemma without_unit_idem [simp]: "without_unit (without_unit m) = without_unit m"
  by (cases m) simp_all

lemma to_wrapper_unit: "to_wrapper api (without_unit m) n = to_wrapper api m n"
  by (cases m) (simp_all add: to_wrapper_def to_ptp4l_metrics_def to_phc2sys_metrics_def to_system_metrics_def
      to_pps_metrics_def to_port_event_def to_ptp_topology_snapshot_def)

lemma delivered_unit: "delivered api zmq adapter parse n bs (map without_unit ms) = delivered api zmq adapter parse n bs ms"
  by (simp add: delivered_def takes_all_def list_all_iff to_wrapper_unit comp_def)

lemma taken:
  assumes t: "takes_all api zmq adapter n [m]" and "ZMQAdapter_send api zmq adapter m n z = Some (r, z')"
  shows "r = Inr True"
proof -
  obtain b where b: "pb_serialize api (to_wrapper api m n) = Some b" using t by (auto simp: takes_all_def)
  obtain r1 z1 where m: "z_message zmq (length b) z = (Inr r1, z1)" using t unfolding takes_all_def by (metis prod.collapse)
  have "\<exists>k. r2 = Inr (Some k)" if "z_send zmq b z1 = Some (r2, z2)" for r2 z2
    using t that unfolding takes_all_def by blast
  then show ?thesis using t assms(2) b m
    by (cases "z_send zmq b z1") (fastforce simp: takes_all_def ZMQAdapter_send_def send_impl_def split: prod.splits)+
qed

lemma send_received:
  assumes "pb_stores api" and "zmq_push zmq queued"
    and "parses_back api parse"
    and "sends_by_zmq L api zmq adapter"
    and "locked_send L mt a = Some (res, a')"
  shows "res = Inr () \<and> node a' = node a \<and>
    (\<exists>bs. queued (ag_ext a') = queued (ag_ext a) @ bs \<and> delivered api zmq adapter parse (node a) bs [mt])"
proof -
  obtain r x where s: "ZMQAdapter_send api zmq adapter mt (node a) (ag_ext a) = Some (r, x)"
    using assms(4,5) by (auto simp: locked_send_def sends_by_zmq_def split: option.splits)
  note one = send_one [OF assms(2) s]
  have "\<exists>bs. queued x = queued (ag_ext a) @ bs \<and> delivered api zmq adapter parse (node a) bs [mt]"
  proof (cases "r = Inr True")
    case True
    then obtain b where b: "pb_serialize api (to_wrapper api mt (node a)) = Some b" "queued x = queued (ag_ext a) @ [b]"
      using one s by auto
    then have "received api parse b = Some (without_unit mt, node a)"
      using assms(3) message_decoded [OF assms(1), of mt "node a"] by (simp add: received_def parses_back_def)
    with b(2) show ?thesis by (intro exI [of _ "[b]"]) (simp add: delivered_def)
  next
    case False
    then have "\<not> takes_all api zmq adapter (node a) [mt]" using taken [OF _ s] by auto
    with False one s show ?thesis by (intro exI [of _ "[]"]) (simp add: delivered_def)
  qed
  then show ?thesis using one s assms(4,5)
    by (auto simp: locked_send_def sends_by_zmq_def)
qed

lemma send_no_exception:
  assumes "zmq_push zmq queued" and "sends_by_zmq L api zmq adapter"
  shows "locked_send L m a \<noteq> Some (Inl e, a')"
  using send_one [OF assms(1), where api = api and a = adapter and mt = m and node = "node a" and z = "ag_ext a"] assms(2)
  by (auto simp: locked_send_def sends_by_zmq_def split: option.splits prod.splits sum.splits)

section \<open>Examples\<close>

text \<open>Classes that can serialise one message only, and a receiver for it.\<close>

definition example_line :: offset_line where
  "example_line = \<lparr>ol_time = 1700000000000001, ol_stamp = (192898, 322), ol_source = ''master'', ol_pads = (5, 1, 3),
     ol_offset = - 42, ol_state = 2, ol_freq = 3212, ol_delay = 7\<rparr>"

definition one_pb :: "((path \<Rightarrow> pval option) \<times> path list \<times> (path \<Rightarrow> nat)) pb" where
  "one_pb = map_pb\<lparr>pb_serialize := (\<lambda>m. if m = to_wrapper map_pb (line_sample example_line) ''node'' then Some ''message'' else None)\<rparr>"

definition wide_zmq :: "string list zmq" where
  "wide_zmq = small_zmq\<lparr>z_send := (\<lambda>bytes q. Some (Inr (Some (length bytes)), q @ [bytes]))\<rparr>"

definition zmq_world_libs :: "string list libs" where
  "zmq_world_libs = \<lparr>l_send = ZMQAdapter_send one_pb wide_zmq \<lparr>has_context = True, has_sender = True\<rparr>, l_peer = (=),
     l_stop = (\<lambda>_ w. w), l_ended = (\<lambda>_ _. True),
     l_net = \<lparr>n_socket = (\<lambda>w. (- 1, w)), n_ioctl = (\<lambda>_ _ w. (None, w)), n_close = (\<lambda>_ w. w), n_strerror = (\<lambda>_. [])\<rparr>,
     l_pci = \<lparr>p_alloc = (\<lambda>w. (False, w)), p_init = (\<lambda>w. w), p_get_dev = (\<lambda>_ w. (False, w)), p_FILL_IDENT = 1,
       p_fill = (\<lambda>_ w. (0, w)), p_ident = (\<lambda>_. (0, 0, 0)), p_lookup_vendor = (\<lambda>_ w. ([], w)),
       p_lookup_device = (\<lambda>_ _ w. ([], w)), p_free_dev = (\<lambda>w. w), p_cleanup = (\<lambda>w. w)\<rparr>,
     l_spawn = (\<lambda>_ _ w. (Inr ([], 1), w)), l_big = (\<lambda>_. 0)\<rparr>"

definition zmq_world_agent :: "string list agent" where
  "zmq_world_agent = \<lparr>node = ''node'', sysMetricsCollector = sysMetricsCollector offline_agent,
     topologyConfig = PtpTopologyConfig_init, pollTimeoutMs = 1000, ag_os = empty_os, ag_ext = []\<rparr>"

lemma one_pb_stores: "pb_stores one_pb"
  by (auto simp: pb_stores_def pb_set_law_def pb_mutable_law_def pb_add_law_def one_pb_def map_pb_def split_beta)

lemma wide_zmq_push: "zmq_push wide_zmq (\<lambda>q. q)"
  by (auto simp: zmq_push_def wide_zmq_def small_zmq_def)

lemma example_taken: "takes_all one_pb wide_zmq \<lparr>has_context = True, has_sender = True\<rparr> ''node'' [line_sample example_line]"
  by (simp add: takes_all_def wide_zmq_def small_zmq_def one_pb_def to_wrapper_def line_sample_def to_ptp4l_metrics_def
      set_header_def)

end
