(* ===== verification/Agent_Streams.thy ===== *)
theory Agent_Streams
  imports Agent_Threads Delivery
begin

text \<open>
  What each thread sends, in every interleaving of the agent's threads. An execution from the start
  is a \<open>history\<close>: it records which event arrived at which collector. A message is of the service of
  the thread that sends it, and what a reader has sent, has in its hands and has still to read is
  what arrived, in order.
\<close>

section \<open>Histories\<close>

definition arrive :: "nat \<Rightarrow> CollectorEvent \<Rightarrow> 'x agent_state \<Rightarrow> 'x agent_state" where
  "arrive k e s = s\<lparr>sources := (sources s)[k := (fst (sources s ! k) @ [e], snd (sources s ! k))]\<rparr>"

inductive history ::
    "'x libs \<Rightarrow> string list \<Rightarrow> 'x agent \<Rightarrow> (nat \<times> CollectorEvent) list \<Rightarrow> 'x agent_state \<Rightarrow> bool"
  for L names a where
  hi_init: "history L names a [] (initial names a)"
| hi_run: "history L names a tr s \<Longrightarrow> crashed s = None \<Longrightarrow> run_step L names s s' \<Longrightarrow> history L names a tr s'"
| hi_thread: "history L names a tr s \<Longrightarrow> crashed s = None \<Longrightarrow> t \<le> length names \<Longrightarrow> thread_step L names t s s' \<Longrightarrow>
    history L names a tr s'"
| hi_arrival: "history L names a tr s \<Longrightarrow> crashed s = None \<Longrightarrow> k < length names \<Longrightarrow>
    history L names a (tr @ [(k, e)]) (arrive k e s)"
| hi_outside: "history L names a tr s \<Longrightarrow> crashed s = None \<Longrightarrow> outside_step L names s s' \<Longrightarrow>
    map fst (sources s') = map fst (sources s) \<Longrightarrow> history L names a tr s'"

definition arrived :: "nat \<Rightarrow> (nat \<times> CollectorEvent) list \<Rightarrow> CollectorEvent list" where
  "arrived t tr = map snd (filter (\<lambda>x. fst x = t) tr)"

lemma arrived_simps [simp]:
  "arrived t [] = []" "arrived t (tr @ [(k, e)]) = arrived t tr @ (if k = t then [e] else [])"
  by (simp_all add: arrived_def)

text \<open>Histories and executions from the start are the same.\<close>

lemma history_exec: "history L names a tr s \<Longrightarrow> \<exists>n. exec L names n (initial names a) s"
proof (induction rule: history.induct)
  case hi_init
  then show ?case using ex_refl by blast
next
  case (hi_run tr s s')
  then show ?case using ex_run by blast
next
  case (hi_thread tr s t s')
  then show ?case using ex_thread by blast
next
  case (hi_arrival tr s k e)
  then obtain n where "exec L names n (initial names a) s" by blast
  moreover have "outside_step L names s (arrive k e s)"
    unfolding arrive_def by (rule arrival) (use hi_arrival in simp_all)
  ultimately show ?case using ex_outside hi_arrival.hyps(2) by blast
next
  case (hi_outside tr s s')
  then show ?case using ex_outside by blast
qed

lemma map_fst_update: "map fst (xs[k := (fst (xs ! k), b)]) = map fst xs"
  by (cases "k < length xs") (simp_all add: map_update list_update_same_conv list_update_beyond)

lemma outside_arrival:
  assumes "outside_step L names s s'"
  shows "map fst (sources s') = map fst (sources s) \<or> (\<exists>k e. k < length names \<and> s' = arrive k e s)"
  using assms
proof (cases rule: outside_step.cases)
  case (stop_collector k)
  then show ?thesis by (simp add: stop_one_def Let_def map_fst_update)
next
  case (source_ends k)
  then show ?thesis by (simp add: map_fst_update)
next
  case (arrival k es b e)
  then show ?thesis by (intro disjI2 exI [of _ k] exI [of _ e]) (simp add: arrive_def)
qed simp_all

lemma exec_history: "exec L names n s0 s \<Longrightarrow> s0 = initial names a \<Longrightarrow> \<exists>tr. history L names a tr s"
proof (induction rule: exec.induct)
  case (ex_refl s)
  then show ?case using hi_init by blast
next
  case (ex_run n s s1 s2)
  then show ?case using hi_run by blast
next
  case (ex_thread n s s1 t s2)
  then show ?case using hi_thread by blast
next
  case (ex_outside n s s1 s2)
  then show ?case using outside_arrival [OF ex_outside.hyps(3)] hi_outside hi_arrival by metis
qed

lemma history_inv: "history L names a tr s \<Longrightarrow> thread_inv L names s"
  using history_exec thread_inv_exec thread_inv_initial by metis

section \<open>Types of messages\<close>

text \<open>The service a metric belongs to.\<close>

fun service_of :: "metric \<Rightarrow> string" where
  "service_of (MPtp4l _) = ''ptp4l''"
| "service_of (MPhc2Sys _) = ''phc2sys''"
| "service_of (MPps _) = ''ppswatch''"
| "service_of (MSys _) = ''system''"
| "service_of (MPortEvent _) = ''ptp4l''"
| "service_of (MTopology _) = ''ptp4l''"

definition thread_service :: "string list \<Rightarrow> nat \<Rightarrow> string" where
  "thread_service names t = (if t < length names then names ! t else ''system'')"

fun carried :: "pc \<Rightarrow> metric list" where
  "carried (AtLock m) = [m]"
| "carried (AtSend m) = [m]"
| "carried _ = []"

definition typed :: "string list \<Rightarrow> 'x agent_state \<Rightarrow> bool" where
  "typed names s \<longleftrightarrow> (\<forall>(t, m) \<in> set (sent s). service_of m = thread_service names t) \<and>
     (\<forall>t \<le> length names. \<forall>m \<in> set (carried (threads s ! t)). service_of m = thread_service names t)"

lemma prepare_service:
  assumes "buildHandlers L name = Some prep" and "prep r e a = (Some m, a')"
  shows "service_of m = name"
  using assms
  by (auto simp: buildHandlers_def ptp4l_prepare_def phc2sys_prepare_def ppswatch_prepare_def Let_def
      split: if_splits option.splits prod.splits)

lemma sys_prepare_service: "sys_prepare r a = (m, a') \<Longrightarrow> service_of m = ''system''"
  by (auto simp: sys_prepare_def split: prod.splits)

lemma typed_thread:
  assumes "thread_step L names t s s'" and "t \<le> length names" and "thread_inv L names s" and "typed names s"
  shows "typed names s'"
proof -
  have len: "length (threads s) = Suc (length names)" and kind: "kind_ok L names t (threads s ! t)"
    using assms(2,3) by (simp_all add: thread_inv_def)
  have mine: "\<forall>m \<in> set (carried (threads s ! t)). service_of m = thread_service names t"
    using assms(2,4) by (simp add: typed_def)
  have old: "\<forall>(u, m) \<in> set (sent s). service_of m = thread_service names u" using assms(4) by (simp add: typed_def)
  have goto: "typed names (goto t p s1)"
    if "threads s1 = threads s" "\<forall>(u, m) \<in> set (sent s1). service_of m = thread_service names u"
      "\<forall>m \<in> set (carried p). service_of m = thread_service names t" for p s1
    using that assms(2,4) len by (auto simp: typed_def goto_def nth_list_update)
  show ?thesis
    using assms(1)
  proof (cases rule: thread_step.cases)
    case (th_prepare e prep r m a)
    have "\<forall>x. m = Some x \<longrightarrow> service_of x = thread_service names t"
      using prepare_service [OF th_prepare(4), of r e "the_agent s" _ a] th_prepare(3,5) by (simp add: thread_service_def)
    then show ?thesis unfolding th_prepare(1) using old by (intro goto) (auto split: option.splits)
  next
    case (th_collect r m a)
    then have "\<not> t < length names" using kind by (auto simp: kind_ok_def pc_is_def)
    then show ?thesis unfolding th_collect(1) using old sys_prepare_service [OF th_collect(3)]
      by (intro goto) (auto simp: thread_service_def)
  next
    case (th_crash m e a)
    then show ?thesis using assms(4) by (simp add: typed_def)
  qed (use old mine in \<open>auto simp: pc_is_def intro!: goto\<close>)
qed

lemma typed_history: "history L names a tr s \<Longrightarrow> typed names s"
proof (induction rule: history.induct)
  case hi_init
  have "replicate (Suc n) NotStarted ! t = NotStarted" if "t \<le> n" for n t using that by (simp del: replicate_Suc)
  then show ?case by (simp add: typed_def initial_def del: replicate_Suc)
next
  case (hi_run tr s s')
  have inv: "thread_inv L names s" by (rule history_inv [OF hi_run.hyps(1)])
  from hi_run.hyps(3) show ?case
    by (cases rule: run_step.cases)
      (use hi_run.IH inv in \<open>auto simp: typed_def goto_def thread_inv_def nth_list_update split: if_splits\<close>)
next
  case (hi_thread tr s t s')
  then show ?case using typed_thread history_inv by blast
next
  case (hi_arrival tr s k e)
  then show ?case by (simp add: typed_def arrive_def)
next
  case (hi_outside tr s s')
  have "threads s' = threads s" "sent s' = sent s" using same_outside [OF hi_outside.hyps(3)] by simp_all
  then show ?case using hi_outside.IH by (simp add: typed_def)
qed

text \<open>C5. In every interleaving each message sent, and each message about to be sent, is of the service
  of the thread that sends it: a reader of \<open>ptp4l\<close> sends offset samples, port events and topology
  snapshots only, a reader of \<open>phc2sys\<close> or \<open>ppswatch\<close> its own samples only, and the system thread
  snapshots of the system only.\<close>

theorem messages_typed:
  assumes "exec L names n (initial names a) s"
  shows "(\<forall>(t, m) \<in> set (sent s). service_of m = thread_service names t) \<and>
    (\<forall>t \<le> length names. \<forall>m \<in> set (carried (threads s ! t)). service_of m = thread_service names t)"
proof -
  obtain tr where "history L names a tr s" using exec_history [OF assms] by blast
  from typed_history [OF this] show ?thesis unfolding typed_def .
qed

section \<open>Streams\<close>

text \<open>The values \<open>f\<close> finds in a list.\<close>

definition picks :: "('a \<Rightarrow> 'b option) \<Rightarrow> 'a list \<Rightarrow> 'b list" where
  "picks f xs = concat (map (\<lambda>x. opt_list (f x)) xs)"

lemma picks_simps [simp]:
  "picks f [] = []" "picks f (x # xs) = opt_list (f x) @ picks f xs" "picks f (xs @ ys) = picks f xs @ picks f ys"
  by (simp_all add: picks_def)

definition sent_of :: "nat \<Rightarrow> 'x agent_state \<Rightarrow> metric list" where
  "sent_of t s = map snd (filter (\<lambda>x. fst x = t) (sent s))"

fun in_hand :: "(metric \<Rightarrow> 'b option) \<Rightarrow> (CollectorEvent \<Rightarrow> 'b option) \<Rightarrow> pc \<Rightarrow> 'b list" where
  "in_hand view f (AtPrepare e) = opt_list (f e)"
| "in_hand view f (AtLock m) = opt_list (view m)"
| "in_hand view f (AtSend m) = opt_list (view m)"
| "in_hand view f _ = []"

text \<open>What thread \<open>t\<close> has sent, what it works on and what it has still to read.\<close>

definition stream :: "(metric \<Rightarrow> 'b option) \<Rightarrow> (CollectorEvent \<Rightarrow> 'b option) \<Rightarrow> nat \<Rightarrow> 'x agent_state \<Rightarrow> 'b list" where
  "stream view f t s = picks view (sent_of t s) @ in_hand view f (threads s ! t) @ picks f (fst (sources s ! t))"

text \<open>A view of the messages of a handler that depends on the event only, not on the agent or the
  readings of the call.\<close>

locale observation =
  fixes prep :: "'x prepare"
    and view :: "metric \<Rightarrow> 'b option"
    and f :: "CollectorEvent \<Rightarrow> 'b option"
  assumes seen: "Option.bind (fst (prep r e a)) view = f e"
begin

lemma seen_some: "prep r e a = (Some m, a') \<Longrightarrow> view m = f e"
  and seen_none: "prep r e a = (None, a') \<Longrightarrow> f e = None"
  using seen [of r e a] by simp_all

lemma stream_thread:
  assumes "thread_step L names u s s'" and "thread_inv L names s" and "t < length names"
    and "buildHandlers L (names ! t) = Some prep"
  shows "stream view f t s' = stream view f t s"
proof -
  have len: "t < length (threads s)" "t < length (sources s)" using assms(2,3) by (simp_all add: thread_inv_def)
  show ?thesis
    using assms(1)
  proof (cases rule: thread_step.cases)
    case (th_prepare e prep' r m a)
    show ?thesis
    proof (cases "u = t")
      case True
      then have "prep' = prep" using th_prepare(4) assms(4) by simp
      then have "in_hand view f (case m of Some x \<Rightarrow> AtLock x | None \<Rightarrow> AtWhile) = opt_list (f e)"
        using th_prepare(5) seen_some [of r e "the_agent s" _ a] seen_none [of r e "the_agent s" a]
        by (cases m) simp_all
      then show ?thesis using th_prepare True len by (auto simp: stream_def sent_of_def goto_def pc_is_def)
    qed (use th_prepare len in \<open>auto simp: stream_def sent_of_def goto_def\<close>)
  next
    case (th_collect r m a)
    have "kind_ok L names t (threads s ! t)" using assms(2,3) by (simp add: thread_inv_def)
    then have "u \<noteq> t" using th_collect(2) assms(3) by (auto simp: kind_ok_def pc_is_def)
    then show ?thesis using th_collect len by (auto simp: stream_def sent_of_def goto_def)
  qed (use len assms(3) in \<open>auto simp: stream_def sent_of_def goto_def pc_is_def nth_list_update\<close>)
qed

lemma stream_history:
  assumes "history L names a tr s" and "t < length names" and "buildHandlers L (names ! t) = Some prep"
  shows "stream view f t s = picks f (arrived t tr)"
  using assms(1)
proof (induction rule: history.induct)
  case hi_init
  have "replicate (Suc (length names)) NotStarted ! t = NotStarted" using assms(2) by (simp del: replicate_Suc)
  then show ?case using assms(2) by (simp add: stream_def sent_of_def initial_def del: replicate_Suc)
next
  case (hi_run tr s s')
  have inv: "thread_inv L names s" by (rule history_inv [OF hi_run.hyps(1)])
  from hi_run.hyps(3) have "sent s' = sent s" "sources s' = sources s" "threads s' ! t = threads s ! t \<or>
      (threads s ! t = NotStarted \<and> threads s' ! t \<in> {NotStarted, AtWhile})"
    using inv assms(2) by (cases rule: run_step.cases; auto simp: goto_def nth_list_update thread_inv_def)+
  then show ?case using hi_run.IH by (auto simp: stream_def sent_of_def)
next
  case (hi_thread tr s u s')
  then show ?case using stream_thread [OF hi_thread.hyps(4) _ assms(2,3)] history_inv by metis
next
  case (hi_arrival tr s k e)
  have "t < length (sources s)" using history_inv [OF hi_arrival.hyps(1)] assms(2) by (simp add: thread_inv_def)
  then show ?case using hi_arrival.IH by (auto simp: stream_def sent_of_def arrive_def nth_list_update)
next
  case (hi_outside tr s s')
  have "t < length (sources s)" using history_inv [OF hi_outside.hyps(1)] assms(2) by (simp add: thread_inv_def)
  moreover from hi_outside.hyps(4) have "length (sources s') = length (sources s)" by (rule map_eq_imp_length_eq)
  ultimately have "fst (sources s' ! t) = fst (sources s ! t)"
    using arg_cong [OF hi_outside.hyps(4), of "\<lambda>xs. xs ! t"] by simp
  moreover have "threads s' = threads s" "sent s' = sent s" using same_outside [OF hi_outside.hyps(3)] by simp_all
  ultimately show ?case using hi_outside.IH by (simp add: stream_def sent_of_def)
qed

end

section \<open>The services\<close>

text \<open>The part of a message that its event determines: not the unit, which is not sent, nor the name of
  the network adapter; nothing of the snapshots.\<close>

fun observable :: "metric \<Rightarrow> metric option" where
  "observable (MPortEvent p) = Some (MPortEvent (p\<lparr>pe_unit := [], pe_adapterName := []\<rparr>))"
| "observable (MSys s) = None"
| "observable (MTopology s) = None"
| "observable m = Some (without_unit m)"

text \<open>What an event of a service reports.\<close>

definition reported :: "string \<Rightarrow> CollectorEvent \<Rightarrow> metric option" where
  "reported name e =
     (if name = ''ptp4l'' then
        (case Ptp4l_parseMetrics (ev_msg e) of
           Some m \<Rightarrow> Some (MPtp4l (m\<lparr>ptp_unit := [], ptp_timestamp_us := ts_usec e\<rparr>))
         | None \<Rightarrow> map_option (\<lambda>p. MPortEvent (p\<lparr>pe_unit := [], pe_timestamp_us := ts_usec e, pe_adapterName := []\<rparr>))
             (Ptp4l_parsePortEvent (ev_msg e)))
      else if name = ''phc2sys'' then
        map_option (\<lambda>m. MPhc2Sys (m\<lparr>phc_unit := [], phc_timestamp_us := ts_usec e\<rparr>)) (Phc2Sys_parseMetrics (ev_msg e))
      else if name = ''ppswatch'' then
        map_option (\<lambda>m. MPps (m\<lparr>pps_unit := [], pps_timestamp_us := ts_usec e\<rparr>)) (PPS_parseMetrics 0 (ev_msg e))
      else None)"

interpretation ptp4l: observation "\<lambda>(now, junk). ptp4l_prepare L now" observable "reported ''ptp4l''" for L
  by unfold_locales
    (auto simp: reported_def ptp4l_prepare_def watch_interface_def Let_def split: option.splits prod.splits)

interpretation phc2sys: observation "\<lambda>_ e a. (phc2sys_prepare e, a)" observable "reported ''phc2sys''"
  by unfold_locales (auto simp: reported_def phc2sys_prepare_def split: option.splits)

lemma PPS_stamp: "PPS_parseMetrics junk msg = map_option (\<lambda>m. m\<lparr>pps_timestamp_us := junk\<rparr>) (PPS_parseMetrics 0 msg)"
  by (auto simp: PPS_parseMetrics_def PPSStats_init_def Let_def length_Suc_conv eval_nat_numeral put_defs split: sval.splits)

interpretation ppswatch: observation "\<lambda>(now, junk) e a. (ppswatch_prepare junk e, a)" observable "reported ''ppswatch''"
proof
  fix r :: "u64 \<times> u64" and e and a :: "'x agent"
  show "Option.bind (fst ((\<lambda>(now, junk) e a. (ppswatch_prepare junk e, a)) r e a)) observable = reported ''ppswatch'' e"
    using PPS_stamp [of "snd r" "ev_msg e"]
    by (auto simp: reported_def ppswatch_prepare_def split_beta split: option.splits)
qed

lemma handler_observed:
  assumes "buildHandlers L name = Some prep"
  shows "observation prep observable (reported name)"
  using assms ptp4l.observation_axioms phc2sys.observation_axioms ppswatch.observation_axioms
  by (auto simp: buildHandlers_def split: if_splits)

lemma handlers: "name \<in> {''ptp4l'', ''phc2sys'', ''ppswatch''} \<Longrightarrow> \<exists>prep. buildHandlers L name = Some prep"
  by (auto simp: buildHandlers_def)

lemma reader_stream:
  assumes "history L names a tr s" and "t < length names" and "names ! t \<in> {''ptp4l'', ''phc2sys'', ''ppswatch''}"
  shows "stream observable (reported (names ! t)) t s = picks (reported (names ! t)) (arrived t tr)"
proof -
  obtain prep where p: "buildHandlers L (names ! t) = Some prep" using handlers [OF assms(3)] by blast
  show ?thesis by (rule observation.stream_history [OF handler_observed [OF p] assms(1,2) p])
qed

section \<open>The queue\<close>

text \<open>The network, PCI and process calls, and the other end of the socket, leave \<open>q\<close> of the world alone:
  for instance the list of the messages the socket took.\<close>

definition leaves :: "('x \<Rightarrow> 'q) \<Rightarrow> ('x \<Rightarrow> 'r \<times> 'x) \<Rightarrow> bool" where
  "leaves q g \<longleftrightarrow> (\<forall>x. q (snd (g x)) = q x)"

definition calls_leave :: "'x libs \<Rightarrow> ('x \<Rightarrow> 'q) \<Rightarrow> bool" where
  "calls_leave L q \<longleftrightarrow> leaves q (n_socket (l_net L)) \<and> (\<forall>fd name. leaves q (n_ioctl (l_net L) fd name)) \<and>
     (\<forall>fd x. q (n_close (l_net L) fd x) = q x) \<and> leaves q (p_alloc (l_pci L)) \<and> (\<forall>x. q (p_init (l_pci L) x) = q x) \<and>
     (\<forall>addr. leaves q (p_get_dev (l_pci L) addr)) \<and> (\<forall>k. leaves q (p_fill (l_pci L) k)) \<and>
     (\<forall>v. leaves q (p_lookup_vendor (l_pci L) v)) \<and> (\<forall>v d. leaves q (p_lookup_device (l_pci L) v d)) \<and>
     (\<forall>x. q (p_free_dev (l_pci L) x) = q x) \<and> (\<forall>x. q (p_cleanup (l_pci L) x) = q x) \<and>
     (\<forall>path args. leaves q (l_spawn L path args)) \<and> (\<forall>x x'. l_peer L x x' \<longrightarrow> q x' = q x)"

lemma leavesD: "leaves q g \<Longrightarrow> g x = (r, x') \<Longrightarrow> q x' = q x"
  unfolding leaves_def by (metis snd_conv)

lemma leavesI: "(\<And>x r x'. g x = (r, x') \<Longrightarrow> q x' = q x) \<Longrightarrow> leaves q g"
  by (simp add: leaves_def) (metis prod.collapse)

lemma resolve_leaves:
  assumes "calls_leave L q"
  shows "leaves q (resolve (l_net L) (l_pci L) name)"
proof -
  have bus: "leaves q (getBusInfo (l_net L) name)"
    using assms by (auto simp: calls_leave_def getBusInfo_closes leaves_def split_beta Let_def)
  have lookup: "leaves q (lookupAdapterName (l_pci L) info)" for info
    using assms by (auto simp: calls_leave_def lookupAdapterName_def leaves_def split_beta Let_def split: sum.splits)
  show ?thesis
    using leavesD [OF bus] leavesD [OF lookup]
    by (auto simp: resolve_def intro!: leavesI split: prod.splits sum.splits)
qed

lemma run_leaves: "calls_leave L q \<Longrightarrow> leaves q (runCommand (l_spawn L) config command)"
  by (auto simp: calls_leave_def runCommand_def leaves_def split_beta split: sum.splits)

lemma collect_leaves:
  assumes "calls_leave L q"
  shows "leaves q (PtpTopologyCollector_collect (l_spawn L) big now config)"
  using leavesD [OF run_leaves [OF assms]]
  by (auto simp: PtpTopologyCollector_collect_def intro!: leavesI split: prod.splits option.splits)

lemma prepare_leaves:
  assumes "buildHandlers L name = Some prep" and "calls_leave L q" and "prep r e a = (m, a')"
  shows "q (ag_ext a') = q (ag_ext a) \<and> node a' = node a"
  using assms(1,3) leavesD [OF resolve_leaves [OF assms(2)]] leavesD [OF collect_leaves [OF assms(2)]]
  by (auto simp: buildHandlers_def ptp4l_prepare_def watch_interface_def Let_def
      split: if_splits option.splits prod.splits)

text \<open>And so does stopping a collector.\<close>

definition quiet :: "'x libs \<Rightarrow> ('x \<Rightarrow> 'q) \<Rightarrow> bool" where
  "quiet L q \<longleftrightarrow> calls_leave L q \<and> (\<forall>k x. q (l_stop L k x) = q x)"

lemma quiet_outside:
  assumes "quiet L q" and "outside_step L names s s'"
  shows "q (ag_ext (the_agent s')) = q (ag_ext (the_agent s)) \<and> node (the_agent s') = node (the_agent s)"
  using agent_outside [OF assms(2)] assms(1) by (auto simp: quiet_def calls_leave_def)

lemma prepare_quiet:
  assumes "buildHandlers L name = Some prep" and "quiet L q" and "prep r e a = (m, a')"
  shows "q (ag_ext a') = q (ag_ext a) \<and> node a' = node a"
  using prepare_leaves [OF assms(1) _ assms(3), of q] assms(2) by (simp add: quiet_def)

lemma sys_prepare_quiet: "sys_prepare r a = (m, a') \<Longrightarrow> ag_ext a' = ag_ext a \<and> node a' = node a"
  by (auto simp: sys_prepare_def split: prod.splits)

text \<open>What is in the queue is what was sent, in the order of the lock.\<close>

definition queue_ok ::
    "'m pb \<Rightarrow> 'x zmq \<Rightarrow> ZMQAdapter \<Rightarrow> (string \<Rightarrow> 'm option) \<Rightarrow> ('x \<Rightarrow> string list) \<Rightarrow> 'x agent \<Rightarrow> 'x agent_state \<Rightarrow> bool" where
  "queue_ok api zmq adapter parse queued a s \<longleftrightarrow> crashed s = None \<and> node (the_agent s) = node a \<and>
     (\<exists>bs. queued (ag_ext (the_agent s)) = queued (ag_ext a) @ bs \<and>
        delivered api zmq adapter parse (node a) bs (map snd (sent s)))"

lemma queue_ok_same:
  assumes "queue_ok api zmq adapter parse queued a s"
    and "queued (ag_ext (the_agent s')) = queued (ag_ext (the_agent s))" and "node (the_agent s') = node (the_agent s)"
    and "sent s' = sent s" and "crashed s' = None"
  shows "queue_ok api zmq adapter parse queued a s'"
  using assms by (simp add: queue_ok_def)

lemma queue_thread:
  assumes "pb_stores api" and "zmq_push zmq queued"
    and "parses_back api parse"
    and "sends_by_zmq L api zmq adapter" and "quiet L queued"
    and "thread_step L names t s s'" and ok: "queue_ok api zmq adapter parse queued a s"
  shows "queue_ok api zmq adapter parse queued a s'"
  using assms(6)
proof (cases rule: thread_step.cases)
  case (th_prepare e prep r m b)
  then show ?thesis using ok prepare_quiet [OF th_prepare(4) assms(5) th_prepare(5)]
    by (intro queue_ok_same [OF ok]) (simp_all add: goto_def queue_ok_def)
next
  case (th_collect r m b)
  then show ?thesis using ok sys_prepare_quiet [OF th_collect(3)]
    by (intro queue_ok_same [OF ok]) (simp_all add: goto_def queue_ok_def)
next
  case (th_send m b)
  obtain bs where bs: "queued (ag_ext (the_agent s)) = queued (ag_ext a) @ bs"
      "delivered api zmq adapter parse (node a) bs (map snd (sent s))" "node (the_agent s) = node a" "crashed s = None"
    using ok by (auto simp: queue_ok_def)
  obtain cs where "queued (ag_ext b) = queued (ag_ext (the_agent s)) @ cs" "node b = node (the_agent s)"
      "delivered api zmq adapter parse (node a) cs [m]"
    using send_received [OF assms(1-4) th_send(3)] bs(3) by auto
  then show ?thesis using bs delivered_append [OF bs(2), of cs "[m]"] th_send(1)
    by (auto simp: queue_ok_def goto_def intro!: exI [of _ "bs @ cs"])
next
  case (th_crash m e b)
  then show ?thesis using send_no_exception [OF assms(2,4)] by blast
qed (use ok in \<open>auto simp: queue_ok_def goto_def\<close>)

lemma queue_history:
  assumes "pb_stores api" and "zmq_push zmq queued"
    and "parses_back api parse"
    and "sends_by_zmq L api zmq adapter" and "quiet L queued"
    and "history L names a tr s"
  shows "queue_ok api zmq adapter parse queued a s"
  using assms(6)
proof (induction rule: history.induct)
  case hi_init
  then show ?case by (auto simp: queue_ok_def initial_def intro!: exI [of _ "[]"])
next
  case (hi_run tr s s')
  from hi_run.hyps(3) have "the_agent s' = the_agent s" "sent s' = sent s" "crashed s' = crashed s"
    by (cases rule: run_step.cases; simp add: goto_def)+
  then show ?case using hi_run.IH by (simp add: queue_ok_def)
next
  case (hi_thread tr s t s')
  from queue_thread [OF assms(1-5) hi_thread.hyps(4) hi_thread.IH] show ?case .
next
  case (hi_arrival tr s k e)
  then show ?case by (simp add: queue_ok_def arrive_def)
next
  case (hi_outside tr s s')
  have same: "sent s' = sent s" "crashed s' = crashed s" using same_outside [OF hi_outside.hyps(3)] by simp_all
  have "node (the_agent s') = node (the_agent s)" "queued (ag_ext (the_agent s')) = queued (ag_ext (the_agent s))"
    using quiet_outside [OF assms(5) hi_outside.hyps(3)] by simp_all
  with same hi_outside.IH show ?case by (simp add: queue_ok_def)
qed

lemma no_crash:
  assumes "zmq_push zmq queued" and "sends_by_zmq L api zmq adapter"
  shows "exec L names n s s' \<Longrightarrow> crashed s = None \<Longrightarrow> crashed s' = None"
proof (induction rule: exec.induct)
  case (ex_run n s s1 s2)
  then show ?case by (auto simp: goto_def elim: run_stepE)
next
  case (ex_thread n s s1 t s2)
  from ex_thread.hyps(4) show ?case
  proof (cases rule: thread_step.cases)
    case (th_crash m e a)
    then show ?thesis using send_no_exception [OF assms] by blast
  qed (use ex_thread in \<open>simp_all add: goto_def\<close>)
next
  case (ex_outside n s s1 s2)
  then show ?case using same_outside [OF ex_outside.hyps(3)] by simp
qed simp

section \<open>What the receiver sees of a service\<close>

definition seen_from :: "string \<Rightarrow> (metric \<times> string) option \<Rightarrow> (metric \<times> string) option" where
  "seen_from name x = (case x of
     Some (m, n) \<Rightarrow> if service_of m = name then map_option (\<lambda>v. (v, n)) (observable m) else None
   | None \<Rightarrow> None)"

definition not_yet_sent :: "string \<Rightarrow> nat \<Rightarrow> 'x agent_state \<Rightarrow> metric list" where
  "not_yet_sent name t s = in_hand observable (reported name) (threads s ! t) @ picks (reported name) (fst (sources s ! t))"

lemma observable_unit [simp]: "observable (without_unit m) = observable m" "service_of (without_unit m) = service_of m"
  by (cases m; simp)+

lemma subseq_picks: "subseq xs ys \<Longrightarrow> subseq (picks f xs) (picks f ys)"
proof (induction rule: list_emb.induct)
  case (list_emb_Cons xs ys y)
  then show ?case by (simp add: subseq_drop_many)
next
  case (list_emb_Cons2 x y xs ys)
  then show ?case by (simp add: list_emb_append_mono)
qed simp

lemma seen_of_sent:
  assumes "typed names s" and "distinct names" and "t < length names" and "names ! t \<noteq> ''system''"
  shows "picks (seen_from (names ! t)) (map (\<lambda>m. Some (without_unit m, n)) (map snd (sent s))) =
    map (\<lambda>v. (v, n)) (picks observable (sent_of t s))"
proof -
  have mine: "service_of m = names ! t \<longleftrightarrow> u = t" if "(u, m) \<in> set (sent s)" for u m
  proof -
    have "service_of m = thread_service names u" using assms(1) that by (auto simp: typed_def)
    then show ?thesis using assms(2-4) by (auto simp: thread_service_def nth_eq_iff_index_eq)
  qed
  have "picks (seen_from (names ! t)) (map (\<lambda>m. Some (without_unit m, n)) (map snd xs)) =
      map (\<lambda>v. (v, n)) (picks observable (map snd (filter (\<lambda>x. fst x = t) xs)))" if "set xs \<subseteq> set (sent s)" for xs
    using that
  proof (induction xs)
    case (Cons x xs)
    obtain u m where x: "x = (u, m)" by fastforce
    then show ?case using Cons mine [of u m] by (cases "observable m") (auto simp: seen_from_def)
  qed simp
  then show ?thesis by (simp add: sent_of_def)
qed

lemma received_stream:
  assumes "pb_stores api" and "zmq_push zmq queued"
    and "parses_back api parse"
    and "sends_by_zmq L api zmq adapter" and "quiet L queued"
    and "history L names a tr s" and "distinct names" and "t < length names"
    and service: "names ! t = name" "name \<in> {''ptp4l'', ''phc2sys'', ''ppswatch''}"
  shows "\<exists>bs. queued (ag_ext (the_agent s)) = queued (ag_ext a) @ bs \<and>
    subseq (picks (seen_from name) (map (received api parse) bs)) (map (\<lambda>v. (v, node a)) (picks (reported name) (arrived t tr))) \<and>
    (takes_all api zmq adapter (node a) (map snd (sent s)) \<longrightarrow>
       picks (seen_from name) (map (received api parse) bs) @ map (\<lambda>v. (v, node a)) (not_yet_sent name t s) =
       map (\<lambda>v. (v, node a)) (picks (reported name) (arrived t tr)))"
proof -
  obtain bs where bs: "queued (ag_ext (the_agent s)) = queued (ag_ext a) @ bs"
      "delivered api zmq adapter parse (node a) bs (map snd (sent s))"
    using queue_history [OF assms(1-6)] by (auto simp: queue_ok_def)
  let ?all = "map (\<lambda>m. Some (without_unit m, node a)) (map snd (sent s))" and ?tag = "\<lambda>v. (v, node a)"
  have seen: "picks (seen_from name) ?all = map ?tag (picks observable (sent_of t s))"
    using seen_of_sent [OF typed_history [OF assms(6)] assms(7,8), where n = "node a"] service by auto
  have stream: "picks observable (sent_of t s) @ not_yet_sent name t s = picks (reported name) (arrived t tr)"
    using reader_stream [OF assms(6,8)] service by (simp add: stream_def not_yet_sent_def)
  have "subseq (picks (seen_from name) (map (received api parse) bs)) (map ?tag (picks observable (sent_of t s)))"
    using bs(2) subseq_picks [of _ ?all "seen_from name"] unfolding delivered_def seen by blast
  then have "subseq (picks (seen_from name) (map (received api parse) bs)) (map ?tag (picks (reported name) (arrived t tr)))"
    unfolding stream [symmetric] by (simp add: subseq_rev_drop_many)
  moreover have "picks (seen_from name) (map (received api parse) bs) @ map ?tag (not_yet_sent name t s) =
      map ?tag (picks (reported name) (arrived t tr))" if "takes_all api zmq adapter (node a) (map snd (sent s))"
    using bs(2) that seen unfolding delivered_def stream [symmetric] by simp
  ultimately show ?thesis using bs(1) by blast
qed

section \<open>A run with one message\<close>

text \<open>One \<open>ptp4l\<close> reader; \<open>p\<close> is where it is, \<open>es\<close> what it has still to read.\<close>

definition demo :: "pc \<Rightarrow> CollectorEvent list \<Rightarrow> nat option \<Rightarrow> (nat \<times> metric) list \<Rightarrow> 'x agent \<Rightarrow> 'x agent_state" where
  "demo p es mx ms a = \<lparr>running = True, mutex = mx, threads = [p, AtWhile], main_at = Joining 0, stopper = None,
     sources = [(es, False)], the_agent = a, sent = ms, crashed = None\<rparr>"

definition example_event :: CollectorEvent where
  "example_event = line_event ''ptp4l'' example_line"

definition example_metric :: metric where
  "example_metric = MPtp4l \<lparr>ptp_unit = ''ptp4l'', ptp_timestamp_us = ol_time example_line, ptp_offset = ol_offset example_line,
     ptp_freq = ol_freq example_line, ptp_path_delay = ol_delay example_line, ptp_state = ol_state example_line\<rparr>"

lemma example_parsed: "Ptp4l_parseMetrics (ev_msg example_event) = Some (Ptp4lStats_init
    \<lparr>ptp_offset := ol_offset example_line, ptp_state := ol_state example_line, ptp_freq := ol_freq example_line,
     ptp_path_delay := ol_delay example_line\<rparr>)"
  using parse_ptp4l_offset_line [of "''master''" 192898 322 5 "ol_offset example_line" "ol_state example_line" 1
      "ol_freq example_line" 3 "ol_delay example_line"]
  by (simp add: example_event_def line_event_def example_line_def is_word_def)

lemma example_fields: "ts_usec example_event = ol_time example_line" "ev_unit example_event = ''ptp4l''"
  by (simp_all add: example_event_def line_event_def split: prod.splits)

lemma example_prepared: "ptp4l_prepare L now example_event a = (Some example_metric, a)"
  by (simp add: ptp4l_prepare_def example_parsed example_fields example_metric_def Ptp4lStats_init_def)

lemma example_reported: "reported ''ptp4l'' example_event = Some (line_sample example_line)"
  by (simp add: reported_def example_parsed example_fields line_sample_def Ptp4lStats_init_def)

lemma demo_started: "history L one_name a [] (demo AtWhile [] None [] a)"
proof -
  let ?h = "history L one_name a []"
  from hi_run [OF hi_init [of L one_name a] _ run_start]
  have "?h (stop_run a True [NotStarted, NotStarted] (Spawning 0) None False)"
    by (simp add: initial_def stop_run_def)
  from hi_run [OF this _ run_spawn [of _ 0]]
  have "?h (stop_run a True [AtWhile, NotStarted] (Spawning 1) None False)"
    by (simp add: stop_run_def goto_def buildHandlers_def)
  from hi_run [OF this _ run_spawn_sys]
  show ?thesis by (simp add: stop_run_def goto_def demo_def)
qed

lemma demo_turn:
  assumes "history L one_name a0 tr (demo AtWhile [] None ms a)"
  shows "history L one_name a0 (tr @ [(0, example_event)]) (demo (AtSend example_metric) [] (Some 0) ms a)"
proof -
  let ?h = "history L one_name a0 (tr @ [(0, example_event)])"
  from hi_arrival [OF assms, of 0 example_event]
  have "?h (demo AtWhile [example_event] None ms a)" by (simp add: demo_def arrive_def)
  from hi_thread [OF this _ _ th_while [of 0]]
  have "?h (demo AtRead [example_event] None ms a)" by (simp add: demo_def goto_def pc_is_def)
  from hi_thread [OF this _ _ th_event [where t = 0 and e = example_event and es = "[]" and b = False]]
  have "?h (demo (AtPrepare example_event) [] None ms a)" by (simp add: demo_def goto_def pc_is_def)
  from hi_thread [OF this _ _ th_prepare [where t = 0 and e = example_event and L = L and r = "(0, 0)" and a = a
      and prep = "\<lambda>(now, junk). ptp4l_prepare L now" and m = "Some example_metric"]]
  have "?h (demo (AtLock example_metric) [] None ms a)"
    by (simp add: demo_def goto_def pc_is_def buildHandlers_def example_prepared)
  from hi_thread [OF this _ _ th_lock [where t = 0 and m = example_metric]]
  show ?thesis by (simp add: demo_def goto_def pc_is_def)
qed

lemma demo_history:
  assumes "locked_send L example_metric a = Some (Inr (), a')"
  shows "history L one_name a [(0, example_event)] (demo AtUnlock [] (Some 0) [(0, example_metric)] a')"
proof -
  have "history L one_name a [(0, example_event)] (demo (AtSend example_metric) [] (Some 0) [] a)"
    using demo_turn [OF demo_started] by simp
  from hi_thread [OF this _ _ th_send [where t = 0 and m = example_metric and a = a']] assms
  show ?thesis by (simp add: demo_def goto_def pc_is_def)
qed

text \<open>The reader has sent one message and is about to send a second one.\<close>

lemma demo_again:
  assumes "locked_send L example_metric a = Some (Inr (), a')"
  shows "history L one_name a [(0, example_event), (0, example_event)]
    (demo (AtSend example_metric) [] (Some 0) [(0, example_metric)] a')"
proof -
  from hi_thread [OF demo_history [OF assms] _ _ th_unlock [where t = 0]]
  have "history L one_name a [(0, example_event)] (demo AtWhile [] None [(0, example_metric)] a')"
    by (simp add: demo_def goto_def pc_is_def)
  from demo_turn [OF this] show ?thesis by simp
qed

theorem messages_typed_witness:
  "sent (demo AtUnlock [] (Some 0) [(0, example_metric)] offline_agent) = [(0, example_metric)] \<and>
   service_of example_metric = one_name ! 0"
proof -
  have "locked_send offline_libs example_metric offline_agent = Some (Inr (), offline_agent)"
    by (simp add: locked_send_def offline_libs_def)
  from history_exec [OF demo_history [OF this]] obtain n where
    "exec offline_libs one_name n (initial one_name offline_agent) (demo AtUnlock [] (Some 0) [(0, example_metric)] offline_agent)"
    by blast
  from messages_typed [OF this] show ?thesis by (simp add: demo_def thread_service_def)
qed

end
