(* ===== verification/Program_Life.thy ===== *)
theory Program_Life
  imports Main_Program Agent_Streams Reader_Loop
begin

text \<open>
  The life of the program (\<open>src/main.cpp\<close>, \<open>include/agent.h\<close>, \<open>include/collector.h\<close>): the interface
  \<open>ICollector\<close> over its two classes, the signal handler, that it ends the program, and where it does not.
\<close>

section \<open>ICollector\<close>

text \<open>The virtual methods.\<close>

definition collector_readEvent ::
    "('h, 'p, 'x) source_libs \<Rightarrow> u64 \<Rightarrow> ('h, 'p) collector \<Rightarrow> 'x \<Rightarrow> (CollectorEvent option \<times> 'x) option" where
  "collector_readEvent S junk c x = (case c of
     Journal j \<Rightarrow> JournalCollector_readEvent (s_journal S) (s_flag S (jc_unit j)) junk j x
   | Subprocess p \<Rightarrow> SubprocessCollector_readEvent (s_process S) p x)"

definition collector_stop :: "('h, 'p, 'x) source_libs \<Rightarrow> ('h, 'p) collector \<Rightarrow> 'x \<Rightarrow> 'x" where
  "collector_stop S c x = (case c of
     Journal j \<Rightarrow> JournalCollector_stop (s_flag S (jc_unit j)) j x
   | Subprocess p \<Rightarrow> SubprocessCollector_stop (s_process S) p x)"

fun collector_unit :: "('h, 'p) collector \<Rightarrow> string" where
  "collector_unit (Journal j) = jc_unit j"
| "collector_unit (Subprocess p) = sc_unit p"

text \<open>What the sources hold, for each handle: the entries of the journal that are not read yet, the lines a
  process still writes and whether its pipe is closed then.\<close>

record ('h, 'p, 'x) source_view =
  v_pending :: "'h \<Rightarrow> 'x \<Rightarrow> journal_entry list"
  v_lines :: "'p \<Rightarrow> 'x \<Rightarrow> string list"
  v_eof :: "'p \<Rightarrow> 'x \<Rightarrow> bool"

text \<open>When \<open>readEvent\<close> of a collector does not wait for more than the source has: the journal was told to
  stop, or the output of the process ends. And what the collector has until then: for a journal the pending entries, for a
  process the lines up to the first empty one.\<close>

fun collector_ended ::
    "('h, 'p, 'x) source_libs \<Rightarrow> ('h, 'p, 'x) source_view \<Rightarrow> ('h, 'p) collector \<Rightarrow> 'x \<Rightarrow> bool" where
  "collector_ended S V (Journal j) x \<longleftrightarrow>
     journal_law (s_journal S) (s_flag S (jc_unit j)) (jc_journal j) (v_pending V (jc_journal j)) \<and>
     flag_get (s_flag S (jc_unit j)) x"
| "collector_ended S V (Subprocess p) x \<longleftrightarrow>
     process_law (s_process S) (sc_child p) (v_lines V (sc_child p)) (v_eof V (sc_child p)) \<and>
     output_ends (v_lines V (sc_child p)) (v_eof V (sc_child p)) x"

fun collector_messages :: "('h, 'p, 'x) source_view \<Rightarrow> ('h, 'p) collector \<Rightarrow> 'x \<Rightarrow> string list" where
  "collector_messages V (Journal j) x = map message_of (v_pending V (jc_journal j) x)"
| "collector_messages V (Subprocess p) x = takeWhile (\<lambda>l. l \<noteq> []) (v_lines V (sc_child p) x)"

interpretation any_collector: event_source "collector_readEvent S junk c" "collector_unit c"
  "collector_ended S V c" "collector_messages V c" for S junk c V
proof (cases c)
  case (Journal j)
  have "collector_ended S V c = (\<lambda>x. journal_law (s_journal S) (s_flag S (jc_unit j)) (jc_journal j)
      (v_pending V (jc_journal j)) \<and> flag_get (s_flag S (jc_unit j)) x)"
    "collector_messages V c = (\<lambda>x. map message_of (v_pending V (jc_journal j) x))"
    "collector_readEvent S junk c = JournalCollector_readEvent (s_journal S) (s_flag S (jc_unit j)) junk j"
    "collector_unit c = jc_unit j"
    by (simp_all add: Journal collector_readEvent_def fun_eq_iff)
  then show "event_source (collector_readEvent S junk c) (collector_unit c) (collector_ended S V c)
      (collector_messages V c)"
    using journal.event_source_axioms [of "s_journal S" "s_flag S (jc_unit j)" junk j "v_pending V (jc_journal j)"] by simp
next
  case (Subprocess p)
  have "collector_ended S V c = (\<lambda>x. process_law (s_process S) (sc_child p) (v_lines V (sc_child p)) (v_eof V (sc_child p)) \<and>
      output_ends (v_lines V (sc_child p)) (v_eof V (sc_child p)) x)"
    "collector_messages V c = (\<lambda>x. takeWhile (\<lambda>l. l \<noteq> []) (v_lines V (sc_child p) x))"
    "collector_readEvent S junk c = SubprocessCollector_readEvent (s_process S) p"
    "collector_unit c = sc_unit p"
    by (simp_all add: Subprocess collector_readEvent_def fun_eq_iff)
  then show "event_source (collector_readEvent S junk c) (collector_unit c) (collector_ended S V c)
      (collector_messages V c)"
    using subprocess.event_source_axioms [of "s_process S" p "v_lines V (sc_child p)" "v_eof V (sc_child p)"] by simp
qed

text \<open>A collector whose source has ended returns from \<open>readEvent\<close>, with an event or without.\<close>

lemma ended_returns:
  assumes "collector_ended S V c x"
  shows "collector_readEvent S junk c x \<noteq> None"
  using any_collector.read_next [OF assms, of _ _ junk] any_collector.read_last [OF assms, of junk]
  by (cases "collector_messages V c x") fastforce+

section \<open>The signal handler\<close>

text \<open>\<open>Agent::stop\<close> as a whole, on the state of the threads: the flag is cleared and every collector is
  stopped.\<close>

definition Agent_stop :: "'x libs \<Rightarrow> string list \<Rightarrow> 'x agent_state \<Rightarrow> 'x agent_state" where
  "Agent_stop L names s = fold (stop_one L) [0..<length names] (s\<lparr>running := False\<rparr>)"

text \<open>\<open>g_loop\<close> points to the agent from before \<open>run\<close> is called.\<close>

definition signalHandler :: "'x libs \<Rightarrow> string list \<Rightarrow> bool \<Rightarrow> 'x agent_state \<Rightarrow> 'x agent_state" where
  "signalHandler L names g_loop s = (if g_loop then Agent_stop L names s else s)"

text \<open>It is an execution of the steps of \<open>stop\<close>.\<close>

lemma stop_one_frame:
  "stop_one L k (s\<lparr>stopper := st\<rparr>) = (stop_one L k s)\<lparr>stopper := st\<rparr>" "running (stop_one L k s) = running s"
  "threads (stop_one L k s) = threads s" "main_at (stop_one L k s) = main_at s" "crashed (stop_one L k s) = crashed s"
  "stopper (stop_one L k s) = stopper s" "length (sources (stop_one L k s)) = length (sources s)"
  by (simp_all add: stop_one_def Let_def)

lemma stop_frame:
  "running (fold (stop_one L) ks s) = running s" "threads (fold (stop_one L) ks s) = threads s"
  "main_at (fold (stop_one L) ks s) = main_at s" "crashed (fold (stop_one L) ks s) = crashed s"
  "stopper (fold (stop_one L) ks s) = stopper s" "length (sources (fold (stop_one L) ks s)) = length (sources s)"
  by (induction ks arbitrary: s) (simp_all add: stop_one_frame)

lemma stop_some:
  assumes "crashed s = None" and "stopper s = None" and "k \<le> length names"
  shows "exec L names 0 s ((fold (stop_one L) [0..<k] (s\<lparr>running := False\<rparr>))\<lparr>stopper := Some k\<rparr>)"
  using assms(3)
proof (induction k)
  case 0
  from ex_outside [OF ex_refl assms(1) stop_flag] assms(2) show ?case by simp
next
  case (Suc k)
  let ?s = "(fold (stop_one L) [0..<k] (s\<lparr>running := False\<rparr>))\<lparr>stopper := Some k\<rparr>"
  have "exec L names 0 s ?s" using Suc by simp
  from ex_outside [OF this _ stop_collector [of _ k]] show ?case
    using assms(1) Suc.prems by (simp add: stop_frame stop_one_frame)
qed

lemma signal_exec:
  assumes "crashed s = None" and "stopper s = None"
  shows "exec L names 0 s (signalHandler L names True s)"
proof -
  let ?s = "fold (stop_one L) [0..<length names] (s\<lparr>running := False\<rparr>)"
  have "?s\<lparr>stopper := Some (length names)\<rparr>\<lparr>stopper := None\<rparr> = ?s"
    using assms(2) stop_frame(5) [of L "[0..<length names]" "s\<lparr>running := False\<rparr>"] by simp
  with ex_outside [OF stop_some [OF assms order_refl, of L names] _ stop_done] assms(1)
  show ?thesis by (simp add: signalHandler_def Agent_stop_def stop_frame)
qed

text \<open>The world after it: every collector in turn has changed it.\<close>

lemma stop_world:
  "ag_ext (the_agent (fold (stop_one L) ks s)) = fold (l_stop L) ks (ag_ext (the_agent s))"
  by (induction ks arbitrary: s) (simp_all add: stop_one_def Let_def)

lemma stop_ends:
  assumes "k < n" and "n \<le> length (sources s)" and "\<And>x. l_ended L k (l_stop L k x)"
  shows "source_ended k (fold (stop_one L) [0..<n] s)"
proof -
  have split: "[0..<n] = [0..<k] @ k # [Suc k..<n]" using assms(1) by (metis le_add1 less_imp_add_positive upt_add_eq_append upt_conv_Cons zero_le add.commute less_or_eq_imp_le)
  have one: "source_ended k (stop_one L k t)" if "k < length (sources t)" for t
    using that assms(3) by (simp add: source_ended_def stop_one_def Let_def)
  have more: "source_ended k t \<Longrightarrow> source_ended k (fold (stop_one L) ks t)" for ks t
  proof (induction ks arbitrary: t)
    case (Cons a ks)
    have "source_ended k (stop_one L a t)"
      using Cons.prems by (auto simp: source_ended_def stop_one_def Let_def intro!: ended_update)
    then show ?case using Cons.IH by simp
  qed simp
  show ?thesis using one more assms(1,2) by (simp add: split stop_frame)
qed

section \<open>A signal ends the program\<close>

text \<open>The collectors behind the agent's calls.\<close>

definition stops_by ::
    "'x libs \<Rightarrow> ('h, 'p, 'x) source_libs \<Rightarrow> ('h, 'p, 'x) source_view \<Rightarrow> (string \<times> ('h, 'p) collector) list \<Rightarrow> bool" where
  "stops_by L S V cs \<longleftrightarrow> (\<forall>k < length cs. l_stop L k = collector_stop S (snd (cs ! k)) \<and>
     l_ended L k = collector_ended S V (snd (cs ! k)))"

text \<open>The libraries as documented: a flag keeps what was written to it; the journals behave as
  \<open>journal_law\<close> says; a child that was terminated does not run any more; and none of the calls \<open>stop\<close> makes
  clears a flag or revives a child.\<close>

definition stop_law :: "('h, 'p, 'x) source_libs \<Rightarrow> ('h, 'p, 'x) source_view \<Rightarrow> bool" where
  "stop_law S V \<longleftrightarrow>
     (\<forall>u x. flag_get (s_flag S u) (flag_set (s_flag S u) True x)) \<and>
     (\<forall>u h. journal_law (s_journal S) (s_flag S u) h (v_pending V h)) \<and>
     (\<forall>p x. \<not> fst (bp_running (s_process S) p (bp_terminate (s_process S) p x))) \<and>
     (\<forall>u u' p x. (flag_get (s_flag S u) x \<longrightarrow> flag_get (s_flag S u) (flag_set (s_flag S u') True x) \<and>
        flag_get (s_flag S u) (snd (bp_running (s_process S) p x)) \<and>
        flag_get (s_flag S u) (bp_terminate (s_process S) p x))) \<and>
     (\<forall>p p' u x. \<not> fst (bp_running (s_process S) p x) \<longrightarrow>
        \<not> fst (bp_running (s_process S) p (flag_set (s_flag S u) True x)) \<and>
        \<not> fst (bp_running (s_process S) p (snd (bp_running (s_process S) p' x))) \<and>
        \<not> fst (bp_running (s_process S) p (bp_terminate (s_process S) p' x)))"

text \<open>A collector that was told: its flag is set, or its child does not run.\<close>

fun told :: "('h, 'p, 'x) source_libs \<Rightarrow> ('h, 'p) collector \<Rightarrow> 'x \<Rightarrow> bool" where
  "told S (Journal j) x \<longleftrightarrow> flag_get (s_flag S (jc_unit j)) x"
| "told S (Subprocess p) x \<longleftrightarrow> \<not> fst (bp_running (s_process S) (sc_child p) x)"

lemma stop_lawD:
  assumes "stop_law S V"
  shows "flag_get (s_flag S u) (flag_set (s_flag S u) True x)"
    and "\<not> fst (bp_running (s_process S) p (bp_terminate (s_process S) p x))"
    and "told S c x \<Longrightarrow> told S c (flag_set (s_flag S u) True x)"
    and "told S c x \<Longrightarrow> told S c (snd (bp_running (s_process S) p x))"
    and "told S c x \<Longrightarrow> told S c (bp_terminate (s_process S) p x)"
  using assms unfolding stop_law_def by (cases c; simp)+

lemma stop_tells:
  assumes "stop_law S V"
  shows "told S c (collector_stop S c x)" and "told S c x \<Longrightarrow> told S c (collector_stop S d x)"
proof -
  note law = stop_lawD [OF assms]
  show "told S c x \<Longrightarrow> told S c (collector_stop S d x)"
    by (cases d) (simp_all add: collector_stop_def JournalCollector_stop_def SubprocessCollector_stop_def law split_beta Let_def)
  show "told S c (collector_stop S c x)"
  proof (cases c)
    case (Subprocess p)
    show ?thesis
    proof (cases "fst (bp_running (s_process S) (sc_child p) x)")
      case False
      then have "told S c x" by (simp add: Subprocess)
      then have "told S c (snd (bp_running (s_process S) (sc_child p) x))" by (rule law(4))
      with False Subprocess show ?thesis
        by (simp add: collector_stop_def SubprocessCollector_stop_def split_beta Let_def)
    qed (simp add: Subprocess collector_stop_def SubprocessCollector_stop_def law split_beta Let_def)
  qed (simp add: collector_stop_def JournalCollector_stop_def law)
qed

lemma all_told:
  assumes "stop_law S V" and "stops_by L S V cs" and "k < length cs"
  shows "told S (snd (cs ! k)) (fold (l_stop L) [0..<length cs] x)"
proof -
  have "told S (snd (cs ! k)) (fold (l_stop L) [0..<n] x)" if "k < n" "n \<le> length cs" for n
    using that
  proof (induction n)
    case (Suc n)
    then show ?case using stop_tells [OF assms(1)] assms(2) by (cases "k = n") (auto simp: stops_by_def)
  qed simp
  then show ?thesis using assms(3) by simp
qed

lemma journal_stop_ends:
  assumes "stop_law S V" and "stops_by L S V cs" and "k < length cs" and "snd (cs ! k) = Journal j"
  shows "l_ended L k (l_stop L k x)"
  using assms by (simp add: stops_by_def stop_law_def collector_stop_def JournalCollector_stop_def)

lemma signalled:
  assumes "zmq_push zmq queued" and "sends_by_zmq L api zmq adapter"
    and "exec L names k (initial names a) s" and "main_at s \<noteq> Starting" and "stopper s = None"
  shows "thread_inv L names (signalHandler L names True s)" and "shutting_down (signalHandler L names True s)"
    and "crashed (signalHandler L names True s) = None"
    and "exec L names k (initial names a) (signalHandler L names True s)"
proof -
  have fine: "crashed s = None" by (rule no_crash [OF assms(1-3)]) (simp add: initial_def)
  from exec_append [OF signal_exec [OF fine assms(5)] assms(3)]
  show e: "exec L names k (initial names a) (signalHandler L names True s)" by simp
  show "thread_inv L names (signalHandler L names True s)" by (rule thread_inv_exec [OF e thread_inv_initial])
  show "shutting_down (signalHandler L names True s)" "crashed (signalHandler L names True s) = None"
    using assms(4) fine by (simp_all add: signalHandler_def Agent_stop_def shutting_down_def stop_frame)
qed

text \<open>C2. What a signal does. The handler may run at any moment while \<open>run\<close> is under way, however busy the
  threads are and whatever ZMQ reports. It stops every collector: afterwards every journal gives what it
  has and then the end, however long its reader would have waited, and no child of a subprocess collector
  runs. From there on no send throws, and \<open>run\<close> and its threads make at most \<open>10 n + 12\<close> more steps for \<open>n\<close>
  collectors, whatever events still arrive and however the threads are scheduled. They stop before \<open>run\<close> has
  returned only where a thread waits in a send, or where the reader of a subprocess waits for a line although
  its child was terminated: the child is \<open>sudo\<close>, and the program behind it may keep the pipe open. When the
  other end of the socket can always make room and the pipes of the subprocesses are closed, \<open>run\<close> can
  return from every state that is reached.\<close>

theorem signal_ends_program:
  assumes "zmq_push zmq queued" and "sends_by_zmq L api zmq adapter"
    and "stops_by L S V cs" and "stop_law S V" and names: "map fst cs = names"
    and "exec L names k (initial names a) s" and "main_at s \<noteq> Starting" and "stopper s = None"
    and "exec L names m (signalHandler L names True s) s'"
  shows "(\<forall>(n, c) \<in> set cs. case c of
        Journal j \<Rightarrow> \<forall>junk. \<exists>r. JournalCollector_readEvent (s_journal S) (s_flag S (jc_unit j)) junk j
          (ag_ext (the_agent (signalHandler L names True s))) = Some r
      | Subprocess p \<Rightarrow> \<not> fst (bp_running (s_process S) (sc_child p) (ag_ext (the_agent (signalHandler L names True s))))) \<and>
    m \<le> 10 * length names + 12 \<and> crashed s' = None \<and>
    (main_at s' = Returned \<or> waits_in_send L names s' \<or>
      (\<exists>t < length cs. \<exists>p. snd (cs ! t) = Subprocess p \<and> waits_in_read t s') \<or>
      (\<exists>s''. exec L names (Suc m) (signalHandler L names True s) s'')) \<and>
    (peer_reads L \<and> (\<forall>t < length cs. \<forall>p. snd (cs ! t) = Subprocess p \<longrightarrow> source_ended t s') \<longrightarrow>
      (\<exists>n s''. exec L names n s' s'' \<and> main_at s'' = Returned))"
proof -
  let ?sig = "signalHandler L names True s"
  note sig = signalled [OF assms(1,2,6-8)]
  have len: "length names = length cs" using names by auto
  have fine: "crashed s' = None" by (rule no_crash [OF assms(1,2,9) sig(3)])
  have down: "shutting_down s'" "thread_inv L names s'" using work_exec [OF assms(9) sig(2,1)] by simp_all
  have world: "ag_ext (the_agent ?sig) = fold (l_stop L) [0..<length cs] (ag_ext (the_agent s))"
    by (simp add: signalHandler_def Agent_stop_def stop_world len)
  have told: "case c of
        Journal j \<Rightarrow> \<forall>junk. \<exists>r. JournalCollector_readEvent (s_journal S) (s_flag S (jc_unit j)) junk j (ag_ext (the_agent ?sig)) = Some r
      | Subprocess p \<Rightarrow> \<not> fst (bp_running (s_process S) (sc_child p) (ag_ext (the_agent ?sig)))" if "(n, c) \<in> set cs" for n c
  proof -
    obtain i where i: "i < length cs" "snd (cs ! i) = c" using \<open>(n, c) \<in> set cs\<close> by (metis in_set_conv_nth snd_conv)
    have t: "told S c (ag_ext (the_agent ?sig))"
      using all_told [OF assms(4,3) i(1)] i(2) unfolding world by blast
    show ?thesis
    proof (cases c)
      case (Journal j)
      then have "collector_ended S V c (ag_ext (the_agent ?sig))" using t assms(4) by (simp add: stop_law_def)
      from ended_returns [OF this] show ?thesis using Journal by (simp add: collector_readEvent_def)
    qed (use t in simp)
  qed
  have "length (sources s) = length names" using thread_inv_exec [OF assms(6) thread_inv_initial] by (simp add: thread_inv_def)
  then have "source_ended t ?sig" if "t < length cs" "snd (cs ! t) = Journal j" for t j
    unfolding signalHandler_def Agent_stop_def if_True
    by (intro stop_ends journal_stop_ends [OF assms(4,3)]) (use that len in simp_all)
  then have journals: "source_ended t s'" if "t < length cs" "snd (cs ! t) = Journal j" for t j
    using that ended_exec [OF assms(9)] by blast
  have "\<exists>n s''. exec L names n s' s'' \<and> main_at s'' = Returned"
    if reads: "peer_reads L" and pipes: "\<forall>t < length cs. \<forall>p. snd (cs ! t) = Subprocess p \<longrightarrow> source_ended t s'"
  proof -
    have "\<forall>t < length names. source_ended t s'" using journals pipes len by (metis collector.exhaust)
    from shutdown_reached [OF reads down(2,1) this]
    obtain n s'' where e: "exec L names n s' s''" "main_at s'' = Returned \<or> crashed s'' \<noteq> None" by blast
    then show ?thesis using no_crash [OF assms(1,2) e(1) fine] by blast
  qed
  moreover have "\<exists>p. snd (cs ! t) = Subprocess p" if "t < length names" "waits_in_read t s'" for t
    using journals [of t] ended_reads [of t s'] that len by (cases "snd (cs ! t)") auto
  ultimately show ?thesis
    using shutdown_bound [OF sig(1,2) assms(9)] shutdown_step [OF sig(1) assms(9)] fine told len
    by (intro conjI) (blast, blast, blast, metis, blast)
qed

section \<open>A full queue\<close>

text \<open>The push socket as documented: while its queue is full a send without a timeout does not return.
  (A signal delivered to the very thread that waits would end its send with \<open>EINTR\<close>, which
  \<open>send_impl\<close> turns into false; the hypothesis is about runs in which the main thread, which waits
  in \<open>join\<close>, or another one takes the signals.)\<close>

definition blocks_when_full :: "'z zmq \<Rightarrow> ('z \<Rightarrow> bool) \<Rightarrow> bool" where
  "blocks_when_full zmq full \<longleftrightarrow> (\<forall>bytes z. full z \<longrightarrow>
     (case z_message zmq (length bytes) z of (r, z1) \<Rightarrow> r = Inr () \<and> z_send zmq bytes z1 = None))"

lemma full_send:
  assumes "blocks_when_full zmq full" and "sends_by_zmq L api zmq adapter" and "has_sender adapter"
    and "pb_serialize api (to_wrapper api m (node a)) \<noteq> None" and "full (ag_ext a)"
  shows "locked_send L m a = None"
proof -
  obtain bytes where b: "pb_serialize api (to_wrapper api m (node a)) = Some bytes" using assms(4) by blast
  obtain r z1 where z: "z_message zmq (length bytes) (ag_ext a) = (r, z1)" by fastforce
  have "r = Inr () \<and> z_send zmq bytes z1 = None"
    using assms(1) [unfolded blocks_when_full_def, rule_format, OF assms(5), of bytes] z by simp
  then show ?thesis using assms(2,3) b z by (simp add: locked_send_none sends_by_zmq_def ZMQAdapter_send_def send_impl_def)
qed

text \<open>A thread waits for the full queue with the mutex in its hand.\<close>

definition hangs :: "'x libs \<Rightarrow> string list \<Rightarrow> ('x \<Rightarrow> bool) \<Rightarrow> nat \<Rightarrow> metric \<Rightarrow> string \<Rightarrow> 'x agent_state \<Rightarrow> bool" where
  "hangs L names full t m n s \<longleftrightarrow> thread_inv L names s \<and> t \<le> length names \<and> pc_is t (AtSend m) s \<and>
     full (ag_ext (the_agent s)) \<and> node (the_agent s) = n"

lemma hangs_thread:
  assumes "hangs L names full t m n s" and "quiet L full" and "\<And>a. full (ag_ext a) \<Longrightarrow> node a = n \<Longrightarrow> locked_send L m a = None"
    and "thread_step L names u s s'" and "u \<le> length names"
  shows "hangs L names full t m n s' \<and> sent s' = sent s \<and> crashed s' = crashed s"
proof -
  have t: "thread_inv L names s" "t \<le> length names" "threads s ! t = AtSend m" "t < length (threads s)"
      "full (ag_ext (the_agent s))" "node (the_agent s) = n"
    using assms(1) by (auto simp: hangs_def pc_is_def)
  have "lock_ok (length names) (threads s) (mutex s)" using t(1) by (simp add: thread_inv_def)
  then have mx: "mutex s = Some t" using t(2,3) by (metis holding.simps(1) lock_ok_def)
  have no_send: "\<not> pc_is u (AtSend m') s" if "locked_send L m' (the_agent s) \<noteq> None" for m'
  proof
    assume u: "pc_is u (AtSend m') s"
    then have "mutex s = Some u" using t(1) assms(5) unfolding thread_inv_def lock_ok_def pc_is_def by (metis holding.simps(1))
    then show False using mx u t(3) that assms(3) [OF t(5,6)] by (simp add: pc_is_def)
  qed
  have other: "pc_is t (AtSend m) (goto u p s1)" if "threads s1 = threads s" "\<not> pc_is u (AtSend m) s" for p s1
    using that t(3,4) by (cases "u = t") (auto simp: pc_is_def goto_def)
  have inv: "thread_inv L names s'" by (rule thread_inv_thread [OF t(1) assms(4,5)])
  show ?thesis
    using assms(4)
  proof (cases rule: thread_step.cases)
    case (th_prepare e prep r mt b)
    have "full (ag_ext b) = full (ag_ext (the_agent s)) \<and> node b = node (the_agent s)"
      by (rule prepare_quiet [OF th_prepare(4) assms(2) th_prepare(5)])
    moreover have "pc_is t (AtSend m) s'" unfolding th_prepare(1) by (rule other) (use th_prepare(2) in \<open>auto simp: pc_is_def\<close>)
    ultimately show ?thesis using inv t(2,5,6) th_prepare(1) by (simp add: hangs_def goto_def)
  next
    case (th_collect r mt b)
    have "pc_is t (AtSend m) s'" unfolding th_collect(1) by (rule other) (use th_collect(2) in \<open>auto simp: pc_is_def\<close>)
    then show ?thesis using inv t(2,5,6) th_collect(1) sys_prepare_quiet [OF th_collect(3)] by (simp add: hangs_def goto_def)
  next
    case (th_send mt b)
    then show ?thesis using no_send [of mt] by simp
  next
    case (th_crash mt e b)
    then show ?thesis using no_send [of mt] by simp
  next
    case (th_event e es b)
    have "pc_is t (AtSend m) s'" unfolding th_event(1) by (rule other) (use th_event(2) in \<open>auto simp: pc_is_def\<close>)
    then show ?thesis using inv t(2,5,6) th_event(1) by (simp add: hangs_def goto_def)
  next
    case (th_lock mt)
    then show ?thesis using mx by simp
  next
    case th_unlock
    have "pc_is t (AtSend m) s'" unfolding th_unlock(1) by (rule other) (use th_unlock(2) in \<open>auto simp: pc_is_def\<close>)
    then show ?thesis using inv t(2,5,6) th_unlock(1) by (simp add: hangs_def goto_def)
  qed (use inv t other in \<open>auto simp: hangs_def goto_def pc_is_def nth_list_update\<close>)
qed

lemma hangs_exec:
  assumes "quiet L full" and "\<And>a. full (ag_ext a) \<Longrightarrow> node a = n \<Longrightarrow> locked_send L m a = None"
  shows "exec L names k s s' \<Longrightarrow> hangs L names full t m n s \<Longrightarrow> hangs L names full t m n s' \<and> sent s' = sent s"
proof (induction rule: exec.induct)
  case (ex_run k s s1 s2)
  then have h: "hangs L names full t m n s1" "sent s1 = sent s" by simp_all
  then have t: "threads s1 ! t = AtSend m" "t < length (threads s1)" "thread_inv L names s1" "t \<le> length names"
    by (auto simp: hangs_def pc_is_def)
  from ex_run.hyps(3) have "threads s2 ! t = threads s1 ! t \<and> length (threads s2) = length (threads s1) \<and> sent s2 = sent s1"
    by (cases rule: run_step.cases) (use t in \<open>auto simp: goto_def nth_list_update thread_inv_def\<close>)
  then show ?case using h t thread_inv_run [OF t(3) ex_run.hyps(3)] agent_run [OF ex_run.hyps(3)]
    by (simp add: hangs_def pc_is_def)
next
  case (ex_thread k s s1 u s2)
  then show ?case using hangs_thread [OF _ assms ex_thread.hyps(4,3)] by metis
next
  case (ex_outside k s s1 s2)
  then have h: "hangs L names full t m n s1" "sent s1 = sent s" by simp_all
  have "threads s2 = threads s1" "sent s2 = sent s1" using same_outside [OF ex_outside.hyps(3)] by simp_all
  moreover have "full (ag_ext (the_agent s2)) = full (ag_ext (the_agent s1))" "node (the_agent s2) = node (the_agent s1)"
    using quiet_outside [OF assms(1) ex_outside.hyps(3)] by simp_all
  ultimately show ?case using h thread_inv_outside [OF _ ex_outside.hyps(3)] by (simp add: hangs_def pc_is_def)
qed simp

text \<open>C3. An analyzer that does not read keeps the program from ending. Once a thread is about to send a
  message that can be serialised and the queue is full, with nobody at the other end to make room:
  whatever happens from there on, signals that another thread takes included, the thread stays in \<open>send\<close> with the mutex in
  its hand, no thread ever sends a message again, and \<open>run\<close> never returns; once the flag is down
  everything stands still within \<open>10 n + 12\<close> steps.\<close>

theorem full_queue_hangs:
  assumes "blocks_when_full zmq full" and "sends_by_zmq L api zmq adapter" and "has_sender adapter"
    and "exec L names k (initial names a) s" and "t \<le> length names" and "pc_is t (AtSend m) s"
    and "pb_serialize api (to_wrapper api m (node (the_agent s))) \<noteq> None"
    and "full (ag_ext (the_agent s))" and "quiet L full"
    and "exec L names n s s'"
  shows "main_at s' \<noteq> Returned \<and> sent s' = sent s \<and> pc_is t (AtSend m) s' \<and> mutex s' = Some t \<and>
    (shutting_down s \<longrightarrow> n \<le> 10 * length names + 12)"
proof -
  have inv: "thread_inv L names s" by (rule thread_inv_exec [OF assms(4) thread_inv_initial])
  have blocked: "locked_send L m b = None" if "full (ag_ext b)" "node b = node (the_agent s)" for b
    by (rule full_send [OF assms(1-3)]) (use assms(7) that in simp_all)
  have "hangs L names full t m (node (the_agent s)) s" using inv assms(5,6,8) by (simp add: hangs_def)
  from hangs_exec [OF assms(9) blocked assms(10) this]
  have h: "hangs L names full t m (node (the_agent s)) s'" and sent: "sent s' = sent s" by simp_all
  then have t: "thread_inv L names s'" "threads s' ! t = AtSend m" "pc_is t (AtSend m) s'" by (auto simp: hangs_def pc_is_def)
  have "mutex s' = Some t" using t(1,2) assms(5) unfolding thread_inv_def lock_ok_def by (metis holding.simps(1))
  moreover have "main_at s' \<noteq> Returned"
  proof
    assume "main_at s' = Returned"
    then have "stopped (threads s' ! t)" using t(1) assms(5) by (simp add: thread_inv_def)
    then show False using t(2) by (simp add: stopped_def)
  qed
  ultimately show ?thesis using sent t(3) shutdown_bound [OF inv _ assms(10)] by blast
qed

section \<open>A queue for one message\<close>

text \<open>The world is the number of messages waiting, all messages taken so far and the stop flag of the only
  collector, which reads an empty journal; \<open>reads\<close>: whether the other end takes messages.\<close>

type_synonym narrow = "nat \<times> string list \<times> bool"

definition narrow_zmq :: "narrow zmq" where
  "narrow_zmq = \<lparr>z_context = (\<lambda>z. (Inr (), z)), z_socket = (\<lambda>z. (Inr (), z)), z_set = (\<lambda>_ _ z. (Inr (), z)),
     z_connect = (\<lambda>_ z. (Inr (), z)), z_message = (\<lambda>_ z. (Inr (), z)),
     z_send = (\<lambda>b (k, q, f). if k = 0 then Some (Inr (Some (length b)), 1, q @ [b], f) else None),
     z_close = (\<lambda>z. (Inr (), z)), z_shutdown = (\<lambda>z. (Inr (), z))\<rparr>"

definition narrow_sources :: "(unit, unit, narrow) source_libs" where
  "narrow_sources = \<lparr>
     s_journal = \<lparr>j_open = (\<lambda>w. (0, (), w)), j_flush_matches = (\<lambda>_ w. w), j_add_match = (\<lambda>_ _ w. w),
       j_add_disjunction = (\<lambda>_ w. w), j_seek_tail = (\<lambda>_ w. w), j_previous = (\<lambda>_ w. w), j_next = (\<lambda>_ w. (0, w)),
       j_wait = (\<lambda>_ _ w. (0, w)), j_realtime = (\<lambda>_ _. None), j_data = (\<lambda>_ _ _. None), j_close = (\<lambda>_ w. w)\<rparr>,
     s_flag = (\<lambda>_. \<lparr>flag_get = (\<lambda>(_, _, f). f), flag_set = (\<lambda>f (k, q, _). (k, q, f))\<rparr>),
     s_process = \<lparr>bp_child = (\<lambda>_ _ w. (Inl (RuntimeError ''no program''), w)), bp_running = (\<lambda>_ w. (False, w)),
       bp_terminate = (\<lambda>_ w. w), bp_wait = (\<lambda>_ w. w), bp_getline = (\<lambda>_ w. Some (None, w)), bp_now = (\<lambda>_. 0)\<rparr>\<rparr>"

definition narrow_view :: "(unit, unit, narrow) source_view" where
  "narrow_view = \<lparr>v_pending = (\<lambda>_ _. []), v_lines = (\<lambda>_ _. []), v_eof = (\<lambda>_ _. True)\<rparr>"

definition narrow_collector :: "(unit, unit) collector" where
  "narrow_collector = Journal \<lparr>jc_unit = ''ptp4l'', jc_journal = ()\<rparr>"

abbreviation connected :: ZMQAdapter where
  "connected \<equiv> \<lparr>has_context = True, has_sender = True\<rparr>"

definition narrow_libs :: "bool \<Rightarrow> narrow libs" where
  "narrow_libs reads = \<lparr>l_send = ZMQAdapter_send one_pb narrow_zmq connected,
     l_peer = (\<lambda>z z'. reads \<and> z' = (0, snd z)),
     l_stop = (\<lambda>_. collector_stop narrow_sources narrow_collector),
     l_ended = (\<lambda>_. collector_ended narrow_sources narrow_view narrow_collector),
     l_net = \<lparr>n_socket = (\<lambda>w. (- 1, w)), n_ioctl = (\<lambda>_ _ w. (None, w)), n_close = (\<lambda>_ w. w), n_strerror = (\<lambda>_. [])\<rparr>,
     l_pci = \<lparr>p_alloc = (\<lambda>w. (False, w)), p_init = (\<lambda>w. w), p_get_dev = (\<lambda>_ w. (False, w)), p_FILL_IDENT = 1,
       p_fill = (\<lambda>_ w. (0, w)), p_ident = (\<lambda>_. (0, 0, 0)), p_lookup_vendor = (\<lambda>_ w. ([], w)),
       p_lookup_device = (\<lambda>_ _ w. ([], w)), p_free_dev = (\<lambda>w. w), p_cleanup = (\<lambda>w. w)\<rparr>,
     l_spawn = (\<lambda>_ _ w. (Inr ([], 1), w)), l_big = (\<lambda>_. 0)\<rparr>"

definition narrow_agent :: "narrow \<Rightarrow> narrow agent" where
  "narrow_agent z = \<lparr>node = ''node'', sysMetricsCollector = sysMetricsCollector offline_agent,
     topologyConfig = PtpTopologyConfig_init, pollTimeoutMs = 1000, ag_os = empty_os, ag_ext = z\<rparr>"

lemma narrow_sends: "sends_by_zmq (narrow_libs reads) one_pb narrow_zmq connected"
  by (simp add: sends_by_zmq_def narrow_libs_def)

lemma narrow_push: "zmq_push narrow_zmq (\<lambda>z. fst (snd z))"
  by (auto simp: zmq_push_def narrow_zmq_def split: if_splits)

lemma narrow_reads: "peer_reads (narrow_libs True)"
proof -
  have "l_send (narrow_libs True) m n (0, q) \<noteq> None" for m n and q :: "string list \<times> bool"
  proof
    assume "l_send (narrow_libs True) m n (0, q) = None"
    then have "ZMQAdapter_send one_pb narrow_zmq connected m n (0, q) = None" by (simp add: narrow_libs_def)
    from send_blocks [OF this] show False by (auto simp: narrow_zmq_def split: prod.splits)
  qed
  then show ?thesis by (auto simp: peer_reads_def narrow_libs_def)
qed

lemma example_serialized: "pb_serialize one_pb (to_wrapper one_pb example_metric ''node'') = Some ''message''"
  using to_wrapper_unit [of one_pb example_metric "''node''"] example_taken
  by (auto simp: takes_all_def one_pb_def to_wrapper_def example_metric_def line_sample_def to_ptp4l_metrics_def set_header_def)

text \<open>The first message fills the queue; the thread is about to send the second.\<close>

abbreviation full_state :: "narrow agent_state" where
  "full_state \<equiv> demo (AtSend example_metric) [] (Some 0) [(0, example_metric)] (narrow_agent (1, [''message''], False))"

lemma narrow_run: "\<exists>n. exec (narrow_libs reads) one_name n (initial one_name (narrow_agent (0, [], False))) full_state"
proof -
  have "locked_send (narrow_libs reads) example_metric (narrow_agent (0, [], False)) = Some (Inr (), narrow_agent (1, [''message''], False))"
    using example_serialized
    by (simp add: locked_send_def narrow_libs_def narrow_agent_def ZMQAdapter_send_def send_impl_def narrow_zmq_def)
  from history_exec [OF demo_again [OF this]] show ?thesis .
qed

lemma narrow_law: "stop_law narrow_sources narrow_view"
  by (simp add: stop_law_def narrow_sources_def narrow_view_def journal_law_def split_beta)

lemma narrow_stops: "stops_by (narrow_libs reads) narrow_sources narrow_view [(''ptp4l'', narrow_collector)]"
  by (simp add: stops_by_def narrow_libs_def)

theorem signal_ends_program_witness:
  "\<exists>m s'. exec (narrow_libs True) one_name m (signalHandler (narrow_libs True) one_name True full_state) s' \<and>
     main_at s' = Returned"
proof -
  obtain n where "exec (narrow_libs True) one_name n (initial one_name (narrow_agent (0, [], False))) full_state"
    using narrow_run by blast
  from signal_ends_program [OF narrow_push narrow_sends narrow_stops narrow_law _ this _ _ ex_refl] narrow_reads
  show ?thesis by (simp add: demo_def narrow_collector_def)
qed

theorem full_queue_hangs_witness:
  "\<nexists>n s'. exec (narrow_libs False) one_name n (signalHandler (narrow_libs False) one_name True full_state) s' \<and>
     main_at s' = Returned"
proof -
  let ?sig = "signalHandler (narrow_libs False) one_name True full_state"
  obtain k where k: "exec (narrow_libs False) one_name k (initial one_name (narrow_agent (0, [], False))) full_state"
    using narrow_run by blast
  have full: "blocks_when_full narrow_zmq (\<lambda>z. fst z = 1)" by (auto simp: blocks_when_full_def narrow_zmq_def)
  have quiet: "quiet (narrow_libs False) (\<lambda>z. fst z = 1)"
    by (simp add: quiet_def calls_leave_def leaves_def narrow_libs_def collector_stop_def narrow_collector_def
        JournalCollector_stop_def narrow_sources_def split_beta)
  have "exec (narrow_libs False) one_name 0 full_state ?sig"
    by (rule signal_exec) (simp_all add: demo_def)
  from exec_append [OF _ this] have "exec (narrow_libs False) one_name n full_state s'"
    if "exec (narrow_libs False) one_name n ?sig s'" for n s' using that by fastforce
  moreover have "main_at s' \<noteq> Returned" if "exec (narrow_libs False) one_name n full_state s'" for n s'
    using full_queue_hangs [OF full narrow_sends _ k _ _ _ _ quiet that, of 0 example_metric] example_serialized
    by (simp add: demo_def pc_is_def narrow_agent_def)
  ultimately show ?thesis by blast
qed

text \<open>A signal that comes before \<open>run\<close> sets the flag does not keep it down; the journals stay stopped.\<close>

lemma early_signal_overwritten:
  assumes "run_step L names (signalHandler L names True (initial names a)) s"
  shows "running s" and "sources s = sources (signalHandler L names True (initial names a))"
  using assms by (auto simp: signalHandler_def Agent_stop_def stop_frame initial_def elim!: run_stepE)

end
