(* ===== verification/Program_Resources.thy ===== *)
theory Program_Resources
  imports Program_Life
begin

text \<open>
  What the program holds open and that it gives all of it back: the journals and child processes of
  the collectors (\<open>include/collector.h\<close>, \<open>src/collector.cpp\<close>), through the loop of \<open>main\<close> that makes
  them and the destructor of \<open>Agent\<close>, and with them the descriptors of the metric collectors.
\<close>

section \<open>Handles\<close>

text \<open>The libraries as documented, for \<open>live\<close>, the open journals and the children that were started and not
  yet waited for: opening a journal and starting a program make a new handle or fail; closing the journal
  frees it; \<open>running()\<close> reaps a child that has ended, \<open>wait()\<close> reaps it in any case, \<open>terminate()\<close> may; nothing
  else changes a handle.\<close>

definition source_law :: "('h, 'p, 'x) source_libs \<Rightarrow> ('x \<Rightarrow> ('h + 'p) set) \<Rightarrow> bool" where
  "source_law S live \<longleftrightarrow>
     (\<forall>u b x. live (flag_set (s_flag S u) b x) = live x) \<and>
     (\<forall>x. case j_open (s_journal S) x of (ret, h, x') \<Rightarrow>
        if sint ret < 0 then live x' = live x else Inl h \<notin> live x \<and> live x' = insert (Inl h) (live x)) \<and>
     (\<forall>h x. live (j_flush_matches (s_journal S) h x) = live x) \<and>
     (\<forall>h m x. live (j_add_match (s_journal S) h m x) = live x) \<and>
     (\<forall>h x. live (j_add_disjunction (s_journal S) h x) = live x) \<and>
     (\<forall>h x. live (j_seek_tail (s_journal S) h x) = live x) \<and>
     (\<forall>h x. live (j_previous (s_journal S) h x) = live x) \<and>
     (\<forall>h x. live (j_close (s_journal S) h x) = live x - {Inl h}) \<and>
     (\<forall>path args x. case bp_child (s_process S) path args x of
        (Inl e, x') \<Rightarrow> live x' = live x
      | (Inr p, x') \<Rightarrow> Inr p \<notin> live x \<and> live x' = insert (Inr p) (live x)) \<and>
     (\<forall>p x. case bp_running (s_process S) p x of (r, x') \<Rightarrow>
        live x' = (if r then live x else live x - {Inr p})) \<and>
     (\<forall>p x. live (bp_terminate (s_process S) p x) = live x \<or>
        live (bp_terminate (s_process S) p x) = live x - {Inr p}) \<and>
     (\<forall>p x. live (bp_wait (s_process S) p x) = live x - {Inr p})"

lemma source_lawD:
  assumes "source_law S live"
  shows "live (flag_set (s_flag S u) b x) = live x"
    and "j_open (s_journal S) x = (ret, h, x') \<Longrightarrow> sint ret < 0 \<Longrightarrow> live x' = live x"
    and "j_open (s_journal S) x = (ret, h, x') \<Longrightarrow> \<not> sint ret < 0 \<Longrightarrow> Inl h \<notin> live x \<and> live x' = insert (Inl h) (live x)"
    and "live (j_flush_matches (s_journal S) h x) = live x"
    and "live (j_add_match (s_journal S) h m x) = live x"
    and "live (j_add_disjunction (s_journal S) h x) = live x"
    and "live (j_seek_tail (s_journal S) h x) = live x"
    and "live (j_previous (s_journal S) h x) = live x"
    and "live (j_close (s_journal S) h x) = live x - {Inl h}"
    and "bp_child (s_process S) path args x = (Inl e, x') \<Longrightarrow> live x' = live x"
    and "bp_child (s_process S) path args x = (Inr p, x') \<Longrightarrow> Inr p \<notin> live x \<and> live x' = insert (Inr p) (live x)"
    and "bp_running (s_process S) p x = (r, x') \<Longrightarrow> live x' = (if r then live x else live x - {Inr p})"
    and "live (bp_terminate (s_process S) p x) - {Inr p} = live x - {Inr p}"
    and "live (bp_wait (s_process S) p x) = live x - {Inr p}"
    and "live (bp_terminate (s_process S) p x) = live x \<or> live (bp_terminate (s_process S) p x) = live x - {Inr p}"
proof -
  have opens: "case j_open (s_journal S) x of (ret, h, x') \<Rightarrow>
      if sint ret < 0 then live x' = live x else Inl h \<notin> live x \<and> live x' = insert (Inl h) (live x)" for x
    using assms unfolding source_law_def by (elim conjE) (erule spec)
  then show "j_open (s_journal S) x = (ret, h, x') \<Longrightarrow> sint ret < 0 \<Longrightarrow> live x' = live x"
    and "j_open (s_journal S) x = (ret, h, x') \<Longrightarrow> \<not> sint ret < 0 \<Longrightarrow> Inl h \<notin> live x \<and> live x' = insert (Inl h) (live x)"
    using opens [of x] by auto
  have starts: "\<forall>args x. case bp_child (s_process S) path args x of (Inl e, x') \<Rightarrow> live x' = live x
      | (Inr p, x') \<Rightarrow> Inr p \<notin> live x \<and> live x' = insert (Inr p) (live x)" for path
    using assms unfolding source_law_def by (elim conjE) (erule spec)
  show "bp_child (s_process S) path args x = (Inl e, x') \<Longrightarrow> live x' = live x"
    and "bp_child (s_process S) path args x = (Inr p, x') \<Longrightarrow> Inr p \<notin> live x \<and> live x' = insert (Inr p) (live x)"
    using spec [OF spec [OF starts [of path], of args], of x] by auto
  have "\<forall>x. case bp_running (s_process S) p x of (r, x') \<Rightarrow> live x' = (if r then live x else live x - {Inr p})"
    using assms unfolding source_law_def by (elim conjE) (erule spec)
  from spec [OF this, of x]
  show "bp_running (s_process S) p x = (r, x') \<Longrightarrow> live x' = (if r then live x else live x - {Inr p})" by simp
  have "\<forall>x. live (bp_terminate (s_process S) p x) = live x \<or>
      live (bp_terminate (s_process S) p x) = live x - {Inr p}"
    using assms unfolding source_law_def by (elim conjE) (erule spec)
  from spec [OF this, of x]
  show "live (bp_terminate (s_process S) p x) = live x \<or> live (bp_terminate (s_process S) p x) = live x - {Inr p}" .
  then show "live (bp_terminate (s_process S) p x) - {Inr p} = live x - {Inr p}" by auto
qed (use assms in \<open>simp_all add: source_law_def\<close>)

fun handle_of :: "('h, 'p) collector \<Rightarrow> 'h + 'p" where
  "handle_of (Journal j) = Inl (jc_journal j)"
| "handle_of (Subprocess p) = Inr (sc_child p)"

lemma makeCollector_live:
  assumes "source_law S live" and "makeCollector S cfg x = (r, x')"
  shows "case r of Inl e \<Rightarrow> live x' = live x
    | Inr c \<Rightarrow> handle_of c \<notin> live x \<and> live x' = insert (handle_of c) (live x)"
proof -
  note same = source_lawD(1,4-8) [OF assms(1)]
  have journal: ?thesis if new: "new_journal S unit x = (r, x')" for unit
  proof -
    obtain ret h x1 where o: "j_open (s_journal S) (flag_set (s_flag S unit) False x) = (ret, h, x1)"
      by (cases "j_open (s_journal S) (flag_set (s_flag S unit) False x)")
    show ?thesis
      using new source_lawD(2,3) [OF assms(1) o]
      by (cases "sint ret < 0") (auto simp: new_journal_def JournalCollector_new_def Let_def o same)
  qed
  have process: ?thesis if new: "new_subprocess S cmd args x = (r, x')" for cmd args
  proof -
    obtain q x1 where c: "bp_child (s_process S) ''/usr/bin/sudo'' args x = (q, x1)" by fastforce
    show ?thesis
    proof (cases q)
      case (Inl e)
      then show ?thesis using new source_lawD(10) [OF assms(1), of _ args x e x1] c
        by (auto simp: new_subprocess_def SubprocessCollector_new_def)
    next
      case (Inr p)
      obtain up x2 where u: "bp_running (s_process S) p x1 = (up, x2)" by fastforce
      have "Inr p \<notin> live x \<and> live x1 = insert (Inr p) (live x)"
        using source_lawD(11) [OF assms(1)] c Inr by metis
      with source_lawD(12) [OF assms(1) u] show ?thesis
        using new by (cases up) (auto simp: new_subprocess_def SubprocessCollector_new_def c Inr u)
    qed
  qed
  show ?thesis
    using assms(2) unfolding makeCollector_def by (fastforce split: if_splits intro: journal process)
qed

lemma destroy_live:
  assumes "source_law S live"
  shows "live (collector_destroy S c x) = live x - {handle_of c}"
proof (cases c)
  case (Journal j)
  then show ?thesis
    using source_lawD(9) [OF assms] by (simp add: collector_destroy_def JournalCollector_destroy_def)
next
  case (Subprocess p)
  obtain r x' where "bp_running (s_process S) (sc_child p) x = (r, x')" by fastforce
  with source_lawD(12) [OF assms this] Subprocess show ?thesis
    using source_lawD(13,14) [OF assms]
    by (simp add: collector_destroy_def SubprocessCollector_destroy_def)
qed

section \<open>The collectors\<close>

text \<open>Every collector has a handle of its own, on top of the handles \<open>B\<close> that were there before.\<close>

definition owns :: "('x \<Rightarrow> ('h + 'p) set) \<Rightarrow> ('h + 'p) set \<Rightarrow> (string \<times> ('h, 'p) collector) list \<Rightarrow> 'x \<Rightarrow> bool" where
  "owns live B cs x \<longleftrightarrow> distinct (map (\<lambda>c. handle_of (snd c)) cs) \<and>
     B \<inter> set (map (\<lambda>c. handle_of (snd c)) cs) = {} \<and> live x = B \<union> set (map (\<lambda>c. handle_of (snd c)) cs)"

lemma update_old:
  assumes "map_of cs k = Some old"
  obtains us vs where "cs = us @ (k, old) # vs" and "AList.update k c cs = us @ (k, c) # vs"
  using assms
proof (induction cs arbitrary: thesis)
  case (Cons kv cs)
  obtain k' v where kv: "kv = (k', v)" by fastforce
  show ?case
  proof (cases "k' = k")
    case True
    then show ?thesis using Cons.prems(1) [of "[]" cs] Cons.prems(2) kv by simp
  next
    case False
    then have "map_of cs k = Some old" using Cons.prems(2) kv by simp
    with Cons.IH obtain us vs where "cs = us @ (k, old) # vs" "AList.update k c cs = us @ (k, c) # vs" by blast
    then show ?thesis using Cons.prems(1) [of "kv # us" vs] kv False by simp
  qed
qed simp

lemma update_new: "map_of cs k = None \<Longrightarrow> AList.update k c cs = cs @ [(k, c)]"
  by (induction cs) (auto split: if_splits)

lemma owns_made:
  assumes "source_law S live" and "owns live B cs x" and "makeCollector S cfg x = (Inr c, x')"
  shows "owns live B (AList.update k c cs)
    (case map_of cs k of None \<Rightarrow> x' | Some old \<Rightarrow> collector_destroy S old x')"
proof -
  have new: "handle_of c \<notin> live x" "live x' = insert (handle_of c) (live x)"
    using makeCollector_live [OF assms(1,3)] by simp_all
  show ?thesis
  proof (cases "map_of cs k")
    case None
    then show ?thesis using new assms(2) by (auto simp: update_new owns_def)
  next
    case (Some old)
    then obtain us vs where "cs = us @ (k, old) # vs" "AList.update k c cs = us @ (k, c) # vs"
      by (rule update_old)
    then show ?thesis using new assms(2) destroy_live [OF assms(1)] Some by (auto simp: owns_def)
  qed
qed

lemma owns_collectors:
  "source_law S live \<Longrightarrow> owns live B cs x \<Longrightarrow> make_collectors S cfgs cs x = (cs', x') \<Longrightarrow> owns live B cs' x'"
proof (induction cfgs arbitrary: cs x)
  case (Cons cfg cfgs)
  obtain r x1 where m: "makeCollector S cfg x = (r, x1)" by fastforce
  show ?case
  proof (cases r)
    case (Inl e)
    then have "live x1 = live x" using makeCollector_live [OF Cons.prems(1) m] by simp
    then have "owns live B cs x1" using Cons.prems(2) by (simp add: owns_def)
    then show ?thesis using Cons m Inl by (auto split: if_splits)
  next
    case (Inr c)
    then show ?thesis using owns_made [OF Cons.prems(1,2), of cfg c x1] Cons m by (auto split: if_splits)
  qed
qed simp

definition destroy_all :: "('h, 'p, 'x) source_libs \<Rightarrow> (string \<times> ('h, 'p) collector) list \<Rightarrow> 'x \<Rightarrow> 'x" where
  "destroy_all S cs x = fold (\<lambda>c. collector_destroy S (snd c)) cs x"

lemma destroy_all_live:
  "source_law S live \<Longrightarrow> live (destroy_all S cs x) = live x - set (map (\<lambda>c. handle_of (snd c)) cs)"
  by (induction cs arbitrary: x) (auto simp: destroy_all_def destroy_live)

lemma owns_released:
  assumes "source_law S live" and "owns live B cs x" and "set ds = set cs" and "B \<subseteq> live x'" and "live x' \<subseteq> live x"
  shows "live (destroy_all S ds x') = B"
  using assms(2-5) by (auto simp: destroy_all_live [OF assms(1)] owns_def)

text \<open>The collectors give back what they take. Whatever services are configured, with the same name
  twice or with programs that do not start: after the loop of \<open>main\<close> exactly the collectors it made hold
  an open journal or a child, one each; and destroying them, in any order and after any children ended
  in between, leaves just the handles from before.\<close>

lemma collectors_released:
  assumes "source_law S live" and "make_collectors S cfgs [] x = (cs, x1)"
    and "set ds = set cs" and "live x \<subseteq> live x2" and "live x2 \<subseteq> live x1"
  shows "distinct (map (\<lambda>c. handle_of (snd c)) cs) \<and>
    live x1 - live x = (\<lambda>c. handle_of (snd c)) ` set cs \<and> live (destroy_all S ds x2) = live x"
proof -
  have "owns live (live x) [] x" by (simp add: owns_def)
  from owns_collectors [OF assms(1) this assms(2)] have owns: "owns live (live x) cs x1" .
  then show ?thesis using owns_released [OF assms(1) owns assms(3-5)] by (auto simp: owns_def)
qed

text \<open>A world that lists the open journals, the children and the messages of the socket.\<close>

type_synonym handles = "nat list \<times> nat list \<times> string list"

definition handles_live :: "handles \<Rightarrow> (nat + nat) set" where
  "handles_live x = Inl ` set (fst x) \<union> Inr ` set (fst (snd x))"

definition handle_sources :: "(nat, nat, handles) source_libs" where
  "handle_sources = \<lparr>
     s_journal = \<lparr>j_open = (\<lambda>(hs, r). (0, Suc (sum_list hs), Suc (sum_list hs) # hs, r)),
       j_flush_matches = (\<lambda>_ x. x), j_add_match = (\<lambda>_ _ x. x), j_add_disjunction = (\<lambda>_ x. x),
       j_seek_tail = (\<lambda>_ x. x), j_previous = (\<lambda>_ x. x), j_next = (\<lambda>_ x. (0, x)), j_wait = (\<lambda>_ _ x. (0, x)),
       j_realtime = (\<lambda>_ _. None), j_data = (\<lambda>_ _ _. None), j_close = (\<lambda>h (hs, r). (removeAll h hs, r))\<rparr>,
     s_flag = (\<lambda>_. \<lparr>flag_get = (\<lambda>_. False), flag_set = (\<lambda>_ x. x)\<rparr>),
     s_process = \<lparr>bp_child = (\<lambda>_ _ (hs, ps, q). (Inr (Suc (sum_list ps)), hs, Suc (sum_list ps) # ps, q)),
       bp_running = (\<lambda>p (hs, ps, q). (p \<in> set ps, hs, ps, q)), bp_terminate = (\<lambda>_ x. x),
       bp_wait = (\<lambda>p (hs, ps, q). (hs, removeAll p ps, q)), bp_getline = (\<lambda>_ x. Some (None, x)), bp_now = (\<lambda>_. 0)\<rparr>\<rparr>"

lemma fresh_handle: "Suc (sum_list (hs :: nat list)) \<notin> set hs"
  using member_le_sum_list by fastforce

lemma handle_sources_law: "source_law handle_sources handles_live"
  by (auto simp: source_law_def handle_sources_def handles_live_def fresh_handle image_iff)

lemma collectors_released_example:
  "case make_collectors handle_sources
       [\<lparr>svc_on = True, svc_name = ''ptp4l'', svc_source = ''journal'', svc_dev = []\<rparr>,
        \<lparr>svc_on = True, svc_name = ''ppswatch'', svc_source = ''subproccess'', svc_dev = ''/dev/pps0''\<rparr>,
        \<lparr>svc_on = True, svc_name = ''ptp4l'', svc_source = ''subproccess'', svc_dev = ''eth0''\<rparr>] [] ([4], [], []) of
     (cs, x1) \<Rightarrow> handles_live (destroy_all handle_sources (rev cs) x1) = {Inl 4}"
proof -
  let ?cfgs = "[\<lparr>svc_on = True, svc_name = ''ptp4l'', svc_source = ''journal'', svc_dev = []\<rparr>,
      \<lparr>svc_on = True, svc_name = ''ppswatch'', svc_source = ''subproccess'', svc_dev = ''/dev/pps0''\<rparr>,
      \<lparr>svc_on = True, svc_name = ''ptp4l'', svc_source = ''subproccess'', svc_dev = ''eth0''\<rparr>]"
  obtain cs x1 where m: "make_collectors handle_sources ?cfgs [] ([4], [], []) = (cs, x1)" by (rule prod.exhaust)
  have "owns handles_live (handles_live ([4], [], [])) cs x1"
    by (rule owns_collectors [OF handle_sources_law _ m]) (simp add: owns_def)
  then have "handles_live ([4], [], []) \<subseteq> handles_live x1" by (simp add: owns_def)
  from collectors_released [OF handle_sources_law m _ this order_refl, of "rev cs"]
  have "handles_live (destroy_all handle_sources (rev cs) x1) = handles_live ([4], [], [])" by simp
  then show ?thesis unfolding m by (simp add: handles_live_def)
qed

section \<open>The end of \<open>main\<close>\<close>

text \<open>When \<open>run\<close> has returned, \<open>main\<close> destroys the agent: its members in the reverse order of their
  declaration. The threads are joined by then; \<open>cs\<close> lists the collectors in the order of the map.\<close>

definition Agent_destroy ::
    "('h, 'p, 'x) source_libs \<Rightarrow> 'x zmq \<Rightarrow> (string \<times> ('h, 'p) collector) list \<Rightarrow> ZMQAdapter \<Rightarrow> 'x agent \<Rightarrow> os \<times> 'x" where
  "Agent_destroy S zmq cs adapter a =
     (let w = SysMetricsCollector_destroy (sysMetricsCollector a) (ag_os a);
          x = snd (ZMQAdapter_destroy zmq adapter (ag_ext a))
      in (w, destroy_all S cs x))"

text \<open>ZMQ neither opens journals nor starts programs.\<close>

definition zmq_leaves :: "'x zmq \<Rightarrow> ('x \<Rightarrow> 'q) \<Rightarrow> bool" where
  "zmq_leaves zmq q \<longleftrightarrow> leaves q (z_context zmq) \<and> leaves q (z_socket zmq) \<and> (\<forall>opt v. leaves q (z_set zmq opt v)) \<and>
     (\<forall>e. leaves q (z_connect zmq e)) \<and> (\<forall>n. leaves q (z_message zmq n)) \<and> (\<forall>b x r x'. z_send zmq b x = Some (r, x') \<longrightarrow> q x' = q x) \<and>
     leaves q (z_close zmq) \<and> leaves q (z_shutdown zmq)"

lemma z_all_leaves: "list_all (leaves q) fs \<Longrightarrow> z_all fs x = (r, x') \<Longrightarrow> q x' = q x"
proof (induction fs arbitrary: x)
  case (Cons f fs)
  obtain r1 x1 where f: "f x = (r1, x1)" by fastforce
  with Cons.prems(1) have "q x1 = q x" using leavesD [of q f x r1 x1] by simp
  then show ?case using Cons f by (cases r1) auto
qed simp

lemma adapter_leaves:
  assumes "zmq_leaves zmq q"
  shows "ZMQAdapter_new zmq config x = (r, x') \<Longrightarrow> q x' = q x"
    and "q (snd (ZMQAdapter_destroy zmq adapter x)) = q x"
    and "ZMQAdapter_send api zmq adapter m n x = Some (s, x') \<Longrightarrow> q x' = q x"
proof -
  show "q x' = q x" if "ZMQAdapter_new zmq config x = (r, x')"
  proof -
    have "list_all (leaves q) [z_context zmq, z_socket zmq, z_set zmq Sndhwm (queue_size config),
        z_set zmq Linger (timeout_after_close_ms config), z_connect zmq (zmq_endpoint config)]"
      using assms by (simp add: zmq_leaves_def)
    from z_all_leaves [OF this] that show ?thesis
      by (auto simp: ZMQAdapter_new_def split: prod.splits sum.splits)
  qed
  have ends: "leaves q (z_close zmq)" "leaves q (z_shutdown zmq)" using assms by (simp_all add: zmq_leaves_def)
  obtain r1 x1 where c: "z_close zmq x = (r1, x1)" by fastforce
  obtain r2 x2 where d: "z_shutdown zmq x1 = (r2, x2)" by fastforce
  obtain r3 x3 where e: "z_shutdown zmq x = (r3, x3)" by fastforce
  show "q (snd (ZMQAdapter_destroy zmq adapter x)) = q x"
    using leavesD [OF ends(1) c] leavesD [OF ends(2) d] leavesD [OF ends(2) e]
    by (cases "has_sender adapter"; cases r1; cases r2; cases r3)
      (simp_all add: ZMQAdapter_destroy_def c d e split: exn.split)
  have message: "leaves q (z_message zmq k)" for k using assms by (simp add: zmq_leaves_def)
  have send: "q x' = q x" if "z_send zmq b x = Some (r, x')" for b x r x'
    using assms that unfolding zmq_leaves_def by blast
  show "q x' = q x" if call: "ZMQAdapter_send api zmq adapter m n x = Some (r, x')" for x r x'
  proof (cases "has_sender adapter \<and> pb_serialize api (to_wrapper api m n) \<noteq> None")
    case True
    then obtain b where b: "pb_serialize api (to_wrapper api m n) = Some b" by blast
    obtain r1 x1 where z: "z_message zmq (length b) x = (r1, x1)" by fastforce
    note same = leavesD [OF message z]
    show ?thesis
    proof (cases "z_send zmq b x1")
      case None
      then show ?thesis using call same True b z
        by (cases r1) (auto simp: ZMQAdapter_send_def send_impl_def split: exn.splits)
    next
      case (Some p)
      then obtain r2 x2 where "z_send zmq b x1 = Some (r2, x2)" by (cases p) simp
      then show ?thesis using call same send [of b x1 r2 x2] True b z
        by (cases r1; cases r2) (auto simp: ZMQAdapter_send_def send_impl_def split: exn.splits option.splits)
    qed
  next
    case False
    then show ?thesis using call
      by (cases "has_sender adapter"; cases "pb_serialize api (to_wrapper api m n)")
        (auto simp: ZMQAdapter_send_def send_impl_def)
  qed
qed

lemma locked_send_leaves:
  assumes "sends_by_zmq L api zmq adapter" and "zmq_leaves zmq q" and "locked_send L m a = Some (r, a')"
  shows "q (ag_ext a') = q (ag_ext a)"
  using assms(1,3) adapter_leaves(3) [OF assms(2)]
  by (auto simp: locked_send_def sends_by_zmq_def split: option.splits prod.splits sum.splits)

text \<open>Stopping a collector may reap its child, and changes no other handle.\<close>

lemma stop_live:
  assumes "source_law S live"
  shows "live (collector_stop S c x) \<subseteq> live x" and "live x - {handle_of c} \<subseteq> live (collector_stop S c x)"
proof -
  have "live (collector_stop S c x) \<subseteq> live x \<and> live x - {handle_of c} \<subseteq> live (collector_stop S c x)"
  proof (cases c)
    case (Journal j)
    then show ?thesis using source_lawD(1) [OF assms] by (simp add: collector_stop_def JournalCollector_stop_def)
  next
    case (Subprocess p)
    obtain r x1 where r: "bp_running (s_process S) (sc_child p) x = (r, x1)" by fastforce
    with source_lawD(12) [OF assms r] Subprocess show ?thesis
      using source_lawD(15) [OF assms, of "sc_child p" x1]
      by (auto simp: collector_stop_def SubprocessCollector_stop_def)
  qed
  then show "live (collector_stop S c x) \<subseteq> live x" "live x - {handle_of c} \<subseteq> live (collector_stop S c x)" by simp_all
qed

text \<open>The threads call no library that makes or frees a handle; \<open>stop\<close> reaps at most the children of the
  collectors.\<close>

lemma live_exec:
  assumes "exec L names n s s'" and "calls_leave L live" and "sends_by_zmq L api zmq adapter" and "zmq_leaves zmq live"
    and "source_law S live" and "\<forall>k < length cs. l_stop L k = collector_stop S (snd (cs ! k))"
    and "length names = length cs" and "B \<inter> set (map (\<lambda>c. handle_of (snd c)) cs) = {}"
    and "B \<subseteq> live (ag_ext (the_agent s))"
  shows "B \<subseteq> live (ag_ext (the_agent s')) \<and> live (ag_ext (the_agent s')) \<subseteq> live (ag_ext (the_agent s))"
  using assms(1,9)
proof (induction rule: exec.induct)
  case (ex_thread n s s1 t s2)
  have send: "live (ag_ext a') = live (ag_ext a)" if "locked_send L m a = Some (r, a')" for m a r a'
    by (rule locked_send_leaves [OF assms(3,4) that])
  from ex_thread.hyps(4) have "live (ag_ext (the_agent s2)) = live (ag_ext (the_agent s1))"
  proof (cases rule: thread_step.cases)
    case (th_prepare e prep r m a)
    then show ?thesis using prepare_leaves [OF th_prepare(4) assms(2) th_prepare(5)] by (simp add: goto_def)
  next
    case (th_collect r m a)
    then show ?thesis using sys_prepare_quiet [OF th_collect(3)] by (simp add: goto_def)
  next
    case (th_send m a)
    then show ?thesis using send [OF th_send(3)] by (simp add: goto_def)
  next
    case (th_crash m e a)
    then show ?thesis using send [OF th_crash(3)] by simp
  qed (simp_all add: goto_def)
  with ex_thread.IH ex_thread.prems show ?case by simp
next
  case (ex_outside n s s1 s2)
  have stops: "B \<subseteq> live (l_stop L k x) \<and> live (l_stop L k x) \<subseteq> live x" if "k < length names" "B \<subseteq> live x" for k x
  proof -
    have k: "k < length cs" "handle_of (snd (cs ! k)) \<in> set (map (\<lambda>c. handle_of (snd c)) cs)" using that(1) assms(7) by auto
    then have "handle_of (snd (cs ! k)) \<notin> B" using assms(8) by blast
    then show ?thesis using stop_live(1) [OF assms(5), of "snd (cs ! k)" x] stop_live(2) [OF assms(5), of x "snd (cs ! k)"]
        that(2) assms(6) k(1) by auto
  qed
  have B: "B \<subseteq> live (ag_ext (the_agent s1))" and le: "live (ag_ext (the_agent s1)) \<subseteq> live (ag_ext (the_agent s))"
    using ex_outside.IH ex_outside.prems by simp_all
  have "B \<subseteq> live (ag_ext (the_agent s2)) \<and> live (ag_ext (the_agent s2)) \<subseteq> live (ag_ext (the_agent s1))"
    using agent_outside [OF ex_outside.hyps(3)]
  proof (elim disjE exE conjE)
    fix x
    assume "l_peer L (ag_ext (the_agent s1)) x" and x: "the_agent s2 = (the_agent s1)\<lparr>ag_ext := x\<rparr>"
    then have "live x = live (ag_ext (the_agent s1))" using assms(2) unfolding calls_leave_def by blast
    with B x show ?thesis by simp
  next
    fix x
    fix k
    assume "k < length names" "x = l_stop L k (ag_ext (the_agent s1))" and x: "the_agent s2 = (the_agent s1)\<lparr>ag_ext := x\<rparr>"
    with stops [OF this(1) B] show ?thesis by simp
  qed (use B in simp)
  with le show ?case by blast
qed (simp_all add: agent_run)

text \<open>C4. The program leaves nothing open. However it was configured, started and stopped, and whatever the
  threads and the signal handler did until \<open>run\<close> returned: no journal and no child from before is lost
  while it runs, and when \<open>main\<close> has destroyed the agent, the table of file descriptors is the one from before the
  start, and exactly the journals and children from before are left, even if children were stopped or
  ended on their own while the agent was running.\<close>

theorem program_leaks_nothing:
  assumes "main_setup y junk S zmq order args w x = (Inr (cs, adapter, loop), w1, x1)" and "order [] = []"
    and "source_law S live" and "zmq_leaves zmq live" and "calls_leave L live" and "sends_by_zmq L api zmq adapter"
    and "set cs' = set cs" and "\<forall>k < length cs'. l_stop L k = collector_stop S (snd (cs' ! k))"
    and "exec L (map fst cs') n (initial (map fst cs') loop) s" and "main_at s = Returned"
  shows "live x \<subseteq> live (ag_ext (the_agent s)) \<and>
    (\<forall>x2. live x \<subseteq> live x2 \<and> live x2 \<subseteq> live (ag_ext (the_agent s)) \<longrightarrow>
      (case Agent_destroy S zmq cs' adapter ((the_agent s)\<lparr>ag_ext := x2\<rparr>) of
         (w', x') \<Rightarrow> os_path w' = os_path w \<and> live x' = live x))"
proof -
  define config where "config = ConfigLoader_loadOrDefault y junk (config_path_of args)"
  obtain x0 where m: "make_collectors S (service config) [] x = (cs, x0)"
    and z: "ZMQAdapter_new zmq (configZMQ config) x0 = (Inr adapter, x1)"
    and l: "Agent_new order config w x1 = (Inr loop, w1)"
    using assms(1) by (auto simp: main_setup_def Let_def simp flip: config_def split: prod.splits sum.splits)
  obtain sys where sys: "SysMetricsCollector_new order (temperature_sensors config) SystemPaths_default w = (Inr sys, w1)"
    and loop: "sysMetricsCollector loop = sys" "ag_os loop = w1" "ag_ext loop = x1"
    using l by (auto simp: Agent_new_def split: prod.splits sum.splits)
  have inv: "agent_inv loop" "outside (sysMetricsCollector loop) (ag_os loop) = os_path w"
    using new_sys_inv [OF sys assms(2)] by (simp_all add: agent_inv_def loop)
  have start: "the_agent (initial names loop) = loop" for names by (simp add: initial_def)
  have "outside (sysMetricsCollector (the_agent s)) (ag_os (the_agent s)) = os_path w"
    using agent_exec [OF assms(9)] inv by (simp add: start fixed_part_def)
  then have table: "os_path (SysMetricsCollector_destroy (sysMetricsCollector (the_agent s)) (ag_os (the_agent s))) = os_path w"
    by (simp add: destroy_outside)
  have owns: "owns live (live x) cs x0"
    by (rule owns_collectors [OF assms(3) _ m]) (simp add: owns_def)
  have before: "live (ag_ext (the_agent (initial (map fst cs') loop))) = live x0"
    using adapter_leaves(1) [OF assms(4) z] by (simp add: start loop)
  have live: "live x \<subseteq> live (ag_ext (the_agent s)) \<and> live (ag_ext (the_agent s)) \<subseteq> live x0"
    using live_exec [OF assms(9,5,6,4,3,8), of "live x"] owns assms(7) unfolding before by (simp add: owns_def)
  note same = adapter_leaves(2) [OF assms(4)]
  have "live (destroy_all S cs' (snd (ZMQAdapter_destroy zmq adapter x2))) = live x"
    if "live x \<subseteq> live x2" "live x2 \<subseteq> live (ag_ext (the_agent s))" for x2
    by (rule owns_released [OF assms(3) owns assms(7)]) (use that live in \<open>auto simp: same\<close>)
  with table live show ?thesis by (simp add: Agent_destroy_def Let_def)
qed

definition handle_zmq :: "handles zmq" where
  "handle_zmq = \<lparr>z_context = (\<lambda>x. (Inr (), x)), z_socket = (\<lambda>x. (Inr (), x)), z_set = (\<lambda>_ _ x. (Inr (), x)),
     z_connect = (\<lambda>_ x. (Inr (), x)), z_message = (\<lambda>_ x. (Inr (), x)),
     z_send = (\<lambda>b (hs, ps, q). Some (Inr (Some (length b)), hs, ps, q @ [b])),
     z_close = (\<lambda>x. (Inr (), x)), z_shutdown = (\<lambda>x. (Inr (), x))\<rparr>"

definition journal_collectors :: "(string \<times> (nat, nat) collector) list" where
  "journal_collectors = [(''ptp4l'', Journal \<lparr>jc_unit = ''ptp4l'', jc_journal = 5\<rparr>)]"

definition handle_libs :: "handles libs" where
  "handle_libs = \<lparr>l_send = ZMQAdapter_send one_pb handle_zmq \<lparr>has_context = True, has_sender = True\<rparr>, l_peer = (=),
     l_stop = (\<lambda>k. collector_stop handle_sources (snd (journal_collectors ! k))), l_ended = (\<lambda>_ _. True),
     l_net = \<lparr>n_socket = (\<lambda>w. (- 1, w)), n_ioctl = (\<lambda>_ _ w. (None, w)), n_close = (\<lambda>_ w. w), n_strerror = (\<lambda>_. [])\<rparr>,
     l_pci = \<lparr>p_alloc = (\<lambda>w. (False, w)), p_init = (\<lambda>w. w), p_get_dev = (\<lambda>_ w. (False, w)), p_FILL_IDENT = 1,
       p_fill = (\<lambda>_ w. (0, w)), p_ident = (\<lambda>_. (0, 0, 0)), p_lookup_vendor = (\<lambda>_ w. ([], w)),
       p_lookup_device = (\<lambda>_ _ w. ([], w)), p_free_dev = (\<lambda>w. w), p_cleanup = (\<lambda>w. w)\<rparr>,
     l_spawn = (\<lambda>_ _ w. (Inr ([], 1), w)), l_big = (\<lambda>_. 0)\<rparr>"

definition journal_yaml :: "ynode yaml" where
  "journal_yaml = tree_yaml [''j'' \<mapsto> YMap [(''services'',
     YMap [(''ptp4l'', YMap [(''on'', YScalar ''true''), (''source'', YScalar ''journal'')])])]]"

lemma journal_config: "service (ConfigLoader_loadOrDefault journal_yaml junk ''j'') =
    [\<lparr>svc_on = True, svc_name = ''ptp4l'', svc_source = ''journal'', svc_dev = []\<rparr>]"
  by (simp add: ConfigLoader_loadOrDefault_def ConfigLoader_load_def load_body_def journal_yaml_def tree_yaml_def
      if_key_def load_services_def load_service_def AgentConfig_init_def read_bool_def)

lemma journal_setup:
  "\<exists>loop w1. main_setup journal_yaml some_junk handle_sources handle_zmq id [''j''] net_world ([4], [], []) =
     (Inr (journal_collectors, \<lparr>has_context = True, has_sender = True\<rparr>, loop), w1, ([5, 4], [], [])) \<and>
     ag_ext loop = ([5, 4], [], [])"
  by (simp add: main_setup_def config_path_of_def journal_config makeCollector_def new_journal_def JournalCollector_new_def
      handle_sources_def handle_zmq_def ZMQAdapter_new_def Agent_new_def SysMetricsCollector_new_def
      TemperatureCollector_new_def net_world_def journal_collectors_def split_beta Let_def)

theorem program_leaks_nothing_witness:
  "\<exists>loop w1 x1. main_setup journal_yaml some_junk handle_sources handle_zmq id [''j''] net_world ([4], [], []) =
       (Inr (journal_collectors, \<lparr>has_context = True, has_sender = True\<rparr>, loop), w1, x1) \<and>
     (case Agent_destroy handle_sources handle_zmq journal_collectors \<lparr>has_context = True, has_sender = True\<rparr> loop of
       (w', x') \<Rightarrow> os_path w' = os_path net_world \<and> handles_live x' = {Inl 4})"
proof -
  obtain loop w1 where start: "main_setup journal_yaml some_junk handle_sources handle_zmq id [''j''] net_world ([4], [], []) =
       (Inr (journal_collectors, \<lparr>has_context = True, has_sender = True\<rparr>, loop), w1, ([5, 4], [], []))"
    and ext: "ag_ext loop = ([5, 4], [], [])"
    using journal_setup by blast
  have zmq: "zmq_leaves handle_zmq handles_live"
    by (auto simp: zmq_leaves_def leaves_def handle_zmq_def handles_live_def)
  have quiet: "calls_leave handle_libs handles_live" by (simp add: calls_leave_def leaves_def handle_libs_def)
  have sends: "sends_by_zmq handle_libs one_pb handle_zmq \<lparr>has_context = True, has_sender = True\<rparr>"
    by (simp add: sends_by_zmq_def handle_libs_def)
  have names: "map fst journal_collectors = one_name" by (simp add: journal_collectors_def)
  have stops: "\<forall>k < length journal_collectors. l_stop handle_libs k = collector_stop handle_sources (snd (journal_collectors ! k))"
    by (simp add: handle_libs_def)
  have same: "after_stop handle_libs loop = loop"
    by (simp add: handle_libs_def journal_collectors_def collector_stop_def JournalCollector_stop_def handle_sources_def)
  let ?s = "stop_run loop False [Finished, Finished] Returned (Some 1) (source_stopped handle_libs loop)"
  have run: "exec handle_libs one_name 8 (initial one_name loop) ?s"
    using returned_run [of handle_libs loop] unfolding same .
  have "case Agent_destroy handle_sources handle_zmq journal_collectors \<lparr>has_context = True, has_sender = True\<rparr>
      ((the_agent ?s)\<lparr>ag_ext := ([5, 4], [], [])\<rparr>) of
    (w', x') \<Rightarrow> os_path w' = os_path net_world \<and> handles_live x' = handles_live ([4], [], [])"
    using program_leaks_nothing [OF start _ handle_sources_law zmq quiet sends refl stops,
        unfolded names, OF _ run]
    by (auto simp: stop_run_def ext handles_live_def)
  moreover have "(the_agent ?s)\<lparr>ag_ext := ([5, 4], [], [])\<rparr> = loop" using ext by (cases loop) (simp add: stop_run_def)
  ultimately show ?thesis using start by (simp add: handles_live_def)
qed

end
