(* ===== verification/Interface_Race.thy ===== *)
theory Interface_Race
  imports Sensor_Theorems
begin

text \<open>
  \<open>NetworkCollector\<close> as two threads use it: the \<open>ptp4l\<close> reader calls \<open>setInterface\<close> when a port changes
  its state, the system thread calls \<open>collect\<close>, and no lock is held (\<open>src/agent.cpp\<close>, \<open>src/system_metrics.cpp\<close>).
  Here each statement of the two functions is a step of its own, and the steps of the two threads
  interleave in any order. This is the least that can happen: for C++ the accesses are a data race.
  The steps of one call alone are the functions of \<open>Sensor_Metrics\<close>; what the interleaving keeps
  and what it breaks are the theorems below.
\<close>

section \<open>The statements as steps\<close>

text \<open>Where a call of \<open>setInterface\<close> is: in \<open>closeFds\<close> before entry \<open>i\<close>, or with its descriptor closed and
  not yet reset; before \<open>interface_ = interface\<close>; in the second loop before each of its statements; \<open>open\<close>
  has returned and its result is not stored yet.\<close>

datatype set_pc = SetIdle | SetClose nat | SetReset nat | SetName | SetPath nat | SetField nat | SetOpen nat
  | SetStore nat int | SetReturn

definition set_entry :: "nat \<Rightarrow> (MetricEntry \<Rightarrow> MetricEntry) \<Rightarrow> NetworkCollector \<Rightarrow> NetworkCollector" where
  "set_entry i f c = c\<lparr>metricEntries := (metricEntries c)[i := f (metricEntries c ! i)]\<rparr>"

fun set_step :: "string \<Rightarrow> set_pc \<Rightarrow> NetworkCollector \<times> os \<Rightarrow> set_pc \<times> NetworkCollector \<times> os" where
  "set_step iface (SetClose i) (c, w) =
     (if i < length (metricEntries c)
      then (if me_fd (metricEntries c ! i) \<noteq> - 1 then (SetReset i, c, os_close (me_fd (metricEntries c ! i)) w)
            else (SetClose (Suc i), c, w))
      else (SetName, c, w))"
| "set_step iface (SetReset i) (c, w) = (SetClose (Suc i), set_entry i (\<lambda>e. e\<lparr>me_fd := - 1\<rparr>) c, w)"
| "set_step iface SetName (c, w) = (SetPath 0, c\<lparr>net_interface := iface\<rparr>, w)"
| "set_step iface (SetPath i) (c, w) =
     (if i < length kNetworkMetrics
      then (SetField i, set_entry i (\<lambda>e. e\<lparr>me_path := metric_path (netStatsBase c) iface (fst (kNetworkMetrics ! i))\<rparr>) c, w)
      else (SetReturn, c, w))"
| "set_step iface (SetField i) (c, w) =
     (SetOpen i, set_entry i (\<lambda>e. e\<lparr>me_field := Some (snd (kNetworkMetrics ! i))\<rparr>) c, w)"
| "set_step iface (SetOpen i) (c, w) =
     (let (fd, w1) = os_open (me_path (metricEntries c ! i)) w in (SetStore i fd, c, w1))"
| "set_step iface (SetStore i fd) (c, w) = (SetPath (Suc i), set_entry i (\<lambda>e. e\<lparr>me_fd := fd\<rparr>) c, w)"
| "set_step iface SetIdle x = (SetIdle, x)"
| "set_step iface SetReturn x = (SetReturn, x)"

text \<open>Where a call of \<open>collect\<close> is, with its local variables: the test for an empty interface; for
  entry \<open>i\<close> the test of the descriptor, reading it as the argument of \<open>pread\<close>, the call itself, and
  \<open>from_chars\<close> with the member pointer of the entry. A step changes nothing but these.\<close>

datatype get_pc = GetIdle | GetName | GetTest nat NetworkStats | GetLoad nat NetworkStats
  | GetPread nat int NetworkStats | GetParse nat string NetworkStats | GetReturn "NetworkStats option"

fun get_step :: "get_pc \<Rightarrow> NetworkCollector \<times> os \<Rightarrow> get_pc" where
  "get_step GetName (c, w) = (if net_interface c = [] then GetReturn None else GetTest 0 NetworkStats_init)"
| "get_step (GetTest i s) (c, w) =
     (if i < length (metricEntries c)
      then (if me_fd (metricEntries c ! i) = - 1 then GetReturn None else GetLoad i s)
      else GetReturn (Some s))"
| "get_step (GetLoad i s) (c, w) = GetPread i (me_fd (metricEntries c ! i)) s"
| "get_step (GetPread i fd s) (c, w) =
     (case os_pread fd (32 - 1) w of
        None \<Rightarrow> GetReturn None
      | Some [] \<Rightarrow> GetReturn None
      | Some buf \<Rightarrow> GetParse i buf s)"
| "get_step (GetParse i buf s) (c, w) =
     (case from_chars_u64 buf of
        Inl _ \<Rightarrow> GetReturn None
      | Inr (v, _) \<Rightarrow> GetTest (Suc i) (case me_field (metricEntries c ! i) of Some f \<Rightarrow> set_net_field f v s | None \<Rightarrow> s))"
| "get_step GetIdle x = GetIdle"
| "get_step (GetReturn r) x = GetReturn r"

text \<open>The two threads. \<open>nr_todo\<close> are the interfaces still to be watched, \<open>nr_iface\<close> is the argument of the
  call under way; the rest is history: the calls of \<open>setInterface\<close> that returned, and for each \<open>collect\<close>
  the state in which it began, whether a statement of \<open>setInterface\<close> ran since then, and the result.\<close>

record net_race =
  nr_todo :: "string list"
  nr_iface :: string
  nr_set :: set_pc
  nr_get :: get_pc
  nr_shared :: "NetworkCollector \<times> os"
  nr_done :: "string list"
  nr_begun :: "NetworkCollector \<times> os"
  nr_moved :: bool
  nr_reports :: "((NetworkCollector \<times> os) \<times> bool \<times> NetworkStats option) list"

definition race_start :: "string list \<Rightarrow> NetworkCollector \<times> os \<Rightarrow> net_race" where
  "race_start ifaces x = \<lparr>nr_todo = ifaces, nr_iface = [], nr_set = SetIdle, nr_get = GetIdle, nr_shared = x,
     nr_done = [], nr_begun = x, nr_moved = False, nr_reports = []\<rparr>"

inductive race_step :: "net_race \<Rightarrow> net_race \<Rightarrow> bool" where
  set_call: "nr_set s = SetIdle \<Longrightarrow> nr_todo s = i # is \<Longrightarrow>
    race_step s (s\<lparr>nr_todo := is, nr_iface := i, nr_set := SetClose 0\<rparr>)"
| set_move: "nr_set s \<notin> {SetIdle, SetReturn} \<Longrightarrow> set_step (nr_iface s) (nr_set s) (nr_shared s) = (pc, x) \<Longrightarrow>
    race_step s (s\<lparr>nr_set := pc, nr_shared := x, nr_moved := True\<rparr>)"
| set_return: "nr_set s = SetReturn \<Longrightarrow> race_step s (s\<lparr>nr_set := SetIdle, nr_done := nr_done s @ [nr_iface s]\<rparr>)"
| get_call: "nr_get s = GetIdle \<Longrightarrow> race_step s (s\<lparr>nr_get := GetName, nr_begun := nr_shared s, nr_moved := False\<rparr>)"
| get_move: "nr_get s \<notin> {GetIdle} \<union> range GetReturn \<Longrightarrow> race_step s (s\<lparr>nr_get := get_step (nr_get s) (nr_shared s)\<rparr>)"
| get_return: "nr_get s = GetReturn r \<Longrightarrow>
    race_step s (s\<lparr>nr_get := GetIdle, nr_reports := nr_reports s @ [(nr_begun s, nr_moved s, r)]\<rparr>)"

inductive races :: "net_race \<Rightarrow> net_race \<Rightarrow> bool" for s0 where
  races_refl: "races s0 s0"
| races_step: "races s0 s \<Longrightarrow> race_step s s' \<Longrightarrow> races s0 s'"

section \<open>One call of setInterface\<close>

text \<open>What is left to do at each point, in the terms of \<open>Sensor_Metrics\<close>.\<close>

definition to_open :: "string \<Rightarrow> nat \<Rightarrow> NetworkCollector \<times> os \<Rightarrow> NetworkCollector \<times> os" where
  "to_open iface i x = (case x of (c, w) \<Rightarrow>
     let paths = map (\<lambda>(name, _). metric_path (netStatsBase c) iface name) (drop i kNetworkMetrics);
         (fds, w1) = open_each os_open paths w
     in (c\<lparr>metricEntries := take i (metricEntries c) @ map (\<lambda>((p, fd), (_, f)). \<lparr>me_path = p, me_fd = fd, me_field = Some f\<rparr>)
           (zip (zip paths fds) (drop i kNetworkMetrics))\<rparr>, w1))"

definition to_close :: "string \<Rightarrow> nat \<Rightarrow> NetworkCollector \<times> os \<Rightarrow> NetworkCollector \<times> os" where
  "to_close iface i x = (case x of (c, w) \<Rightarrow>
     to_open iface 0 (c\<lparr>net_interface := iface,
         metricEntries := take i (metricEntries c) @ map (\<lambda>e. e\<lparr>me_fd := - 1\<rparr>) (drop i (metricEntries c))\<rparr>,
       close_each os_close (map me_fd (drop i (metricEntries c))) w))"

fun left_to_do :: "string \<Rightarrow> set_pc \<Rightarrow> NetworkCollector \<times> os \<Rightarrow> NetworkCollector \<times> os" where
  "left_to_do iface (SetClose i) x = to_close iface i x"
| "left_to_do iface (SetReset i) (c, w) = to_close iface (Suc i) (set_entry i (\<lambda>e. e\<lparr>me_fd := - 1\<rparr>) c, w)"
| "left_to_do iface SetName (c, w) = to_open iface 0 (c\<lparr>net_interface := iface\<rparr>, w)"
| "left_to_do iface (SetPath i) x = to_open iface i x"
| "left_to_do iface (SetField i) x = to_open iface i x"
| "left_to_do iface (SetOpen i) x = to_open iface i x"
| "left_to_do iface (SetStore i fd) (c, w) = to_open iface (Suc i) (set_entry i (\<lambda>e. e\<lparr>me_fd := fd\<rparr>) c, w)"
| "left_to_do iface SetIdle x = x"
| "left_to_do iface SetReturn x = x"

text \<open>The entry the second loop works on.\<close>

fun set_ok :: "string \<Rightarrow> set_pc \<Rightarrow> NetworkCollector \<Rightarrow> bool" where
  "set_ok iface (SetClose i) c \<longleftrightarrow> i \<le> 7"
| "set_ok iface (SetReset i) c \<longleftrightarrow> i < 7"
| "set_ok iface (SetPath i) c \<longleftrightarrow> i \<le> 7"
| "set_ok iface (SetField i) c \<longleftrightarrow> i < 7 \<and> me_path (metricEntries c ! i) = metric_file (netStatsBase c) iface i"
| "set_ok iface (SetOpen i) c \<longleftrightarrow> i < 7 \<and> me_path (metricEntries c ! i) = metric_file (netStatsBase c) iface i \<and>
     me_field (metricEntries c ! i) = Some (snd (kNetworkMetrics ! i))"
| "set_ok iface (SetStore i fd) c \<longleftrightarrow> i < 7 \<and> me_path (metricEntries c ! i) = metric_file (netStatsBase c) iface i \<and>
     me_field (metricEntries c ! i) = Some (snd (kNetworkMetrics ! i))"
| "set_ok iface _ c \<longleftrightarrow> True"

lemma set_entry_simps [simp]:
  "length (metricEntries (set_entry i f c)) = length (metricEntries c)"
  "net_interface (set_entry i f c) = net_interface c" "netStatsBase (set_entry i f c) = netStatsBase c"
  "i < length (metricEntries c) \<Longrightarrow> metricEntries (set_entry i f c) ! i = f (metricEntries c ! i)"
  "j \<noteq> i \<Longrightarrow> metricEntries (set_entry i f c) ! j = metricEntries c ! j"
  by (simp_all add: set_entry_def)

lemma metric_drop: "i < 7 \<Longrightarrow> drop i kNetworkMetrics = kNetworkMetrics ! i # drop (Suc i) kNetworkMetrics"
  by (simp add: Cons_nth_drop_Suc)

lemma to_open_overwrites:
  "length (metricEntries c) = 7 \<Longrightarrow> to_open iface i (set_entry i f c, w) = to_open iface i (c, w)"
  by (simp add: to_open_def set_entry_def Let_def split_beta)

lemma to_open_entry:
  assumes "length (metricEntries c) = 7" and "i < 7"
    and "me_path (metricEntries c ! i) = metric_file (netStatsBase c) iface i"
    and "me_field (metricEntries c ! i) = Some (snd (kNetworkMetrics ! i))"
    and "os_open (me_path (metricEntries c ! i)) w = (fd, w1)"
  shows "to_open iface (Suc i) (set_entry i (\<lambda>e. e\<lparr>me_fd := fd\<rparr>) c, w1) = to_open iface i (c, w)"
proof -
  have e: "(metricEntries c ! i)\<lparr>me_fd := fd\<rparr> =
      \<lparr>me_path = metric_file (netStatsBase c) iface i, me_fd = fd, me_field = Some (snd (kNetworkMetrics ! i))\<rparr>"
    using assms(3,4) by (cases "metricEntries c ! i") simp
  have "take (Suc i) ((metricEntries c)[i := x]) = take i (metricEntries c) @ [x]" for x
    using assms(1,2) by (simp add: take_Suc_conv_app_nth)
  then show ?thesis using assms
    by (simp add: to_open_def set_entry_def metric_drop e Let_def split_beta)
      (simp add: split_beta metric_file_path)
qed

lemma to_close_entry:
  assumes "i < length (metricEntries c)"
  shows "me_fd (metricEntries c ! i) = - 1 \<Longrightarrow> to_close iface (Suc i) (c, w) = to_close iface i (c, w)"
    and "me_fd (metricEntries c ! i) \<noteq> - 1 \<Longrightarrow>
      to_close iface (Suc i) (set_entry i (\<lambda>e. e\<lparr>me_fd := - 1\<rparr>) c, os_close (me_fd (metricEntries c ! i)) w) = to_close iface i (c, w)"
proof -
  have drop: "drop i (metricEntries c) = metricEntries c ! i # drop (Suc i) (metricEntries c)"
    by (rule Cons_nth_drop_Suc [OF assms, symmetric])
  have same: "(metricEntries c ! i)\<lparr>me_fd := - 1\<rparr> = metricEntries c ! i" if "me_fd (metricEntries c ! i) = - 1"
    using that by (cases "metricEntries c ! i") simp
  have take: "take (Suc i) ((metricEntries c)[i := x]) = take i (metricEntries c) @ [x]" for x
    using assms by (simp add: take_Suc_conv_app_nth)
  show "me_fd (metricEntries c ! i) = - 1 \<Longrightarrow> to_close iface (Suc i) (c, w) = to_close iface i (c, w)"
    using assms by (simp add: to_close_def drop same take_Suc_conv_app_nth)
  show "me_fd (metricEntries c ! i) \<noteq> - 1 \<Longrightarrow>
      to_close iface (Suc i) (set_entry i (\<lambda>e. e\<lparr>me_fd := - 1\<rparr>) c, os_close (me_fd (metricEntries c ! i)) w) = to_close iface i (c, w)"
    using assms by (simp add: to_close_def set_entry_def drop take)
qed

lemma to_close_end: "length (metricEntries c) \<le> i \<Longrightarrow> to_close iface i (c, w) = to_open iface 0 (c\<lparr>net_interface := iface\<rparr>, w)"
  by (simp add: to_close_def)

lemma to_open_end: "length (metricEntries c) = 7 \<Longrightarrow> 7 \<le> i \<Longrightarrow> to_open iface i (c, w) = (c, w)"
  by (simp add: to_open_def)

lemma to_close_start: "to_close iface 0 (c, w) = NetworkCollector_setInterface iface c w"
  by (simp add: to_close_def to_open_def NetworkCollector_setInterface_def closeFds_def Let_def split_beta)

text \<open>Each statement does its part of what is left.\<close>

lemma set_step_left:
  assumes "set_step iface pc (c, w) = (pc', c', w')" and "length (metricEntries c) = 7" and "set_ok iface pc c"
  shows "left_to_do iface pc' (c', w') = left_to_do iface pc (c, w) \<and> length (metricEntries c') = 7 \<and> set_ok iface pc' c'"
proof (cases pc)
  case (SetClose i)
  then show ?thesis using assms to_close_entry [of i c iface w] to_close_end [of c i iface w]
    by (auto split: if_splits)
next
  case (SetPath i)
  then show ?thesis using assms to_open_overwrites [OF assms(2)] to_open_end [OF assms(2)]
    by (auto simp: metric_file_path split: if_splits)
next
  case (SetField i)
  then show ?thesis using assms to_open_overwrites [OF assms(2)] by auto
next
  case (SetOpen i)
  then show ?thesis using assms to_open_entry [of c i iface w] by (auto split: prod.splits)
qed (use assms in auto)

text \<open>A call ends: every statement decreases this number.\<close>

fun set_left :: "set_pc \<Rightarrow> nat" where
  "set_left (SetClose i) = 31 + 2 * (7 - i)"
| "set_left (SetReset i) = 30 + 2 * (7 - i)"
| "set_left SetName = 30"
| "set_left (SetPath i) = 1 + 4 * (7 - i)"
| "set_left (SetField i) = 4 * (7 - i)"
| "set_left (SetOpen i) = 4 * (7 - i) - 1"
| "set_left (SetStore i fd) = 4 * (7 - i) - 2"
| "set_left _ = 0"

lemma set_left_decreases:
  assumes "set_step iface pc (c, w) = (pc', x)" and "length (metricEntries c) = 7" and "set_ok iface pc c"
    and "pc \<notin> {SetIdle, SetReturn}"
  shows "set_left pc' < set_left pc \<and> pc' \<noteq> SetIdle"
  using assms by (cases pc) (auto split: if_splits prod.splits)

text \<open>Member pointers are set before descriptors and never become null again.\<close>

definition fields_set :: "NetworkCollector \<Rightarrow> bool" where
  "fields_set c \<longleftrightarrow> (\<forall>i < length (metricEntries c). me_fd (metricEntries c ! i) \<noteq> - 1 \<longrightarrow> me_field (metricEntries c ! i) \<noteq> None)"

lemma set_step_fields:
  assumes "set_step iface pc (c, w) = (pc', c', w')" and "length (metricEntries c) = 7" and "set_ok iface pc c"
  shows "fields_set c \<Longrightarrow> fields_set c'"
    and "i < 7 \<Longrightarrow> me_field (metricEntries c ! i) \<noteq> None \<Longrightarrow> me_field (metricEntries c' ! i) \<noteq> None"
proof -
  have keep: "fields_set (set_entry j f c)" if "fields_set c" "j < 7"
      "\<And>e. e = metricEntries c ! j \<Longrightarrow> me_fd (f e) \<noteq> - 1 \<longrightarrow> me_field (f e) \<noteq> None" for j f
    using that assms(2) unfolding fields_set_def
    by (auto simp: set_entry_def nth_list_update)
  show "fields_set c \<Longrightarrow> fields_set c'"
    using assms by (cases pc) (auto split: if_splits prod.splits intro!: keep, auto simp: fields_set_def)
  show "i < 7 \<Longrightarrow> me_field (metricEntries c ! i) \<noteq> None \<Longrightarrow> me_field (metricEntries c' ! i) \<noteq> None"
    using assms by (cases pc) (auto simp: set_entry_def nth_list_update split: if_splits prod.splits)
qed

section \<open>One call of collect\<close>

text \<open>The result if nobody else runs.\<close>

definition parse_entry :: "nat \<Rightarrow> string \<Rightarrow> NetworkStats \<Rightarrow> NetworkCollector \<times> os \<Rightarrow> NetworkStats option" where
  "parse_entry i buf s x = (case x of (c, w) \<Rightarrow>
     (case from_chars_u64 buf of
        Inl _ \<Rightarrow> None
      | Inr (v, _) \<Rightarrow> read_entries (drop (Suc i) (metricEntries c)) w
          (case me_field (metricEntries c ! i) of Some f \<Rightarrow> set_net_field f v s | None \<Rightarrow> s)))"

fun left_to_get :: "get_pc \<Rightarrow> NetworkCollector \<times> os \<Rightarrow> NetworkStats option" where
  "left_to_get GetName (c, w) = NetworkCollector_collect c w"
| "left_to_get (GetTest i s) (c, w) = read_entries (drop i (metricEntries c)) w s"
| "left_to_get (GetLoad i s) (c, w) = read_entries (drop i (metricEntries c)) w s"
| "left_to_get (GetPread i fd s) (c, w) =
     (case os_pread fd (32 - 1) w of
        None \<Rightarrow> None
      | Some [] \<Rightarrow> None
      | Some buf \<Rightarrow> parse_entry i buf s (c, w))"
| "left_to_get (GetParse i buf s) x = parse_entry i buf s x"
| "left_to_get GetIdle x = None"
| "left_to_get (GetReturn r) x = r"

text \<open>Between the test of a descriptor and the use of the member pointer the entry has one.\<close>

fun get_ok :: "get_pc \<Rightarrow> NetworkCollector \<Rightarrow> bool" where
  "get_ok (GetTest i s) c \<longleftrightarrow> i \<le> 7"
| "get_ok (GetLoad i s) c \<longleftrightarrow> i < 7 \<and> me_field (metricEntries c ! i) \<noteq> None"
| "get_ok (GetPread i fd s) c \<longleftrightarrow> i < 7 \<and> me_field (metricEntries c ! i) \<noteq> None"
| "get_ok (GetParse i buf s) c \<longleftrightarrow> i < 7 \<and> me_field (metricEntries c ! i) \<noteq> None"
| "get_ok _ c \<longleftrightarrow> True"

lemma read_entries_drop:
  "i < length es \<Longrightarrow> read_entries (drop i es) w s = read_entries (es ! i # drop (Suc i) es) w s"
  by (simp add: Cons_nth_drop_Suc)

lemma get_step_left:
  assumes "length (metricEntries c) = 7" and "get_ok pc c"
  shows "left_to_get (get_step pc (c, w)) (c, w) = left_to_get pc (c, w)"
proof (cases pc)
  case (GetTest i s)
  then show ?thesis using assms
    by (cases "i < 7") (simp_all add: read_entries_drop)
next
  case (GetLoad i s)
  then show ?thesis using assms
    by (simp add: read_entries_drop parse_entry_def split: option.split list.split)
next
  case (GetPread i fd s)
  then show ?thesis by (auto split: option.split list.split)
qed (auto simp: parse_entry_def NetworkCollector_collect_def split: sum.split)

lemma get_step_ok:
  assumes "length (metricEntries c) = 7" and "fields_set c" and "get_ok pc c"
  shows "get_ok (get_step pc (c, w)) c"
  using assms by (cases pc) (auto simp: fields_set_def split: option.split list.split sum.split)

text \<open>A call of \<open>collect\<close> ends, too.\<close>

fun get_left :: "get_pc \<Rightarrow> nat" where
  "get_left GetName = 32"
| "get_left (GetTest i s) = 3 + 4 * (7 - i)"
| "get_left (GetLoad i s) = 2 + 4 * (7 - i)"
| "get_left (GetPread i fd s) = 1 + 4 * (7 - i)"
| "get_left (GetParse i buf s) = 4 * (7 - i)"
| "get_left _ = 0"

lemma get_left_decreases:
  assumes "length (metricEntries c) = 7" and "get_ok pc c" and "pc \<notin> {GetIdle} \<union> range GetReturn"
  shows "get_left (get_step pc (c, w)) < get_left pc"
  using assms by (cases pc) (auto split: option.split list.split sum.split)

section \<open>Every interleaving\<close>

definition race_inv :: "string list \<Rightarrow> NetworkCollector \<times> os \<Rightarrow> net_race \<Rightarrow> bool" where
  "race_inv ifaces x s \<longleftrightarrow> (case nr_shared s of (c, w) \<Rightarrow>
     length (metricEntries c) = 7 \<and> fields_set c \<and> set_ok (nr_iface s) (nr_set s) c \<and> get_ok (nr_get s) c \<and>
     (case set_interfaces (nr_done s) (fst x) (snd x) of (c1, w1) \<Rightarrow>
        if nr_set s = SetIdle then (c, w) = (c1, w1) \<and> nr_done s @ nr_todo s = ifaces
        else left_to_do (nr_iface s) (nr_set s) (c, w) = NetworkCollector_setInterface (nr_iface s) c1 w1 \<and>
          nr_done s @ nr_iface s # nr_todo s = ifaces) \<and>
     (nr_get s \<noteq> GetIdle \<and> \<not> nr_moved s \<longrightarrow> (c, w) = nr_begun s \<and>
        left_to_get (nr_get s) (c, w) = NetworkCollector_collect c w) \<and>
     list_all (\<lambda>((c0, w0), m, r). m \<or> r = NetworkCollector_collect c0 w0) (nr_reports s))"

lemma set_interfaces_snoc:
  "set_interfaces (is @ [i]) c w = (case set_interfaces is c w of (c1, w1) \<Rightarrow> NetworkCollector_setInterface i c1 w1)"
  by (induction "is" arbitrary: c w) (simp_all split: prod.split)

lemma get_ok_kept:
  assumes "get_ok pc c" and "\<And>i. i < 7 \<Longrightarrow> me_field (metricEntries c ! i) \<noteq> None \<Longrightarrow> me_field (metricEntries c' ! i) \<noteq> None"
  shows "get_ok pc c'"
  using assms by (cases pc) auto

lemma race_inv_step:
  assumes "race_inv ifaces x s" and "race_step s s'"
  shows "race_inv ifaces x s'"
proof -
  obtain c w where sh: "nr_shared s = (c, w)" by fastforce
  obtain c1 w1 where d: "set_interfaces (nr_done s) (fst x) (snd x) = (c1, w1)" by fastforce
  have inv: "length (metricEntries c) = 7" "fields_set c" "set_ok (nr_iface s) (nr_set s) c" "get_ok (nr_get s) c"
    using assms(1) by (simp_all add: race_inv_def sh)
  show ?thesis
    using assms(2)
  proof (cases rule: race_step.cases)
    case (set_call i "is")
    then show ?thesis using assms(1) by (auto simp: race_inv_def sh d to_close_start)
  next
    case (set_move pc y)
    obtain c' w' where y: "y = (c', w')" by fastforce
    have st: "set_step (nr_iface s) (nr_set s) (c, w) = (pc, c', w')" using set_move(3) y sh by simp
    note left = set_step_left [OF st inv(1,3)] and fields = set_step_fields [OF st inv(1,3)]
    have "pc \<noteq> SetIdle" using set_left_decreases [OF st inv(1,3)] set_move(2) by simp
    then show ?thesis using assms(1) left fields(1) [OF inv(2)] get_ok_kept [OF inv(4) fields(2)] set_move(1,2)
      by (simp add: race_inv_def sh d y)
  next
    case set_return
    then show ?thesis using assms(1)
      by (cases "NetworkCollector_setInterface (nr_iface s) c1 w1") (auto simp: race_inv_def sh d set_interfaces_snoc)
  next
    case get_call
    then show ?thesis using assms(1) by (simp add: race_inv_def sh d)
  next
    case get_move
    have "get_step (nr_get s) (c, w) \<noteq> GetIdle"
      using get_move(2) by (cases "nr_get s") (auto split: option.split list.split sum.split)
    then show ?thesis using assms(1) get_move get_step_left [OF inv(1,4), of w] get_step_ok [OF inv(1,2,4), of w]
      by (auto simp: race_inv_def sh d)
  next
    case (get_return r)
    obtain c0 w0 where "nr_begun s = (c0, w0)" by fastforce
    then show ?thesis using assms(1) get_return by (auto simp: race_inv_def sh d)
  qed
qed

lemma race_inv_start:
  assumes "length (metricEntries (fst x)) = 7" and "fields_set (fst x)"
  shows "race_inv ifaces x (race_start ifaces x)"
  using assms by (simp add: race_inv_def race_start_def split_beta)

lemma race_inv_races: "races s0 s \<Longrightarrow> race_inv ifaces x s0 \<Longrightarrow> race_inv ifaces x s"
  by (induction rule: races.induct) (auto intro: race_inv_step)

lemma net_inv_fields: "net_inv c w \<Longrightarrow> fields_set c"
  by (auto simp: net_inv_def fields_set_def)

text \<open>C15. What the missing lock leaves intact, with every statement of \<open>setInterface\<close> and of \<open>collect\<close> a
  step of its own, for any number of calls in any interleaving: no call of \<open>collect\<close> disturbs
  \<open>setInterface\<close>, which leaves what its calls one after the other leave, so that no descriptor is
  leaked; a \<open>collect\<close> during which no statement of \<open>setInterface\<close> ran returns what the function
  returns of the state in which it began; and \<open>collect\<close> never writes through a null member
  pointer, although it looks at an entry three times while it may change.\<close>

theorem unlocked_calls:
  assumes "length (metricEntries c) = 7" and "net_inv c w" and "races (race_start ifaces (c, w)) s"
  shows "(nr_set s = SetIdle \<longrightarrow> nr_shared s = set_interfaces (nr_done s) c w \<and> nr_done s @ nr_todo s = ifaces \<and>
      table_without (held (fst (nr_shared s))) (snd (nr_shared s)) = table_without (held c) w) \<and>
    list_all (\<lambda>((c0, w0), moved, r). moved \<or> r = NetworkCollector_collect c0 w0) (nr_reports s) \<and>
    (\<forall>i buf t. nr_get s = GetParse i buf t \<longrightarrow> i < length (metricEntries (fst (nr_shared s))) \<and>
       me_field (metricEntries (fst (nr_shared s)) ! i) \<noteq> None)"
proof -
  obtain c' w' where sh: "nr_shared s = (c', w')" by fastforce
  obtain c1 w1 where d: "set_interfaces (nr_done s) c w = (c1, w1)" by fastforce
  have inv: "race_inv ifaces (c, w) s"
    by (rule race_inv_races [OF assms(3) race_inv_start]) (simp_all add: assms(1) net_inv_fields [OF assms(2)])
  have "\<forall>i buf t. nr_get s = GetParse i buf t \<longrightarrow> i < length (metricEntries c') \<and> me_field (metricEntries c' ! i) \<noteq> None"
    using inv by (auto simp: race_inv_def sh)
  then show ?thesis using inv set_interfaces_table [OF assms(2) d]
    by (simp add: race_inv_def sh d)
qed

section \<open>Runs\<close>

lemma races_trans: "races s1 s2 \<Longrightarrow> races s0 s1 \<Longrightarrow> races s0 s2"
  by (induction rule: races.induct) (auto intro: races_step)

text \<open>A call of \<open>setInterface\<close> can run to its end.\<close>

lemma set_runs:
  assumes "races s0 s" and "length (metricEntries (fst (nr_shared s))) = 7"
    and "set_ok (nr_iface s) (nr_set s) (fst (nr_shared s))" and "nr_set s \<noteq> SetIdle"
  shows "races s0 (s\<lparr>nr_set := SetReturn, nr_shared := left_to_do (nr_iface s) (nr_set s) (nr_shared s),
    nr_moved := nr_moved s \<or> nr_set s \<noteq> SetReturn\<rparr>)"
  using assms
proof (induction "set_left (nr_set s)" arbitrary: s rule: less_induct)
  case less
  obtain c w where sh: "nr_shared s = (c, w)" by fastforce
  show ?case
  proof (cases "nr_set s = SetReturn")
    case True
    then have "s\<lparr>nr_set := SetReturn, nr_shared := left_to_do (nr_iface s) (nr_set s) (nr_shared s),
        nr_moved := nr_moved s \<or> nr_set s \<noteq> SetReturn\<rparr> = s"
      by (cases s) simp
    then show ?thesis using less.prems(1) by simp
  next
    case False
    obtain pc c' w' where st: "set_step (nr_iface s) (nr_set s) (c, w) = (pc, c', w')" by (cases "set_step (nr_iface s) (nr_set s) (c, w)")
    have inv: "length (metricEntries c) = 7" "set_ok (nr_iface s) (nr_set s) c" using less.prems by (simp_all add: sh)
    note left = set_step_left [OF st inv]
    have smaller: "set_left pc < set_left (nr_set s)" "pc \<noteq> SetIdle"
      using set_left_decreases [OF st inv] False less.prems(4) by simp_all
    let ?s = "s\<lparr>nr_set := pc, nr_shared := (c', w'), nr_moved := True\<rparr>"
    have "races s0 ?s" by (rule races_step [OF less.prems(1) set_move]) (use False less.prems(4) st sh in simp_all)
    from less.hyps [of ?s, OF _ this] smaller left False show ?thesis by (simp add: sh)
  qed
qed

text \<open>So can a call of \<open>collect\<close>.\<close>

lemma get_runs:
  assumes "races s0 s" and "length (metricEntries (fst (nr_shared s))) = 7" and "fields_set (fst (nr_shared s))"
    and "get_ok (nr_get s) (fst (nr_shared s))" and "nr_get s \<noteq> GetIdle"
  shows "races s0 (s\<lparr>nr_get := GetReturn (left_to_get (nr_get s) (nr_shared s))\<rparr>)"
  using assms
proof (induction "get_left (nr_get s)" arbitrary: s rule: less_induct)
  case less
  obtain c w where sh: "nr_shared s = (c, w)" by fastforce
  have inv: "length (metricEntries c) = 7" "fields_set c" "get_ok (nr_get s) c" using less.prems by (simp_all add: sh)
  show ?case
  proof (cases "nr_get s \<in> range GetReturn")
    case True
    then have "s\<lparr>nr_get := GetReturn (left_to_get (nr_get s) (nr_shared s))\<rparr> = s"
      by (cases s) auto
    then show ?thesis using less.prems(1) by simp
  next
    case False
    let ?s = "s\<lparr>nr_get := get_step (nr_get s) (c, w)\<rparr>"
    have "races s0 ?s" using races_step [OF less.prems(1) get_move] False less.prems(5) by (simp add: sh)
    moreover have "get_step (nr_get s) (c, w) \<noteq> GetIdle"
      using less.prems(5) by (cases "nr_get s") (auto split: option.split list.split sum.split)
    ultimately show ?thesis
      using less.hyps [of ?s] get_left_decreases [OF inv(1,3)] False less.prems(5) get_step_left [OF inv(1,3)] get_step_ok [OF inv]
      by (simp add: sh inv)
  qed
qed

section \<open>A snapshot of two interfaces\<close>

definition counters :: "NetworkStats \<Rightarrow> u64 list" where
  "counters s = [rx_packets s, tx_packets s, rx_dropped s, tx_dropped s, rx_errors s, tx_errors s, collisions s]"

lemma length_counters [simp]: "length (counters s) = 7"
  by (simp add: counters_def)

text \<open>The first \<open>k\<close> counters of one snapshot and the others of another one.\<close>

definition torn :: "nat \<Rightarrow> NetworkStats \<Rightarrow> NetworkStats \<Rightarrow> NetworkStats" where
  "torn k old new = network_stats (take k (counters old) @ drop k (counters new))"

lemma network_stats_fold:
  "length v = 7 \<Longrightarrow> fold (\<lambda>(f, x). set_net_field f x) (zip (map snd kNetworkMetrics) v) NetworkStats_init = network_stats v"
  by (auto simp: length_Suc_conv eval_nat_numeral kNetworkMetrics_def NetworkStats_init_def network_stats_def)

lemma counters_network_stats: "length v = 7 \<Longrightarrow> counters (network_stats v) = v"
  by (auto simp: length_Suc_conv eval_nat_numeral counters_def network_stats_def)

text \<open>The values a successful \<open>collect\<close> read.\<close>

lemma collect_counters:
  assumes "NetworkCollector_collect c w = Some s" and "length (metricEntries c) = 7"
    and "map me_field (metricEntries c) = map Some (map snd kNetworkMetrics)"
  shows "net_interface c \<noteq> [] \<and> list_all2 (\<lambda>e v. entry_value e w = Some v) (metricEntries c) (counters s)"
proof -
  have n: "net_interface c \<noteq> []" "read_entries (metricEntries c) w NetworkStats_init = Some s"
    using assms(1) by (simp_all add: NetworkCollector_collect_def split: if_splits)
  then have all: "list_all (\<lambda>e. entry_value e w \<noteq> None) (metricEntries c)"
    using read_entries_None [of "metricEntries c" w NetworkStats_init] by simp
  define v where "v = map (\<lambda>e. the (entry_value e w)) (metricEntries c)"
  have v: "list_all2 (\<lambda>e v. entry_value e w = Some v) (metricEntries c) v"
    using all by (auto simp: v_def list_all2_conv_all_nth list_all_length)
  have "length v = 7" using assms(2) by (simp add: v_def)
  with read_entries_values [OF v assms(3)] n(2) have "s = network_stats v" by (simp add: network_stats_fold)
  then show ?thesis using n(1) v counters_network_stats [OF \<open>length v = 7\<close>] by simp
qed

text \<open>A \<open>collect\<close> that reads the first entries and is then interrupted.\<close>

lemma get_part:
  assumes "races s0 s" and "nr_shared s = (c, w)" and "length (metricEntries c) = 7" and "fields_set c"
    and "nr_get s = GetTest 0 t" and "k \<le> 7"
    and "list_all2 (\<lambda>e v. entry_value e w = Some v) (take k (metricEntries c)) vs"
    and "map me_field (metricEntries c) = map Some fs"
  shows "races s0 (s\<lparr>nr_get := GetTest k (fold (\<lambda>(f, v). set_net_field f v) (zip (take k fs) vs) t)\<rparr>)"
  using assms(6,7)
proof (induction k arbitrary: vs)
  case 0
  then have "s\<lparr>nr_get := GetTest 0 t\<rparr> = s" using assms(5) by (cases s) simp
  then show ?case using 0 assms(1) by simp
next
  case (Suc k)
  let ?e = "metricEntries c ! k" and ?t = "\<lambda>vs. fold (\<lambda>(f, v). set_net_field f v) (zip (take k fs) vs) t"
  have len: "length fs = 7" using assms(3,8) by (metis length_map)
  have "take (Suc k) (metricEntries c) = take k (metricEntries c) @ [?e]"
    using Suc.prems(1) assms(3) by (simp add: take_Suc_conv_app_nth)
  then obtain us v where vs: "vs = us @ [v]" "list_all2 (\<lambda>e v. entry_value e w = Some v) (take k (metricEntries c)) us"
      "entry_value ?e w = Some v"
    using Suc.prems(2) by (auto simp: list_all2_append1 list_all2_Cons1)
  have run: "races s0 (s\<lparr>nr_get := GetTest k (?t us)\<rparr>)" using Suc vs(2) by simp
  have field: "me_field ?e = Some (fs ! k)" using assms(3,8) Suc.prems(1) len by (metis Suc_le_lessD nth_map)
  obtain b bs r where read: "os_pread (me_fd ?e) 31 w = Some (b # bs)" "from_chars_u64 (b # bs) = Inr (v, r)"
    using vs(3) by (auto simp: entry_value_def split: option.splits list.splits sum.splits)
  then have fd: "me_fd ?e \<noteq> - 1" by auto
  have one: "races s0 (s\<lparr>nr_get := get_step pc (c, w)\<rparr>)" if "races s0 (s\<lparr>nr_get := pc\<rparr>)" "pc \<noteq> GetIdle" "\<And>r. pc \<noteq> GetReturn r" for pc
    using races_step [OF that(1) get_move] that(2,3) by (auto simp: assms(2))
  have k: "k < 7" using Suc.prems(1) by simp
  have "races s0 (s\<lparr>nr_get := GetLoad k (?t us)\<rparr>)" using one [OF run] k assms(3) fd by simp
  from one [OF this] have "races s0 (s\<lparr>nr_get := GetPread k (me_fd ?e) (?t us)\<rparr>)" by simp
  from one [OF this] have "races s0 (s\<lparr>nr_get := GetParse k (b # bs) (?t us)\<rparr>)" using read(1) by simp
  from one [OF this] have "races s0 (s\<lparr>nr_get := GetTest (Suc k) (set_net_field (fs ! k) v (?t us))\<rparr>)"
    using read(2) field by simp
  moreover have "length us = k" using vs(2) k assms(3) by (auto dest: list_all2_lengthD)
  ultimately show ?case using k len by (simp add: vs(1) take_Suc_conv_app_nth)
qed

text \<open>C16. What the missing lock breaks. A port changes its state while the system thread reads the
  counters: for every \<open>k\<close> there is a schedule in which \<open>collect\<close> reports the first \<open>k\<close> counters of the
  old interface and the others of the new one, without any sign of it, although \<open>collect\<close> before or
  after the change reports each interface alone.\<close>

theorem interface_change_tears_snapshot:
  assumes "NetworkCollector_setInterface first c0 w0 = (c, w)" and "NetworkCollector_setInterface iface c w = (c', w')"
    and "NetworkCollector_collect c w = Some old" and "NetworkCollector_collect c' w' = Some new" and "k \<le> 7"
  shows "\<exists>s. races (race_start [iface] (c, w)) s \<and> nr_shared s = (c', w') \<and> nr_done s = [iface] \<and>
    nr_reports s = [((c, w), True, Some (torn k old new))]"
proof -
  let ?s0 = "race_start [iface] (c, w)" and ?fs = "map snd kNetworkMetrics"
  let ?fold = "\<lambda>fs vs. fold (\<lambda>(f, v). set_net_field f v) (zip fs vs)"
  have fields: "map me_field (metricEntries b) = map Some ?fs" "length (metricEntries b) = 7"
    if "NetworkCollector_setInterface i a u = (b, v)" for i a u b v
    using setInterface_spec(4,6) [OF that] by (auto intro!: nth_equalityI)
  note c = fields [OF assms(1)] and c' = fields [OF assms(2)]
  have inv: "fields_set c" "fields_set c'"
    using setInterface_table(2) [OF assms(1)] setInterface_table(2) [OF assms(2)] by (simp_all add: net_inv_fields)
  note old = collect_counters [OF assms(3) c(2,1)] and new = collect_counters [OF assms(4) c'(2,1)]
  let ?t = "?fold (take k ?fs) (take k (counters old)) NetworkStats_init"
  have "races ?s0 (?s0\<lparr>nr_get := GetName, nr_begun := (c, w), nr_moved := False\<rparr>)" (is "races _ ?s1")
    using races_step [OF races_refl get_call [of ?s0]] by (simp add: race_start_def)
  moreover have "race_step ?s1 (?s1\<lparr>nr_get := GetTest 0 NetworkStats_init\<rparr>)"
    using get_move [of ?s1] old by (auto simp: race_start_def)
  ultimately have "races ?s0 (?s1\<lparr>nr_get := GetTest 0 NetworkStats_init\<rparr>)" (is "races _ ?s2") by (rule races_step)
  from get_part [OF this _ c(2) inv(1) _ assms(5) _ c(1)] old
  have "races ?s0 (?s2\<lparr>nr_get := GetTest k ?t\<rparr>)" (is "races _ ?s3") by (simp add: race_start_def)
  from races_step [OF this set_call]
  have "races ?s0 (?s3\<lparr>nr_todo := [], nr_iface := iface, nr_set := SetClose 0\<rparr>)" (is "races _ ?s4")
    by (simp add: race_start_def)
  from set_runs [OF this]
  have "races ?s0 (?s4\<lparr>nr_set := SetReturn, nr_shared := (c', w'), nr_moved := True\<rparr>)" (is "races _ ?s5")
    using c(2) assms(2) by (simp add: race_start_def to_close_start)
  from races_step [OF this set_return]
  have "races ?s0 (?s5\<lparr>nr_set := SetIdle, nr_done := [iface]\<rparr>)" (is "races _ ?s6") by (simp add: race_start_def)
  from get_runs [OF this]
  have run: "races ?s0 (?s6\<lparr>nr_get := GetReturn (read_entries (drop k (metricEntries c')) w' ?t)\<rparr>)" (is "races _ ?s7")
    using c'(2) inv(2) assms(5) by simp
  have rest: "map me_field (drop k (metricEntries c')) = map Some (drop k ?fs)" using c'(1) by (metis drop_map)
  have "read_entries (drop k (metricEntries c')) w' ?t = Some (?fold (drop k ?fs) (drop k (counters new)) ?t)"
    by (rule read_entries_values) (use new rest in simp_all)
  also have "?fold (drop k ?fs) (drop k (counters new)) ?t =
      ?fold ?fs (take k (counters old) @ drop k (counters new)) NetworkStats_init"
    using assms(5) by (simp add: zip_append2)
  also have "\<dots> = torn k old new"
    unfolding torn_def by (rule network_stats_fold) (use assms(5) in simp)
  finally have result: "nr_get ?s7 = GetReturn (Some (torn k old new))" by simp
  from races_step [OF run get_return [OF this]]
  have "races ?s0 (?s7\<lparr>nr_get := GetIdle, nr_reports := [((c, w), True, Some (torn k old new))]\<rparr>)" (is "races _ ?s8")
    by (simp add: race_start_def)
  moreover have "nr_shared ?s8 = (c', w') \<and> nr_done ?s8 = [iface] \<and> nr_reports ?s8 = [((c, w), True, Some (torn k old new))]"
    by simp
  ultimately show ?thesis by blast
qed

text \<open>A host whose files say 5 for \<open>eth0\<close> and 7 for \<open>eth1\<close>.\<close>

definition two_nics :: os where
  "two_nics = \<lparr>os_files = (\<lambda>p. if take 6 p = ''n/eth0'' then Some (nat_digits 5 @ [newline_char])
       else Some (nat_digits 7 @ [newline_char])),
     os_dirs = Map.empty, os_present = (\<lambda>_. True), os_fds = []\<rparr>"

lemma two_nics_counters:
  assumes "os_files w = os_files two_nics" and "netStatsBase c = ''n''"
    and "NetworkCollector_setInterface iface c w = (c', w')" and "(iface, v :: u64) \<in> {(''eth0'', 5), (''eth1'', 7)}"
  shows "NetworkCollector_collect c' w' = Some (network_stats (replicate 7 v))"
proof (rule collect_values [OF assms(3)])
  have content: "os_files w (metric_file ''n'' iface i) = Some (nat_digits (unat v) @ newline_char # [])" for i
    using assms(1,4) by (auto simp: two_nics_def metric_file_def)
  show "entry_value (metricEntries c' ! i) w' = Some (replicate 7 v ! i)" if "i < 7" for i
    using setInterface_entry [OF assms(3) that] content [of i] setInterface_spec(1) [OF assms(3)] assms(2) that
      entry_value_number [of w' "metricEntries c' ! i" "metric_file ''n'' iface i" v "[]"]
    by (auto simp: os_readable_def)
qed (use assms(4) in auto)

theorem interface_change_tears_snapshot_witness:
  "case NetworkCollector_setInterface ''eth0'' (NetworkCollector_new ''n'') two_nics of (c, w) \<Rightarrow>
     \<exists>s. races (race_start [''eth1''] (c, w)) s \<and>
       map (\<lambda>(_, _, r). r) (nr_reports s) = [Some (network_stats [5, 7, 7, 7, 7, 7, 7])]"
proof -
  obtain c w where s1: "NetworkCollector_setInterface ''eth0'' (NetworkCollector_new ''n'') two_nics = (c, w)" by fastforce
  obtain c' w' where s2: "NetworkCollector_setInterface ''eth1'' c w = (c', w')" by fastforce
  have w: "os_files w = os_files two_nics" "netStatsBase c = ''n''"
    using setInterface_spec(1,3) [OF s1] by (simp_all add: NetworkCollector_new_def)
  have old: "NetworkCollector_collect c w = Some (network_stats (replicate 7 5))"
    by (rule two_nics_counters [OF _ _ s1]) (simp_all add: NetworkCollector_new_def)
  have new: "NetworkCollector_collect c' w' = Some (network_stats (replicate 7 7))"
    by (rule two_nics_counters [OF w s2]) simp
  have "torn 1 (network_stats (replicate 7 5)) (network_stats (replicate 7 7)) = network_stats [5, 7, 7, 7, 7, 7, 7]"
    by (simp add: torn_def counters_def network_stats_def eval_nat_numeral)
  with interface_change_tears_snapshot [OF s1 s2 old new, of 1] show ?thesis
    by (auto simp: s1)
qed

theorem unlocked_calls_witness:
  "\<exists>s. races (race_start [''eth0''] (NetworkCollector_new ''n'', two_nics)) s \<and> nr_set s = SetIdle \<and> nr_done s = [''eth0''] \<and>
     nr_shared s = NetworkCollector_setInterface ''eth0'' (NetworkCollector_new ''n'') two_nics"
proof -
  let ?c = "NetworkCollector_new ''n''" and ?s = "race_start [''eth0''] (NetworkCollector_new ''n'', two_nics)"
  have len: "length (metricEntries ?c) = 7" by (simp add: NetworkCollector_new_def)
  have "races ?s (?s\<lparr>nr_todo := [], nr_iface := ''eth0'', nr_set := SetClose 0\<rparr>)" (is "races _ ?s1")
    using races_step [OF races_refl set_call [of ?s]] by (simp add: race_start_def)
  from set_runs [OF this] len
  have "races ?s (?s1\<lparr>nr_set := SetReturn, nr_shared := to_close ''eth0'' 0 (?c, two_nics), nr_moved := True\<rparr>)"
    by (simp add: race_start_def)
  from races_step [OF this set_return]
  obtain s where s: "races ?s s" "nr_set s = SetIdle" "nr_done s = [''eth0'']" by (simp add: race_start_def)
  with unlocked_calls [OF len net_inv_new s(1)]
  show ?thesis by (auto split: prod.splits)
qed

end
