(* ===== verification/Spec2Isabelle.thy ===== *)
theory Spec2Isabelle
  imports Parser_Theorems Proc_Theorems Sensor_Theorems Sys_Metrics Topology_Theorems Config_Theorems
    Adapter_Theorems Zmq_Theorems Nic_Resolver Collector_Sources Reader_Refines Program_Resources
    Interface_Race
begin

text \<open>
  Verification of the time agent (\<open>src/src/*.cpp\<close>, \<open>src/include/*.h\<close>), a daemon that watches the
  time synchronisation of a Linux host. It reads the log lines of \<open>ptp4l\<close>, \<open>phc2sys\<close> and
  \<open>ppswatch\<close> from the journal or from a subprocess, turns each into a sample or an event, adds
  system metrics at regular times and, when a PTP port changes state, a snapshot of the PTP
  topology, and sends everything as protobuf messages over a ZMQ push socket.

  \<^bold>\<open>The parts and their theories\<close>, in the order of the imports.

  \<^item> \<open>Agent_Prelude\<close>: integer types as words, the result type \<open>exn + 'a\<close> of code that may throw,
    lemmas on lists and results, the collections \<open>scan_simps\<close> and \<open>frame_simps\<close>. \<open>CString_Lib\<close>,
    \<open>Scanf\<close>, \<open>Binary64\<close>, \<open>Strtod\<close>: what the source uses of the C and C++ libraries, as executable
    functions. \<open>sscanf\<close> interprets the format strings of the source, with their field widths (127
    and 63), and stops at the first directive that fails, with the earlier stores kept.
    \<open>double\<close> is a rational with every operation rounded to 53 bits; \<open>stod\<close> and \<open>llround\<close> are
    built on it.
  \<^item> \<open>Log_Lines\<close>, \<open>Collector_Parsers\<close>, \<open>Parser_Theorems\<close>: \<open>Ptp4lParser\<close>, \<open>Phc2SysParser\<close> and
    \<open>PPSParser\<close> of \<open>collector.cpp\<close>, with the structures of \<open>collector.h\<close>. The theorems say that
    printed lines are read back field by field, and that no text outgrows its character array.
  \<^item> \<open>Posix_Files\<close>, \<open>Proc_Metrics\<close>, \<open>Proc_Theorems\<close>, \<open>Sensor_Metrics\<close>, \<open>Sensor_Theorems\<close>,
    \<open>Sys_Metrics\<close>: \<open>system_metrics.cpp\<close> and \<open>system_metrics.h\<close>. The operating system is a record of
    files, directories and a descriptor table. \<open>CpuCollector\<close> and \<open>MemoryCollector\<close> parse the first
    16383 and 4095 bytes of a file (the sizes of their buffers less the final NUL), the sensors 31
    and 15. The theorems give the value reported as a function of the text of the files, the
    bounds of the usage (also with the unsigned differences that wrap), and that descriptors are
    neither leaked nor used after \<open>close\<close>, through any sequence of operations on the facade
    \<open>SysMetricsCollector\<close>. Their reference side is written down on its own: the files of the network
    counters by name, the usage as a formula over two samples, the directory of a sensor and the
    zones of its label files without the loops of the constructor. \<open>Interface_Race\<close>: the statements of
    \<open>NetworkCollector::setInterface\<close> and \<open>collect\<close> as the steps of two threads without a lock; run alone
    they are the two functions; what every interleaving keeps, and that a snapshot can be torn.
  \<^item> \<open>Ptp_Topology\<close>, \<open>Topology_Theorems\<close>: \<open>ptp_topology.cpp\<close>. The parser is shown equal to a
    declarative reading of the four data sets, and to read back any snapshot that is printed.
  \<^item> \<open>Config_Loader\<close>, \<open>Config_Theorems\<close>: \<open>config.cpp\<close> and \<open>config.h\<close>, with the round trip through a
    document of the shape of \<open>configs/config.yaml\<close>, any part of which may be left out, and the
    consequences of missing entries.
  \<^item> \<open>Clock\<close>: \<open>now_us\<close> of \<open>timestamp_utils.h\<close> and \<open>nowUs\<close> of \<open>ptp_topology.cpp\<close> over the reading of
    \<open>std::chrono::system_clock\<close> in nanoseconds. \<open>Adapter_Zmq\<close>, \<open>Adapter_Theorems\<close>, \<open>Zmq_Theorems\<close>:
    \<open>adapter.cpp\<close>, \<open>adapter.h\<close> and \<open>from_us\<close>. A message decodes to its metric, and its timestamp is the
    clock cut to microseconds; a send that returns gives true exactly when the socket queued the
    message. \<open>send_flags::none\<close> waits while the queue is full: \<open>z_send\<close> is \<open>None\<close> in a state of the world
    in which the call does not return. Constructor and destructor for every failure of ZMQ.
  \<^item> \<open>Nic_Resolver\<close>: \<open>network_adapter_resolver.cpp\<close> with its \<open>FileDescriptor\<close>, every outcome of the lookup.
  \<^item> \<open>Collector_Sources\<close>: \<open>JournalCollector\<close> and \<open>SubprocessCollector\<close>. Both may wait in \<open>readEvent\<close> for
    ever, the one for an entry while no stop is requested, the other for a line while its pipe is open.
  \<^item> \<open>Agent_Handlers\<close>: the constructor and the handlers of \<open>agent.cpp\<close>. A handler is the part before
    the lock (\<open>prepare\<close>: parse, look at the host, build the metric) and \<open>locked_send\<close>, whose value
    is \<open>None\<close> where the send waits. \<open>l_peer\<close> says what the other end of the socket may do to the world,
    \<open>l_stop\<close> what \<open>stop\<close> of a collector does to it, \<open>l_ended\<close> whether its reader still has to wait then.
  \<^item> \<open>Agent_Threads\<close>: \<open>run\<close>, \<open>readerLoop\<close>, \<open>sysMetricsLoop\<close> and \<open>stop\<close> as step relations over the
    program counters of all threads, the mutex, the flag, the event sources and the agent.
    A send that waits is a step that is not enabled until a step of the other end makes room; a read
    that waits one that is not enabled until an event arrives or the source ends.
    Invariants hold of every execution; shutdown is bounded by a measure that every step of the
    agent decreases: at most \<open>10 * n + 12\<close> steps for \<open>n\<close> collectors once the flag is down, whatever
    events are pending. Only a send (\<open>waits_in_send\<close>) or a read that waits (\<open>waits_in_read\<close>) can stop it, and
    where the other end can always make room (\<open>peer_reads\<close>) and the sources have ended it can always be
    completed.
  \<^item> \<open>Delivery\<close>: the receiver at the other end of the socket, and what one send puts there.
    \<open>Agent_Streams\<close>: an execution with the events that arrived in it (\<open>history\<close>); by rule induction
    over histories, which thread sends what, and that what a thread has sent, holds in hand and has
    still to read is what arrived, in order. \<open>received_stream\<close> carries this to the receiver.
  \<^item> \<open>Reader_Loop\<close>: \<open>readerLoop\<close> as a loop over a collector; it ends, and hands the events over in
    order, for every \<open>event_source\<close>, where the sends return. \<open>Reader_Refines\<close>: a reader thread of the step relation that runs
    by itself reaches what the loop returns, and nothing else.
  \<^item> \<open>Main_Program\<close>: \<open>main.cpp\<close> up to \<open>loop.run()\<close> and the log level of \<open>logging.h\<close>. \<open>Program_Life\<close>: the
    virtual methods of \<open>ICollector\<close>, and the signal handler, which is an execution of the steps of \<open>stop\<close>:
    \<open>stop\<close> of every collector sets the flag of a journal and terminates the child of a subprocess, and
    that ends the program when the analyzer reads and the pipes are closed (a program that outlives its
    parent \<open>sudo\<close> may keep one open); when the analyzer does not read and the queue is full, nothing ends it
    (\<open>full_queue_hangs\<close>). \<open>Program_Resources\<close>: what the collectors hold open, the destruction of the
    agent, and that the program leaves nothing open. A journal or a child is a handle; \<open>source_law\<close>
    says which calls make and free handles, and the invariant is that every collector in the map owns
    one of its own.
  \<^item> This theory: what a receiver gets from the lines \<open>ptp4l\<close>, \<open>phc2sys\<close> and \<open>ppswatch\<close> print,
    through sources, threads, parsers, converters and adapter.

  \<^bold>\<open>Interfaces.\<close> \<open>text_scanner\<close> and \<open>word_scanner\<close> (\<open>Scanf\<close>) are the contracts of the conversions, with
  interpretations for all of them; \<open>fd_table\<close> (\<open>Posix_Files\<close>) is the contract of \<open>open\<close>, \<open>close\<close> and
  \<open>pread\<close> that the descriptor lemmas rest on; \<open>metric_collector\<close> (\<open>Proc_Metrics\<close>) is what the facade
  relies on, interpreted for the four collectors; \<open>event_source\<close> (\<open>Collector_Sources\<close>) is what a
  reader gets from a collector, interpreted for both classes and for the sources of the threads
  (the events still to come and whether it ended) and for \<open>ICollector\<close>; the lemmas on the reader loop
  rest on it; \<open>observation\<close> (\<open>Agent_Streams\<close>) is a way to read the same values off the lines of a
  service and off its messages, interpreted for the three services; the lemmas on streams rest on it.

  \<^bold>\<open>Loops.\<close> Structural recursion, or a measure on the text left. The loop of
  \<open>JournalCollector::readEvent\<close> need not end: it is a \<open>partial_function (option)\<close> whose value is \<open>None\<close>
  when it never returns, and when it returns is a theorem. The same holds of reading until the
  end of a source, and of the sends.

  \<^bold>\<open>Parameters.\<close> Code that is not part of the repository is an argument: the operations of yaml-cpp,
  the generated protobuf classes, the ZMQ calls, \<open>sd-journal\<close>, \<open>boost::process\<close>, sockets and the PCI
  library, the iteration order of \<open>std::unordered_map\<close> (for the sensors any function that permutes; the map of
  the collectors is a list whose order means nothing: the agent runs on any list with the same
  entries), the clock, and the value of every variable
  the source leaves uninitialised. What a theorem needs of them is a named hypothesis
  (\<open>yaml_reads\<close>, \<open>pb_stores\<close>, \<open>parses_back\<close>, \<open>zmq_push\<close> and others) that states documented
  behaviour, and a witness instantiates it.

  \<^bold>\<open>Not modelled.\<close> Log messages and the logger (spdlog), with the warning of \<open>checkJournalAccess\<close>,
  which does nothing else; the calls of \<open>std::signal\<close>, which cannot fail for the two signals, so that
  the handler may run from \<open>run\<close> on; the protobuf schema, a git submodule that is empty here;
  tests and build files. Sleeping takes no time, so nothing is said of rates. In the threads the
  part of a handler before the lock is one step: the use of \<open>sysMetricsCollector_\<close> without a lock by
  the \<open>ptp4l\<close> reader and the system thread is a data race in the source; \<open>Agent_Threads\<close> interleaves
  whole calls only, so that no theorem about its executions speaks of the descriptors while the threads
  run, and \<open>program_leaks_nothing\<close> speaks of them at the end for calls that did not overlap;
  \<open>Interface_Race\<close> interleaves their statements, with every access atomic, which C++ does not
  promise, and shows (\<open>unlocked_calls\<close>) that \<open>setInterface\<close> then leaves the same descriptors all the same. Library calls other than those of \<open>readEvent\<close> and the sends are taken to return: the program
  waits for \<open>pmc\<close> (\<open>runCommand\<close>) and for its children as long as they run. In the same way a
  \<open>CollectorEvent\<close> is taken from a source in one step, and \<open>stop\<close> of one collector is one step. Numbers
  in \<open>double\<close> outside its range (infinities, NaN) do not occur in the arithmetic; for \<open>stod\<close> they
  are distinguished where the source tells them apart.
\<close>

section \<open>From a log line to the queue\<close>

text \<open>A handler that makes \<open>f e\<close> of an event, whatever the agent.\<close>

definition makes :: "'x prepare \<Rightarrow> (CollectorEvent \<Rightarrow> metric option) \<Rightarrow> (u64 \<times> u64) \<times> CollectorEvent \<Rightarrow> bool" where
  "makes prep f x \<longleftrightarrow> (\<forall>a. prep (fst x) (snd x) a = (f (snd x), a))"

lemma handled_delivered:
  assumes "pb_stores api" and "zmq_push zmq queued"
    and "parses_back api parse"
    and "sends_by_zmq L api zmq adapter"
    and "makes prep f (r, e)" and "handle L prep r e a = Some (res, a')"
  shows "res = Inr () \<and> node a' = node a \<and>
    (\<exists>bs. queued (ag_ext a') = queued (ag_ext a) @ bs \<and> delivered api zmq adapter parse (node a) bs (picks f [e]))"
  using send_received [OF assms(1-4), where a = a] assms(5,6)
  by (cases "f e") (auto simp: handle_def makes_def)

lemma delivered_all:
  assumes "pb_stores api" and "zmq_push zmq queued"
    and "parses_back api parse"
    and "sends_by_zmq L api zmq adapter"
    and "list_all (makes prep f) es" and "handle_all L prep es a = Some (res, a')"
  shows "res = Inr () \<and>
    (\<exists>bs. queued (ag_ext a') = queued (ag_ext a) @ bs \<and> delivered api zmq adapter parse (node a) bs (picks f (map snd es)))"
  using assms(5,6)
proof (induction es arbitrary: a)
  case (Cons x es)
  obtain r e where x: "x = (r, e)" by fastforce
  obtain r1 a1 where h: "handle L prep r e a = Some (r1, a1)" using Cons.prems(2) x by (auto split: option.splits)
  have "makes prep f (r, e)" using Cons.prems(1) x by simp
  from handled_delivered [OF assms(1-4) this h] obtain bs where r1: "r1 = Inr ()" "node a1 = node a"
      "queued (ag_ext a1) = queued (ag_ext a) @ bs"
      "delivered api zmq adapter parse (node a) bs (picks f [e])"
    by auto
  have rest: "handle_all L prep es a1 = Some (res, a')" using Cons.prems(2) x h r1(1) by simp
  with Cons.IH [OF _ rest] Cons.prems(1) obtain cs where cs: "res = Inr ()" "queued (ag_ext a') = queued (ag_ext a1) @ cs"
      "delivered api zmq adapter parse (node a) cs (picks f (map snd es))"
    by (auto simp: r1(2))
  have "delivered api zmq adapter parse (node a) (bs @ cs) (picks f (map snd (x # es)))"
    using delivered_append [OF r1(4) cs(3)] by (simp add: x)
  then show ?case using r1(3) cs(1,2) by (intro conjI exI [of _ "bs @ cs"]) simp_all
qed simp

text \<open>For protobuf classes that store what is set and can be parsed back and a socket
  that queues what it accepts: while \<open>ptp4l\<close> prints offset lines, whatever their number and
  values, the handler, once it has returned, let no exception out, and what a receiver reads from the queue is the
  samples printed, with the arrival times and the node name, in order: a sample can be missing,
  when the socket refused it, but none is altered, repeated or out of order; and none is missing
  when the socket takes every message and the messages can be serialised.\<close>

lemma samples_delivered:
  assumes "pb_stores api" and "zmq_push zmq queued"
    and "parses_back api parse"
    and "sends_by_zmq L api zmq adapter" and "\<forall>x \<in> set xs. line_ok x"
    and "handle_all L (\<lambda>(now, junk). ptp4l_prepare L now) (map (\<lambda>x. ((0, 0), line_event unit x)) xs) a = Some (r, a')"
  shows "r = Inr () \<and>
      (\<exists>bs. queued (ag_ext a') = queued (ag_ext a) @ bs \<and> delivered api zmq adapter parse (node a) bs (map line_sample xs))"
proof -
  let ?f = "\<lambda>e. fst (ptp4l_prepare L 0 e a)" and ?prep = "\<lambda>(now, junk). ptp4l_prepare L now"
    and ?es = "map (\<lambda>x. ((0 :: u64, 0 :: u64), line_event unit x))"
  have line: "\<exists>mt. (\<forall>b. ptp4l_prepare L 0 (line_event unit x) b = (Some mt, b)) \<and> without_unit mt = line_sample x"
    if "x \<in> set xs" for x
    using line_prepared [of x L 0 unit] assms(5) that by blast
  then have "list_all (makes ?prep ?f) (?es xs)"
    by (fastforce simp: list_all_iff makes_def)
  note all = delivered_all [OF assms(1-4) this assms(6)]
  have eq: "map without_unit (picks ?f (map snd (?es xs))) = map line_sample xs"
    using line by (induction xs) fastforce+
  have "delivered api zmq adapter parse (node a) bs (map line_sample xs) =
      delivered api zmq adapter parse (node a) bs (picks ?f (map snd (?es xs)))" for bs
    unfolding eq [symmetric] by (rule delivered_unit)
  with all show ?thesis by simp
qed

lemma zmq_world_returns: "sends_return zmq_world_libs"
  by (simp add: sends_return_def zmq_world_libs_def ZMQAdapter_send_def send_impl_def wide_zmq_def
      small_zmq_def split: option.split prod.split sum.split)

lemma samples_delivered_example:
  "case handle_all zmq_world_libs (\<lambda>(now, junk). ptp4l_prepare zmq_world_libs now)
       (map (\<lambda>x. ((0, 0), line_event ''ptp4l'' x)) [example_line]) zmq_world_agent of
     None \<Rightarrow> False
   | Some (r, a') \<Rightarrow> r = Inr () \<and> map (received one_pb (\<lambda>_. Some (to_wrapper map_pb (line_sample example_line) ''node'')))
       (ag_ext a') = [Some (line_sample example_line, ''node'')]"
proof -
  let ?parse = "\<lambda>_. Some (to_wrapper map_pb (line_sample example_line) ''node'')"
  have parse: "parses_back one_pb ?parse" by (simp add: parses_back_def one_pb_def)
  have zmq: "sends_by_zmq zmq_world_libs one_pb wide_zmq \<lparr>has_context = True, has_sender = True\<rparr>"
    by (simp add: sends_by_zmq_def zmq_world_libs_def)
  have ok: "\<forall>x \<in> set [example_line]. line_ok x" by (simp add: line_ok_def example_line_def is_word_def)
  have start: "ag_ext zmq_world_agent = []" "node zmq_world_agent = ''node''" by (simp_all add: zmq_world_agent_def)
  have read: "map (received one_pb ?parse) bs = [Some (line_sample example_line, ''node'')]"
    if "delivered one_pb wide_zmq \<lparr>has_context = True, has_sender = True\<rparr> ?parse ''node'' bs (map line_sample [example_line])" for bs
    using that example_taken unfolding delivered_def by (simp add: line_sample_def)
  obtain r a' where h: "handle_all zmq_world_libs (\<lambda>(now, junk). ptp4l_prepare zmq_world_libs now)
      (map (\<lambda>x. ((0, 0), line_event ''ptp4l'' x)) [example_line]) zmq_world_agent = Some (r, a')"
    using handle_all_returns [OF zmq_world_returns] by fastforce
  from samples_delivered [OF one_pb_stores wide_zmq_push parse zmq ok h] read
  show ?thesis unfolding h start by auto
qed

section \<open>What a receiver sees of the running agent\<close>

text \<open>C1. The agent as a whole, in every interleaving of its threads, of signals and of the events that
  arrive, for protobuf classes that store what is set and can be parsed back and a socket that
  queues what it accepts: what a receiver reads from the queue of a service is what the log lines
  of that service report (offset samples and port events of \<open>ptp4l\<close>, samples of \<open>phc2sys\<close> and
  \<open>ppswatch\<close>), with the time of each line and the node name, in the order in which the lines
  arrived. Nothing is altered, invented, repeated, reordered or taken from another service; and
  when the socket takes every message (even if the thread has to wait until there is room) nothing is
  missing but the lines not yet read and the one
  the reader works on.\<close>

theorem receiver_sees_the_logs:
  assumes "pb_stores api" and "zmq_push zmq queued"
    and "parses_back api parse"
    and "sends_by_zmq L api zmq adapter" and "quiet L queued"
    and "history L names a tr s" and "distinct names" and "t < length names"
    and "names ! t = name" and "name \<in> {''ptp4l'', ''phc2sys'', ''ppswatch''}"
  shows "\<exists>bs. queued (ag_ext (the_agent s)) = queued (ag_ext a) @ bs \<and>
    subseq (picks (seen_from name) (map (received api parse) bs)) (map (\<lambda>v. (v, node a)) (picks (reported name) (arrived t tr))) \<and>
    (takes_all api zmq adapter (node a) (map snd (sent s)) \<longrightarrow>
       picks (seen_from name) (map (received api parse) bs) @ map (\<lambda>v. (v, node a)) (not_yet_sent name t s) =
       map (\<lambda>v. (v, node a)) (picks (reported name) (arrived t tr)))"
  using assms by (rule received_stream)

lemma zmq_world_quiet: "quiet zmq_world_libs (\<lambda>q. q)"
  by (simp add: quiet_def calls_leave_def leaves_def zmq_world_libs_def)

theorem receiver_sees_the_logs_witness:
  "\<exists>a'. history zmq_world_libs one_name zmq_world_agent [(0, example_event)] (demo AtUnlock [] (Some 0) [(0, example_metric)] a') \<and>
     picks (seen_from ''ptp4l'') (map (received one_pb (\<lambda>_. Some (to_wrapper map_pb (line_sample example_line) ''node''))) (ag_ext a')) =
     [(line_sample example_line, ''node'')]"
proof -
  let ?parse = "\<lambda>_. Some (to_wrapper map_pb (line_sample example_line) ''node'')"
    and ?adapter = "\<lparr>has_context = True, has_sender = True\<rparr>"
  have parse: "parses_back one_pb ?parse" by (simp add: parses_back_def one_pb_def)
  have zmq: "sends_by_zmq zmq_world_libs one_pb wide_zmq ?adapter"
    by (simp add: sends_by_zmq_def zmq_world_libs_def)
  have node: "node zmq_world_agent = ''node''" "ag_ext zmq_world_agent = []" by (simp_all add: zmq_world_agent_def)
  have "l_send zmq_world_libs m n x \<noteq> None" for m n x using zmq_world_returns by (simp add: sends_return_def)
  then obtain r a' where send: "locked_send zmq_world_libs example_metric zmq_world_agent = Some (r, a')"
    by (metis (no_types, opaque_lifting) locked_send_none option.exhaust surj_pair)
  with send_received [OF one_pb_stores wide_zmq_push parse zmq send] have "r = Inr ()" by simp
  with send have h: "history zmq_world_libs one_name zmq_world_agent [(0, example_event)]
      (demo AtUnlock [] (Some 0) [(0, example_metric)] a')" by (intro demo_history) simp
  have unit: "without_unit example_metric = line_sample example_line"
    by (simp add: example_metric_def line_sample_def)
  have taken: "takes_all one_pb wide_zmq ?adapter ''node'' [example_metric]"
    using example_taken to_wrapper_unit [of one_pb example_metric "''node''"] unfolding unit takes_all_def by simp
  have name: "one_name ! 0 = ''ptp4l''" "''ptp4l'' \<in> {''ptp4l'', ''phc2sys'', ''ppswatch''}" "distinct one_name" "0 < length one_name"
    by simp_all
  show ?thesis
    using receiver_sees_the_logs [OF one_pb_stores wide_zmq_push parse zmq zmq_world_quiet h name(3,4,1,2)] h taken
    by (simp add: demo_def node not_yet_sent_def arrived_def example_reported) blast
qed

section \<open>From a subprocess to the queue\<close>

text \<open>What the handlers of \<open>phc2sys\<close> and \<open>ppswatch\<close> make of an event.\<close>

definition service_sample :: "string \<Rightarrow> CollectorEvent \<Rightarrow> metric option" where
  "service_sample name e = (if name = ''phc2sys'' then phc2sys_prepare e else ppswatch_prepare 0 e)"

lemma ppswatch_any_junk: "ppswatch_prepare junk e = ppswatch_prepare 0 e"
  by (subst (1) ppswatch_prepare_def, subst PPS_stamp) (auto simp: ppswatch_prepare_def split: option.splits)

lemma stateless_service:
  assumes "buildHandlers L name = Some prep" and "name \<noteq> ''ptp4l''"
  shows "makes prep (service_sample name) x"
  using assms ppswatch_any_junk [of "snd (fst x)" "snd x"]
  by (auto simp: makes_def buildHandlers_def service_sample_def split_beta split: if_splits)

text \<open>C6. End to end for \<open>phc2sys\<close> and \<open>ppswatch\<close> read from a subprocess, whatever it prints until it closes
  its output or prints an empty line, and
  whatever other threads do to the flag: the reader thread ends without an exception, unless a send
  blocks for ever, in which case it had got the first of the lines; the lines
  it handled are the first ones the process printed (all of them up to the first empty line, when
  the flag stayed up), and what a receiver reads from the queue is the samples in these lines,
  each with its values, its time and the node name, in order: a sample can be missing when the
  socket refused it, but none is altered, invented, repeated or out of order; and none is missing
  when the socket takes every message and the messages can be serialised.\<close>

theorem service_samples_delivered:
  assumes "pb_stores api" and "zmq_push zmq queued"
    and "parses_back api parse"
    and "sends_by_zmq L api zmq adapter"
    and "process_law P (sc_child c) lines eof" and "output_ends lines eof w"
    and "buildHandlers L name = Some prep" and "name \<noteq> ''ptp4l''"
  shows "let res = readerLoop up (SubprocessCollector_readEvent P c) readings L prep w a
    in (sends_return L \<longrightarrow> res \<noteq> None) \<and>
       (\<exists>es. case res of
          None \<Rightarrow> handed (sc_unit c) (takeWhile (\<lambda>l. l \<noteq> []) (lines w)) False es \<and> handle_all L prep es a = None
        | Some (r, w', a') \<Rightarrow> r = Inr () \<and> handed (sc_unit c) (takeWhile (\<lambda>l. l \<noteq> []) (lines w)) (\<forall>v. up v) es \<and>
            (\<exists>bs. queued (ag_ext a') = queued (ag_ext a) @ bs \<and>
               delivered api zmq adapter parse (node a) bs (picks (service_sample name) (map snd es))))"
proof -
  let ?res = "readerLoop up (SubprocessCollector_readEvent P c) readings L prep w a"
  obtain es where loop: "loop_hands (sc_unit c) (takeWhile (\<lambda>l. l \<noteq> []) (lines w)) (\<forall>v. up v) L prep a ?res es"
    using subprocess.readerLoop_handles [OF conjI [OF assms(5,6)]] by blast
  have "list_all (makes prep (service_sample name)) es"
    by (simp add: list_all_iff stateless_service [OF assms(7,8)])
  note sent = delivered_all [OF assms(1-4) this]
  have "case ?res of
      None \<Rightarrow> handed (sc_unit c) (takeWhile (\<lambda>l. l \<noteq> []) (lines w)) False es \<and> handle_all L prep es a = None
    | Some (r, w', a') \<Rightarrow> r = Inr () \<and> handed (sc_unit c) (takeWhile (\<lambda>l. l \<noteq> []) (lines w)) (\<forall>v. up v) es \<and>
        (\<exists>bs. queued (ag_ext a') = queued (ag_ext a) @ bs \<and>
           delivered api zmq adapter parse (node a) bs (picks (service_sample name) (map snd es)))"
  proof (cases ?res)
    case None
    then show ?thesis using loop by (simp add: loop_hands_def)
  next
    case (Some p)
    then obtain r w' a' where p: "?res = Some (r, w', a')" by (cases p) auto
    then have "handle_all L prep es a = Some (r, a')" using loop by (simp add: loop_hands_def)
    from sent [OF this] show ?thesis using p loop by (simp add: loop_hands_def)
  qed
  with loop_hands_returns [OF loop] show ?thesis unfolding Let_def by blast
qed

theorem service_samples_delivered_witness:
  "\<exists>w' a' (es :: ((u64 \<times> u64) \<times> CollectorEvent) list) bs.
    readerLoop (\<lambda>_. True) (SubprocessCollector_readEvent list_process \<lparr>sc_unit = ''ppswatch'', sc_child = ()\<rparr>)
      (\<lambda>_. (0, 0)) zmq_world_libs (\<lambda>(now, junk) e a. (ppswatch_prepare junk e, a))
      [pps_line 1 2 (- 15), ''noise'', [], ''after''] zmq_world_agent = Some (Inr (), w', a') \<and>
    map (ev_msg \<circ> snd) es = [pps_line 1 2 (- 15), ''noise''] \<and> ag_ext a' = bs \<and>
    delivered one_pb wide_zmq \<lparr>has_context = True, has_sender = True\<rparr>
      (\<lambda>_. Some (to_wrapper map_pb (line_sample example_line) ''node'')) ''node'' bs (picks (service_sample ''ppswatch'') (map snd es))"
proof -
  let ?parse = "\<lambda>_. Some (to_wrapper map_pb (line_sample example_line) ''node'')"
  have parse: "parses_back one_pb ?parse" by (simp add: parses_back_def one_pb_def)
  have zmq: "sends_by_zmq zmq_world_libs one_pb wide_zmq \<lparr>has_context = True, has_sender = True\<rparr>"
    by (simp add: sends_by_zmq_def zmq_world_libs_def)
  have p: "process_law list_process (sc_child \<lparr>sc_unit = ''ppswatch'', sc_child = ()\<rparr>) (\<lambda>w. w) (\<lambda>_. False)"
    using list_process_law by simp
  have ends: "output_ends (\<lambda>w. w) (\<lambda>_. False) [pps_line 1 2 (- 15), ''noise'', [], ''after'']" by simp
  have b: "buildHandlers zmq_world_libs ''ppswatch'' = Some (\<lambda>(now, junk) e a. (ppswatch_prepare junk e, a))"
    by (simp add: buildHandlers_def)
  have start: "ag_ext zmq_world_agent = []" "node zmq_world_agent = ''node''" by (simp_all add: zmq_world_agent_def)
  have lines: "takeWhile (\<lambda>l. l \<noteq> []) [pps_line 1 2 (- 15), ''noise'', [], ''after''] = [pps_line 1 2 (- 15), ''noise'']"
    by (simp add: pps_line_def)
  have name: "''ppswatch'' \<noteq> ''ptp4l''" by simp
  let ?res = "readerLoop (\<lambda>_. True) (SubprocessCollector_readEvent list_process
      \<lparr>sc_unit = ''ppswatch'', sc_child = ()\<rparr>) (\<lambda>_. (0, 0)) zmq_world_libs
      (\<lambda>(now, junk) e a. (ppswatch_prepare junk e, a)) [pps_line 1 2 (- 15), ''noise'', [], ''after''] zmq_world_agent"
  note all = service_samples_delivered [where P = list_process and c = "\<lparr>sc_unit = ''ppswatch'', sc_child = ()\<rparr>"
        and lines = "\<lambda>w. w" and a = zmq_world_agent and up = "\<lambda>_. True" and readings = "\<lambda>_. (0, 0)"
        and w = "[pps_line 1 2 (- 15), ''noise'', [], ''after'']",
        OF one_pb_stores wide_zmq_push parse zmq p ends b name, unfolded Let_def]
  obtain res w' a' where some: "?res = Some (res, w', a')" using all zmq_world_returns by fastforce
  with all have loop: "?res = Some (Inr (), w', a')" by simp
  obtain es bs where d:
      "handed (sc_unit \<lparr>sc_unit = ''ppswatch'', sc_child = ()\<rparr>)
        (takeWhile (\<lambda>l. l \<noteq> []) [pps_line 1 2 (- 15), ''noise'', [], ''after'']) (\<forall>v :: string list. True) es"
      "ag_ext a' = ag_ext zmq_world_agent @ bs"
      "delivered one_pb wide_zmq \<lparr>has_context = True, has_sender = True\<rparr> ?parse (node zmq_world_agent) bs
        (picks (service_sample ''ppswatch'') (map snd es))"
    using all unfolding loop prod.case option.case by (elim exE conjE) (rule that)
  have "map (ev_msg \<circ> snd) es = [pps_line 1 2 (- 15), ''noise'']"
    using d(1) unfolding lines handed_def by simp
  moreover have "ag_ext a' = bs" using d(2) unfolding start by simp
  ultimately show ?thesis using loop d(3) unfolding start
    by (intro exI [of _ w'] exI [of _ a'] exI [of _ es] exI [of _ bs] conjI)
qed

end
